(* ===== verification/Prelude.thy ===== *)
theory Prelude
  imports Main "HOL-Library.Char_ord"
begin

text \<open>
  Shared vocabulary of the development.

  \<^item> \<open>fault\<close>: what ends a C process outside the normal return path: the \<open>PANIC\<close> macro of
    \<^verbatim>\<open>utils/logging.h\<close> (reached through \<open>ALWAYS_ASSERT\<close> of \<^verbatim>\<open>utils/better-assert.h\<close>),
    an access outside an array, a division by zero. A C function is a HOL function into
    \<open>fault + 'a\<close>; \<open>bindR\<close> sequences two of them.
  \<^item> \<open>arr_get\<close>, \<open>arr_set\<close>: array accesses that fault out of range.
  \<^item> \<open>for_find\<close>: the loop \<open>for (i = a; i < n; i++) if (t(i)) return i;\<close>, which nearly every table
    of the program is searched with, and its characterisation by \<^const>\<open>List.find\<close>.
  \<^item> \<open>int_of_size\<close>: the cast from \<^verbatim>\<open>size_t\<close> to a 32-bit \<^verbatim>\<open>int\<close>; \<open>u64_inc\<close>, \<open>u64_dec\<close>: the
    wrap-around of \<^verbatim>\<open>size_t\<close> and \<^verbatim>\<open>uint64_t\<close> counters.

  The collections \<open>res_iff\<close> (when a faulting computation returns) and \<open>frame\<close> (what an
  operation leaves alone) carry the proofs of the component theories.
\<close>

named_theorems res_iff \<open>when a computation that may fault returns normally\<close>
named_theorems frame \<open>parts of the state that an operation does not change\<close>

section \<open>Faults and results\<close>

datatype fault =
    Panic string
  | OutOfBounds
  | DivisionByZero

type_synonym 'a res = "fault + 'a"

definition bindR :: "'a res \<Rightarrow> ('a \<Rightarrow> 'b res) \<Rightarrow> 'b res" where
  "bindR m f = (case m of Inl e \<Rightarrow> Inl e | Inr x \<Rightarrow> f x)"

definition ALWAYS_ASSERT :: "bool \<Rightarrow> string \<Rightarrow> 'a res \<Rightarrow> 'a res" where
  "ALWAYS_ASSERT c msg k = (if c then k else Inl (Panic msg))"

lemma bindR_Inr [simp]: "bindR (Inr x) f = f x"
  by (simp add: bindR_def)

lemma bindR_Inl [simp]: "bindR (Inl e) f = Inl e"
  by (simp add: bindR_def)

lemma bindR_eq_Inr [res_iff]: "bindR m f = Inr y \<longleftrightarrow> (\<exists>x. m = Inr x \<and> f x = Inr y)"
  by (cases m) auto

lemma bindR_eq_Inl: "bindR m f = Inl e \<longleftrightarrow> m = Inl e \<or> (\<exists>x. m = Inr x \<and> f x = Inl e)"
  by (cases m) auto

lemma bindR_cong [fundef_cong]:
  "m = m' \<Longrightarrow> (\<And>x. m' = Inr x \<Longrightarrow> f x = f' x) \<Longrightarrow> bindR m f = bindR m' f'"
  by (cases m') auto

lemma ALWAYS_ASSERT_True [simp]: "c \<Longrightarrow> ALWAYS_ASSERT c msg k = k"
  by (simp add: ALWAYS_ASSERT_def)

lemma ALWAYS_ASSERT_False [simp]: "\<not> c \<Longrightarrow> ALWAYS_ASSERT c msg k = Inl (Panic msg)"
  by (simp add: ALWAYS_ASSERT_def)

lemma ALWAYS_ASSERT_eq_Inr [res_iff]: "ALWAYS_ASSERT c msg k = Inr y \<longleftrightarrow> c \<and> k = Inr y"
  by (simp add: ALWAYS_ASSERT_def)

lemma if_Inr_eq [res_iff]:
  "(if c then a else b) = Inr (y :: 'a) \<longleftrightarrow> (c \<and> a = (Inr y :: 'b + 'a) \<or> \<not> c \<and> b = Inr y)"
  by simp

text \<open>Rewriting inside the branches without assuming the condition there.\<close>

lemma if_branch_cong:
  "c = c' \<Longrightarrow> a = a' \<Longrightarrow> b = b' \<Longrightarrow> (if c then a else b) = (if c' then a' else b')"
  by simp

section \<open>Arrays\<close>

definition arr_get :: "'a list \<Rightarrow> nat \<Rightarrow> 'a res" where
  "arr_get xs i = (if i < length xs then Inr (xs ! i) else Inl OutOfBounds)"

definition arr_set :: "'a list \<Rightarrow> nat \<Rightarrow> 'a \<Rightarrow> 'a list res" where
  "arr_set xs i v = (if i < length xs then Inr (xs[i := v]) else Inl OutOfBounds)"

lemma arr_get_ok [simp]: "i < length xs \<Longrightarrow> arr_get xs i = Inr (xs ! i)"
  by (simp add: arr_get_def)

lemma arr_set_ok [simp]: "i < length xs \<Longrightarrow> arr_set xs i v = Inr (xs[i := v])"
  by (simp add: arr_set_def)

lemma arr_get_oob [simp]: "length xs \<le> i \<Longrightarrow> arr_get xs i = Inl OutOfBounds"
  by (simp add: arr_get_def)

lemma arr_set_oob [simp]: "length xs \<le> i \<Longrightarrow> arr_set xs i v = Inl OutOfBounds"
  by (simp add: arr_set_def)

lemma arr_get_eq_Inr [res_iff]: "arr_get xs i = Inr v \<longleftrightarrow> i < length xs \<and> v = xs ! i"
  by (auto simp: arr_get_def)

lemma arr_set_eq_Inr [res_iff]: "arr_set xs i v = Inr ys \<longleftrightarrow> i < length xs \<and> ys = xs[i := v]"
  by (auto simp: arr_set_def)

section \<open>Searching loops\<close>

function for_find :: "(nat \<Rightarrow> bool res) \<Rightarrow> nat \<Rightarrow> nat \<Rightarrow> nat option res" where
  "for_find t i n =
     (if i < n
      then (case t i of
              Inl e \<Rightarrow> Inl e
            | Inr b \<Rightarrow> if b then Inr (Some i) else for_find t (Suc i) n)
      else Inr None)"
  by pat_completeness auto
termination
  by (relation "measure (\<lambda>(t, i, n). n - i)") auto

declare for_find.simps [simp del]

lemma for_find_find:
  assumes "\<And>j. i \<le> j \<Longrightarrow> j < n \<Longrightarrow> t j = Inr (p j)"
  shows "for_find t i n = Inr (List.find p [i..<n])"
  using assms
proof (induction t i n rule: for_find.induct)
  case (1 t i n)
  show ?case
  proof (cases "i < n")
    case True
    then have ti: "t i = Inr (p i)" and up: "[i..<n] = i # [Suc i..<n]"
      using 1(2) by (auto simp: upt_rec)
    show ?thesis
    proof (cases "p i")
      case True
      then show ?thesis
        using \<open>i < n\<close> ti up by (simp add: for_find.simps [of t i n])
    next
      case False
      then have "for_find t (Suc i) n = Inr (List.find p [Suc i..<n])"
        using 1(1) [OF \<open>i < n\<close> ti] 1(2) by simp
      then show ?thesis
        using \<open>i < n\<close> ti up False by (simp add: for_find.simps [of t i n])
    qed
  next
    case False
    then show ?thesis by (simp add: for_find.simps [of t i n])
  qed
qed

lemma find_upt_Some_iff:
  "List.find p [0..<n] = Some k \<longleftrightarrow> k < n \<and> p k \<and> (\<forall>j<k. \<not> p j)"
  by (auto simp: find_Some_iff)

lemma find_upt_None_iff: "List.find p [0..<n] = None \<longleftrightarrow> (\<forall>j<n. \<not> p j)"
  by (auto simp: find_None_iff)

lemma find_upt_cong:
  "(\<And>j. j < n \<Longrightarrow> p j = q j) \<Longrightarrow> List.find p [0..<n] = List.find q [0..<n]"
  by (rule find_cong) auto

text \<open>Scanning an array for the first element that satisfies a predicate.\<close>

definition scan :: "('a \<Rightarrow> bool) \<Rightarrow> 'a list \<Rightarrow> nat \<Rightarrow> nat option res" where
  "scan P xs n = for_find (\<lambda>i. bindR (arr_get xs i) (\<lambda>x. Inr (P x))) 0 n"

lemma scan_find:
  "n \<le> length xs \<Longrightarrow> scan P xs n = Inr (List.find (\<lambda>i. P (xs ! i)) [0..<n])"
  unfolding scan_def by (rule for_find_find) simp

lemma scan_Some:
  assumes "n \<le> length xs" and "scan P xs n = Inr (Some k)"
  shows "k < n" and "P (xs ! k)" and "\<And>j. j < k \<Longrightarrow> \<not> P (xs ! j)"
  using assms by (auto simp: scan_find find_upt_Some_iff)

lemma scan_None:
  "n \<le> length xs \<Longrightarrow> scan P xs n = Inr None \<Longrightarrow> j < n \<Longrightarrow> \<not> P (xs ! j)"
  by (auto simp: scan_find find_upt_None_iff)

section \<open>C integers\<close>

text \<open>
  \<^verbatim>\<open>size_t\<close> and \<^verbatim>\<open>uint64_t\<close> values are natural numbers below \<open>2 ^ 64\<close>; where the code's arithmetic
  can leave that range the wrap-around is written out. \<^verbatim>\<open>int\<close> values are integers.
\<close>

abbreviation SIZE_MOD :: nat where
  "SIZE_MOD \<equiv> 2 ^ 64"

definition size_add :: "nat \<Rightarrow> nat \<Rightarrow> nat" where
  "size_add a b = (a + b) mod SIZE_MOD"

definition u64_inc :: "nat \<Rightarrow> nat" where
  "u64_inc n = (n + 1) mod SIZE_MOD"

definition u64_dec :: "nat \<Rightarrow> nat" where
  "u64_dec n = (n + (SIZE_MOD - 1)) mod SIZE_MOD"

definition int_of_size :: "nat \<Rightarrow> int" where
  "int_of_size n = (let m = int n mod 2 ^ 32 in if m < 2 ^ 31 then m else m - 2 ^ 32)"

lemma int_of_size_small [simp]: "n < 2 ^ 31 \<Longrightarrow> int_of_size n = int n"
  by (simp add: int_of_size_def Let_def)

lemma size_add_small [simp]: "a + b < SIZE_MOD \<Longrightarrow> size_add a b = a + b"
  unfolding size_add_def by (rule mod_less)

lemma u64_inc_small [simp]: "n + 1 < SIZE_MOD \<Longrightarrow> u64_inc n = n + 1"
  unfolding u64_inc_def by (rule mod_less)

lemma u64_dec_pos [simp]: "0 < n \<Longrightarrow> n < SIZE_MOD \<Longrightarrow> u64_dec n = n - 1"
proof -
  assume "0 < n" and "n < SIZE_MOD"
  then have eq: "n + (SIZE_MOD - 1) = (n - 1) + SIZE_MOD" and lt: "n - 1 < SIZE_MOD"
    by simp_all
  show ?thesis
    unfolding u64_dec_def eq by (simp only: mod_add_self2 mod_less [OF lt])
qed

lemma u64_dec_zero: "u64_dec 0 = SIZE_MOD - 1"
  by (simp add: u64_dec_def)

section \<open>Lists\<close>

lemma nth_list_update_if: "j < length xs \<Longrightarrow> xs[i := v] ! j = (if i = j then v else xs ! j)"
  by (auto simp: nth_list_update)

lemma count_list_update:
  "k < length xs \<Longrightarrow>
     count_list (xs[k := v]) x + (if xs ! k = x then 1 else 0) =
     count_list xs x + (if v = x then 1 else 0)"
proof (induction xs arbitrary: k)
  case Nil
  then show ?case by simp
next
  case (Cons y ys)
  show ?case
  proof (cases k)
    case 0
    then show ?thesis by auto
  next
    case (Suc m)
    then have "m < length ys"
      using Cons.prems by simp
    from Cons.IH [OF this] Suc show ?thesis
      by (auto split: if_splits)
  qed
qed

lemma count_list_pos: "k < length xs \<Longrightarrow> xs ! k = x \<Longrightarrow> 0 < count_list xs x"
  by (metis count_list_0_iff gr0I nth_mem)

lemma count_list_zero: "count_list xs x = 0 \<Longrightarrow> k < length xs \<Longrightarrow> xs ! k \<noteq> x"
  using count_list_pos by fastforce

end
