(* ===== verification/CMemory.thy ===== *)
theory CMemory
  imports Prelude
begin

text \<open>
  Byte memory and the C library functions the sources use on it.

  A region of memory is a \<open>char list\<close> (a HOL character is exactly one byte), a position in it a
  natural number. \<open>mem_read\<close> and \<open>mem_write\<close> are \<^verbatim>\<open>memcpy\<close> out of and into a region; leaving the
  region is a fault. \<open>le_bytes\<close>/\<open>le_val\<close> are the little-endian layout of unsigned integers, with
  \<open>int32_bytes\<close>/\<open>int32_val\<close> for the two's complement \<^verbatim>\<open>int\<close>. \<open>cstr\<close> reads a C string up to its
  terminator; \<open>strcmp_eq\<close> and \<open>strncmp_eq\<close> are the tests \<^verbatim>\<open>strcmp(p, s) == 0\<close> and
  \<^verbatim>\<open>strncmp(p, s, n) == 0\<close> of a memory position against a string, byte by byte and stopping where the
  library functions stop; \<open>strncpy\<close> is the padded copy and \<open>strcpy_into\<close> the unbounded one.
\<close>

type_synonym mem = "char list"

abbreviation NUL :: char where
  "NUL \<equiv> CHR 0x00"

section \<open>Reading and writing a region\<close>

definition mem_read :: "mem \<Rightarrow> nat \<Rightarrow> nat \<Rightarrow> mem res" where
  "mem_read m pos len =
     (if pos + len \<le> length m then Inr (take len (drop pos m)) else Inl OutOfBounds)"

definition mem_write :: "mem \<Rightarrow> nat \<Rightarrow> mem \<Rightarrow> mem res" where
  "mem_write m pos bs =
     (if pos + length bs \<le> length m
      then Inr (take pos m @ bs @ drop (pos + length bs) m) else Inl OutOfBounds)"

definition patch :: "mem \<Rightarrow> nat \<Rightarrow> mem \<Rightarrow> mem" where
  "patch m pos bs = take pos m @ bs @ drop (pos + length bs) m"

definition slice :: "mem \<Rightarrow> nat \<Rightarrow> nat \<Rightarrow> mem" where
  "slice m pos len = take len (drop pos m)"

lemma mem_read_ok [simp]: "pos + len \<le> length m \<Longrightarrow> mem_read m pos len = Inr (slice m pos len)"
  by (simp add: mem_read_def slice_def)

lemma mem_write_ok [simp]:
  "pos + length bs \<le> length m \<Longrightarrow> mem_write m pos bs = Inr (patch m pos bs)"
  by (simp add: mem_write_def patch_def)

lemma mem_write_eq_Inr [res_iff]:
  "mem_write m pos bs = Inr m' \<longleftrightarrow> pos + length bs \<le> length m \<and> m' = patch m pos bs"
  by (auto simp: mem_write_def patch_def)

lemma mem_read_eq_Inr [res_iff]:
  "mem_read m pos len = Inr bs \<longleftrightarrow> pos + len \<le> length m \<and> bs = slice m pos len"
  by (auto simp: mem_read_def slice_def)

lemma length_patch [simp]: "pos + length bs \<le> length m \<Longrightarrow> length (patch m pos bs) = length m"
  by (simp add: patch_def)

lemma length_slice [simp]: "pos + len \<le> length m \<Longrightarrow> length (slice m pos len) = len"
  by (simp add: slice_def)

lemma nth_slice: "pos + len \<le> length m \<Longrightarrow> i < len \<Longrightarrow> slice m pos len ! i = m ! (pos + i)"
  by (simp add: slice_def)

lemma nth_patch:
  assumes "pos + length bs \<le> length m" and "i < length m"
  shows "patch m pos bs ! i =
    (if pos \<le> i \<and> i < pos + length bs then bs ! (i - pos) else m ! i)"
  using assms by (auto simp: patch_def nth_append not_less)

text \<open>The three ways a write meets a read: exactly, not at all, inside a larger region.\<close>

lemma slice_patch_same [simp]:
  "pos + length bs \<le> length m \<Longrightarrow> slice (patch m pos bs) pos (length bs) = bs"
  by (simp add: slice_def patch_def)

lemma slice_patch_disjoint:
  assumes "pos + length bs \<le> length m" and "a + len \<le> length m"
    and "a + len \<le> pos \<or> pos + length bs \<le> a"
  shows "slice (patch m pos bs) a len = slice m a len"
proof (rule nth_equalityI)
  show "length (slice (patch m pos bs) a len) = length (slice m a len)"
    using assms by simp
next
  fix i
  assume "i < length (slice (patch m pos bs) a len)"
  then have "i < len"
    using assms by simp
  then show "slice (patch m pos bs) a len ! i = slice m a len ! i"
    using assms by (auto simp: nth_slice nth_patch)
qed

lemma slice_patch_inside:
  assumes "a \<le> pos" and "pos + length bs \<le> a + len" and "a + len \<le> length m"
  shows "slice (patch m pos bs) a len = patch (slice m a len) (pos - a) bs"
proof (rule nth_equalityI)
  show "length (slice (patch m pos bs) a len) = length (patch (slice m a len) (pos - a) bs)"
    using assms by simp
next
  fix i
  assume "i < length (slice (patch m pos bs) a len)"
  then have "i < len"
    using assms by simp
  then show "slice (patch m pos bs) a len ! i = patch (slice m a len) (pos - a) bs ! i"
    using assms by (auto simp: nth_slice nth_patch add.commute [of i])
qed

lemma slice_slice: "b + k \<le> len \<Longrightarrow> slice (slice m a len) b k = slice m (a + b) k"
  by (simp add: slice_def take_drop add.commute min_def)

lemma slice_0 [simp]: "slice m pos 0 = []"
  by (simp add: slice_def)

lemma patch_Nil [simp]: "patch m pos [] = m"
  by (simp add: patch_def)

lemma take_patch:
  "pos + length bs \<le> length m \<Longrightarrow> n \<le> pos \<Longrightarrow> take n (patch m pos bs) = take n m"
  by (simp add: patch_def min_def)

section \<open>Little-endian integers\<close>

fun le_bytes :: "nat \<Rightarrow> nat \<Rightarrow> mem" where
  "le_bytes 0 n = []"
| "le_bytes (Suc k) n = char_of (n mod 256) # le_bytes k (n div 256)"

fun le_val :: "mem \<Rightarrow> nat" where
  "le_val [] = 0"
| "le_val (c # cs) = of_char c + 256 * le_val cs"

lemma of_char_less_256: "of_char c < (256 :: nat)"
proof -
  have "of_char c = of_char c mod (256 :: nat)"
    by simp
  also have "\<dots> < 256"
    by simp
  finally show ?thesis .
qed

lemma length_le_bytes [simp]: "length (le_bytes k n) = k"
  by (induction k arbitrary: n) auto

lemma le_val_le_bytes: "le_val (le_bytes k n) = n mod 256 ^ k"
proof (induction k arbitrary: n)
  case 0
  then show ?case by simp
next
  case (Suc k)
  have "n mod 256 ^ Suc k = 256 * (n div 256 mod 256 ^ k) + n mod 256"
    by (simp add: mod_mult2_eq)
  with Suc show ?case by simp
qed

lemma le_val_bound: "le_val bs < 256 ^ length bs"
proof (induction bs)
  case Nil
  then show ?case by simp
next
  case (Cons c cs)
  note c = of_char_less_256 [of c]
  have "Suc (le_val cs) \<le> 256 ^ length cs"
    using Cons.IH by simp
  then have "256 * Suc (le_val cs) \<le> 256 * 256 ^ length cs"
    by (rule mult_le_mono2)
  then have "of_char c + 256 * le_val cs < 256 * 256 ^ length cs"
    using c unfolding mult_Suc_right by (rule order.strict_trans2 [OF add_strict_right_mono, rotated])
  then show ?case by simp
qed

lemma le_bytes_le_val: "le_bytes (length bs) (le_val bs) = bs"
proof (induction bs)
  case Nil
  then show ?case by simp
next
  case (Cons c cs)
  then show ?case
    using of_char_less_256 [of c] by simp
qed

definition int32_bytes :: "int \<Rightarrow> mem" where
  "int32_bytes i = le_bytes 4 (nat (i mod 2 ^ 32))"

definition int32_val :: "mem \<Rightarrow> int" where
  "int32_val bs = (let n = int (le_val bs) in if n < 2 ^ 31 then n else n - 2 ^ 32)"

lemma length_int32_bytes [simp]: "length (int32_bytes i) = 4"
  by (simp add: int32_bytes_def)

lemma int32_roundtrip [simp]:
  assumes "- (2 ^ 31) \<le> i" and "i < 2 ^ 31"
  shows "int32_val (int32_bytes i) = i"
proof -
  have "int (le_val (int32_bytes i)) = i mod 2 ^ 32"
    by (simp add: int32_bytes_def le_val_le_bytes nat_mod_distrib)
  moreover have "i mod 2 ^ 32 = (if 0 \<le> i then i else i + 2 ^ 32)"
    using assms mod_pos_pos_trivial [of "i + 2 ^ 32" "2 ^ 32"] by auto
  ultimately show ?thesis
    using assms by (simp add: int32_val_def Let_def)
qed

lemma int32_val_bounds:
  "length bs = 4 \<Longrightarrow> - (2 ^ 31) \<le> int32_val bs \<and> int32_val bs < 2 ^ 31"
  using le_val_bound [of bs] by (simp add: int32_val_def Let_def)

section \<open>C strings\<close>

definition cstr :: "mem \<Rightarrow> string" where
  "cstr bs = takeWhile (\<lambda>c. c \<noteq> NUL) bs"

definition is_cstring :: "string \<Rightarrow> bool" where
  "is_cstring s \<longleftrightarrow> NUL \<notin> set s"

text \<open>The string that starts at a position; a fault when no terminator follows in the region.\<close>

definition cstr_at :: "mem \<Rightarrow> nat \<Rightarrow> string res" where
  "cstr_at m pos = (if NUL \<in> set (drop pos m) then Inr (cstr (drop pos m)) else Inl OutOfBounds)"

definition strcpy_into :: "mem \<Rightarrow> nat \<Rightarrow> mem \<Rightarrow> mem res" where
  "strcpy_into dst pos src = bindR (cstr_at src 0) (\<lambda>str. mem_write dst pos (str @ [NUL]))"

fun strcmp_eq :: "mem \<Rightarrow> mem \<Rightarrow> bool res" where
  "strcmp_eq (x # xs) (y # ys) =
     (if x \<noteq> y then Inr False else if x = NUL then Inr True else strcmp_eq xs ys)"
| "strcmp_eq _ _ = Inl OutOfBounds"

fun strncmp_eq :: "nat \<Rightarrow> mem \<Rightarrow> mem \<Rightarrow> bool res" where
  "strncmp_eq 0 xs ys = Inr True"
| "strncmp_eq (Suc n) (x # xs) (y # ys) =
     (if x \<noteq> y then Inr False else if x = NUL then Inr True else strncmp_eq n xs ys)"
| "strncmp_eq (Suc n) _ _ = Inl OutOfBounds"

definition strncpy :: "string \<Rightarrow> nat \<Rightarrow> mem" where
  "strncpy src n = take n src @ replicate (n - length src) NUL"

lemma is_cstring_cstr [simp]: "is_cstring (cstr bs)"
  by (auto simp: is_cstring_def cstr_def dest: set_takeWhileD)

lemma cstr_append_NUL [simp]: "is_cstring s \<Longrightarrow> cstr (s @ NUL # rest) = s"
  by (induction s) (auto simp: is_cstring_def cstr_def)

lemma cstr_le: "length (cstr bs) \<le> length bs"
  by (simp add: cstr_def length_takeWhile_le)

lemma cstr_replicate [simp]: "cstr (replicate n NUL) = []"
  by (cases n) (auto simp: cstr_def)

text \<open>
  Comparing a field that is at least as long as the terminated string decides equality of the
  strings, whether or not the field itself is terminated.
\<close>

lemma strcmp_eq_field:
  assumes "is_cstring s" and "length s < length fld"
  shows "strcmp_eq (fld @ rest) (s @ [NUL]) = Inr (cstr fld = s)"
  using assms
proof (induction s arbitrary: fld)
  case Nil
  then obtain x xs where "fld = x # xs" by (cases fld) auto
  then show ?case by (simp add: cstr_def)
next
  case (Cons c s)
  then obtain x xs where fld: "fld = x # xs" by (cases fld) auto
  from Cons.prems have "c \<noteq> NUL" and "is_cstring s" and "length s < length xs"
    by (auto simp: is_cstring_def fld)
  with Cons.IH [of xs] show ?case
    by (simp add: fld cstr_def)
qed

lemma strncmp_eq_field:
  assumes "is_cstring s" and "length s < length fld" and "length s < n"
  shows "strncmp_eq n (fld @ rest) (s @ [NUL]) = Inr (cstr fld = s)"
  using assms
proof (induction s arbitrary: fld n)
  case Nil
  then obtain x xs m where "fld = x # xs" and "n = Suc m" by (cases fld; cases n) auto
  then show ?case by (simp add: cstr_def)
next
  case (Cons c s)
  then obtain x xs m where fld: "fld = x # xs" and n: "n = Suc m"
    by (cases fld; cases n) auto
  from Cons.prems have "c \<noteq> NUL" and "is_cstring s" and "length s < length xs" and "length s < m"
    by (auto simp: is_cstring_def fld n)
  with Cons.IH [of xs m] show ?case
    by (simp add: fld n cstr_def)
qed

lemma length_strncpy [simp]: "length (strncpy s n) = n"
  by (simp add: strncpy_def)

lemma cstr_strncpy: "is_cstring s \<Longrightarrow> length s \<le> n \<Longrightarrow> cstr (strncpy s n @ [NUL]) = s"
  using cstr_append_NUL [of s "replicate (n - length s - 1) NUL @ [NUL]"]
  by (cases "n - length s") (auto simp: strncpy_def)

lemma drop_slice: "pos + len \<le> length m \<Longrightarrow> drop pos m = slice m pos len @ drop (pos + len) m"
  by (simp add: slice_def add.commute flip: drop_drop)

lemma cstr_at_slice:
  assumes "pos + len \<le> length m" and "NUL \<in> set (slice m pos len)"
  shows "cstr_at m pos = Inr (cstr (slice m pos len))"
proof -
  have "drop pos m = slice m pos len @ drop (pos + len) m"
    using assms(1) by (rule drop_slice)
  with assms(2) show ?thesis
    by (simp add: cstr_at_def cstr_def takeWhile_append1)
qed

end
