(* ===== verification/Locks.thy ===== *)
theory Locks
  imports Prelude
begin

text \<open>
  The locks of the program and the discipline in which they are taken.

  Every wrapper of \<^verbatim>\<open>utils/better-locks.c\<close> that takes or releases a lock is a lock event, and the
  state of the file system records the events in order (\<open>lock_trace\<close> in theory \<open>FS_State\<close>).
  \<open>run_locks\<close> replays a trace from a list of held locks: it refuses to release a lock that is not
  held, to acquire a lock unless every held lock is of a smaller class, and to take a mutex for reading. The classes are the
  lock hierarchy of the program, smallest (outermost) first; \<open>lock_class\<close> is made an instance of
  the class \<open>linorder\<close> by that order.

  \<open>bracketed C t\<close> says that a piece \<open>t\<close> of a trace, started with locks of classes below \<open>C\<close> only,
  respects the hierarchy and gives back everything it took. Threads that only run such pieces
  cannot deadlock (theory \<open>Better_Locks\<close>).
\<close>

section \<open>Lock classes and their order\<close>

datatype lock_class =
    Free_boxes_lock
  | Box_mutex
  | Link_lock
  | Open_mutex
  | Free_open_file_entries_mutex
  | Open_file_mutex
  | Freeinode_ts_lock
  | Inode_lock
  | Dir_lock
  | Free_blocks_mutex

fun lock_rank :: "lock_class \<Rightarrow> nat" where
  "lock_rank Free_boxes_lock = 0"
| "lock_rank Box_mutex = 1"
| "lock_rank Link_lock = 2"
| "lock_rank Open_mutex = 3"
| "lock_rank Free_open_file_entries_mutex = 4"
| "lock_rank Open_file_mutex = 5"
| "lock_rank Freeinode_ts_lock = 6"
| "lock_rank Inode_lock = 7"
| "lock_rank Dir_lock = 8"
| "lock_rank Free_blocks_mutex = 9"

lemma lock_rank_less: "lock_rank a < 10"
  by (cases a) simp_all

lemma lock_rank_inj: "lock_rank a = lock_rank b \<Longrightarrow> a = b"
  by (cases a; cases b) simp_all

instantiation lock_class :: linorder
begin

definition less_eq_lock_class :: "lock_class \<Rightarrow> lock_class \<Rightarrow> bool" where
  "less_eq_lock_class a b \<longleftrightarrow> lock_rank a \<le> lock_rank b"

definition less_lock_class :: "lock_class \<Rightarrow> lock_class \<Rightarrow> bool" where
  "less_lock_class a b \<longleftrightarrow> lock_rank a < lock_rank b"

instance
  by standard (auto simp: less_eq_lock_class_def less_lock_class_def dest: lock_rank_inj)

end

text \<open>Which of them are read-write locks; the others are mutexes, which cannot be taken for reading.\<close>

fun is_rwlock :: "lock_class \<Rightarrow> bool" where
  "is_rwlock Box_mutex = False"
| "is_rwlock Open_mutex = False"
| "is_rwlock Free_open_file_entries_mutex = False"
| "is_rwlock Open_file_mutex = False"
| "is_rwlock Free_blocks_mutex = False"
| "is_rwlock _ = True"

text \<open>A lock is its class and, for the arrays of locks, its index.\<close>

type_synonym lock_id = "lock_class \<times> nat"

datatype lock_event =
    Acquire_rd lock_id
  | Acquire_wr lock_id
  | Release lock_id

section \<open>Replaying a trace\<close>

definition may_acquire :: "lock_id list \<Rightarrow> lock_id \<Rightarrow> bool" where
  "may_acquire held l \<longleftrightarrow> (\<forall>h \<in> set held. fst h < fst l)"

fun run_locks :: "lock_id list \<Rightarrow> lock_event list \<Rightarrow> lock_id list option" where
  "run_locks held [] = Some held"
| "run_locks held (Acquire_rd l # es) =
     (if may_acquire held l \<and> is_rwlock (fst l) then run_locks (l # held) es else None)"
| "run_locks held (Acquire_wr l # es) =
     (if may_acquire held l then run_locks (l # held) es else None)"
| "run_locks held (Release l # es) =
     (if l \<in> set held then run_locks (remove1 l held) es else None)"

lemma run_locks_append:
  "run_locks held (xs @ ys) =
     (case run_locks held xs of None \<Rightarrow> None | Some h \<Rightarrow> run_locks h ys)"
  by (induction held xs rule: run_locks.induct) auto

text \<open>A trace piece that may run below class \<open>C\<close> and leaves the held locks as it found them.\<close>

definition bracketed :: "lock_class \<Rightarrow> lock_event list \<Rightarrow> bool" where
  "bracketed C t \<longleftrightarrow> (\<forall>held. (\<forall>h \<in> set held. fst h < C) \<longrightarrow> run_locks held t = Some held)"

lemma bracketed_Nil [simp, intro]: "bracketed C []"
  by (simp add: bracketed_def)

lemma bracketed_append [intro]: "bracketed C xs \<Longrightarrow> bracketed C ys \<Longrightarrow> bracketed C (xs @ ys)"
  by (simp add: bracketed_def run_locks_append)

lemma bracketed_mono: "bracketed C t \<Longrightarrow> D \<le> C \<Longrightarrow> bracketed D t"
  by (meson bracketed_def order.strict_trans2)

lemma bracketed_wrap:
  assumes t: "bracketed D t" and less: "fst l < D" and a: "a = Acquire_rd l \<and> is_rwlock (fst l) \<or> a = Acquire_wr l"
  shows "bracketed (fst l) (a # t @ [Release l])"
  unfolding bracketed_def
proof (intro allI impI)
  fix held :: "lock_id list"
  assume h: "\<forall>h \<in> set held. fst h < fst l"
  then have "\<forall>h \<in> set (l # held). fst h < D"
    using less by (auto intro: less_trans)
  then have "run_locks (l # held) t = Some (l # held)"
    using t unfolding bracketed_def by blast
  moreover have "may_acquire held l"
    using h by (simp add: may_acquire_def)
  ultimately show "run_locks held (a # t @ [Release l]) = Some held"
    using a by (auto simp: run_locks_append)
qed

text \<open>A computable test for a trace piece.\<close>

fun brackets :: "lock_class \<Rightarrow> lock_id list \<Rightarrow> lock_event list \<Rightarrow> bool" where
  "brackets C held [] \<longleftrightarrow> held = []"
| "brackets C held (Acquire_rd l # es) \<longleftrightarrow>
     is_rwlock (fst l) \<and> C \<le> fst l \<and> may_acquire held l \<and> brackets C (l # held) es"
| "brackets C held (Acquire_wr l # es) \<longleftrightarrow>
     C \<le> fst l \<and> may_acquire held l \<and> brackets C (l # held) es"
| "brackets C held (Release l # es) \<longleftrightarrow> l \<in> set held \<and> brackets C (remove1 l held) es"

lemma brackets_run:
  assumes "brackets C own t" and "\<forall>h \<in> set held. fst h < C"
  shows "run_locks (own @ held) t = Some held"
  using assms
proof (induction C own t rule: brackets.induct)
  case (2 C own l es)
  then have "may_acquire (own @ held) l"
    by (auto simp: may_acquire_def)
  with 2 show ?case by simp
next
  case (3 C own l es)
  then have "may_acquire (own @ held) l"
    by (auto simp: may_acquire_def)
  with 3 show ?case by simp
qed (auto simp: remove1_append)

lemma bracketedI: "brackets C [] t \<Longrightarrow> bracketed C t"
  using brackets_run [of C "[]" t] by (simp add: bracketed_def)

lemmas bracket_simps = bracketedI may_acquire_def less_lock_class_def less_eq_lock_class_def

end
