(* ===== verification/FS_State.thy ===== *)
theory FS_State
  imports CMemory Locks
begin

text \<open>
  The persistent and volatile state of TecnicoFS and the operations on it: the data structures of
  \<^verbatim>\<open>fs/state.h\<close>, \<^verbatim>\<open>fs/operations.h\<close> and \<^verbatim>\<open>fs/config.h\<close>, and every function of \<^verbatim>\<open>fs/state.c\<close>.

  The file-scope variables of \<^verbatim>\<open>state.c\<close> are the fields of the record \<open>fs_state\<close>. A table obtained
  from \<^verbatim>\<open>malloc\<close> is a list, empty while the pointer is \<^verbatim>\<open>NULL\<close>; \<open>inode_table_set\<close> is the test
  \<^verbatim>\<open>inode_table != NULL\<close>. The block region \<open>fs_data\<close> is one flat byte array, as in the code: a
  directory block is an array of 44-byte \<^verbatim>\<open>dir_entry_t\<close> structures (a name of 40 bytes and a
  little-endian \<^verbatim>\<open>int\<close>) laid over the bytes of the block. A pointer to an inode is the inumber, a
  pointer to an open file entry its index, a pointer into \<open>fs_data\<close> a byte position.

  Each function runs as in one thread: taking or releasing a lock appends an event to
  \<open>lock_trace\<close>. The arrays of locks have the length of the table they protect; their own
  lengths matter in \<open>state_init\<close> and \<open>state_destroy\<close> only. The artificial delays
  (\<^verbatim>\<open>insert_delay\<close>) have no effect on the state and are left out.
\<close>

section \<open>Data\<close>

definition ROOT_DIR_INUM :: int where "ROOT_DIR_INUM = 0"

definition MAX_FILE_NAME :: nat where "MAX_FILE_NAME = 40"

record tfs_params =
  max_inode_count :: nat
  max_block_count :: nat
  max_open_files_count :: nat
  block_size :: nat

datatype inode_type = T_FILE | T_DIRECTORY | T_SYM_LINK

record inode_t =
  i_node_type :: inode_type
  i_size :: nat
  i_data_block :: int
  i_hard_links :: nat

text \<open>\<^verbatim>\<open>dir_entry_t\<close>: its size and the offset of \<^verbatim>\<open>d_inumber\<close> in it.\<close>

definition sizeof_dir_entry :: nat where "sizeof_dir_entry = 44"

definition d_inumber_offset :: nat where "d_inumber_offset = 40"

datatype allocation_state_t = FREE | TAKEN

record open_file_entry_t =
  of_inumber :: int
  of_offset :: nat

record fs_state =
  fs_params :: tfs_params
  inode_table_set :: bool
  inode_table :: "inode_t list"
  inode_locks :: nat
  freeinode_ts :: "allocation_state_t list"
  fs_data :: mem
  dir_locks :: nat
  free_blocks :: "allocation_state_t list"
  open_file_table :: "open_file_entry_t list"
  free_open_file_entries :: "allocation_state_t list"
  lock_trace :: "lock_event list"

definition INODE_TABLE_SIZE :: "fs_state \<Rightarrow> nat" where
  "INODE_TABLE_SIZE s = max_inode_count (fs_params s)"

definition DATA_BLOCKS :: "fs_state \<Rightarrow> nat" where
  "DATA_BLOCKS s = max_block_count (fs_params s)"

definition MAX_OPEN_FILES :: "fs_state \<Rightarrow> nat" where
  "MAX_OPEN_FILES s = max_open_files_count (fs_params s)"

definition BLOCK_SIZE :: "fs_state \<Rightarrow> nat" where
  "BLOCK_SIZE s = block_size (fs_params s)"

definition MAX_DIR_ENTRIES :: "fs_state \<Rightarrow> nat" where
  "MAX_DIR_ENTRIES s = BLOCK_SIZE s div sizeof_dir_entry"

definition valid_inumber :: "fs_state \<Rightarrow> int \<Rightarrow> bool" where
  "valid_inumber s inumber \<longleftrightarrow> 0 \<le> inumber \<and> nat inumber < INODE_TABLE_SIZE s"

definition valid_block_number :: "fs_state \<Rightarrow> int \<Rightarrow> bool" where
  "valid_block_number s block_number \<longleftrightarrow> 0 \<le> block_number \<and> nat block_number < DATA_BLOCKS s"

definition valid_file_handle :: "fs_state \<Rightarrow> int \<Rightarrow> bool" where
  "valid_file_handle s file_handle \<longleftrightarrow> 0 \<le> file_handle \<and> nat file_handle < MAX_OPEN_FILES s"

definition valid_file_content :: "fs_state \<Rightarrow> int \<Rightarrow> bool res" where
  "valid_file_content s inumber =
     (if valid_inumber s inumber
      then bindR (arr_get (freeinode_ts s) (nat inumber)) (\<lambda>st. Inr (st = TAKEN))
      else Inr False)"

section \<open>Lock wrappers\<close>

definition log_lock :: "lock_event \<Rightarrow> fs_state \<Rightarrow> fs_state" where
  "log_lock e s = s\<lparr>lock_trace := lock_trace s @ [e]\<rparr>"

definition rwlock_rdlock :: "lock_id \<Rightarrow> fs_state \<Rightarrow> fs_state" where
  "rwlock_rdlock l s = log_lock (Acquire_rd l) s"

definition rwlock_wrlock :: "lock_id \<Rightarrow> fs_state \<Rightarrow> fs_state" where
  "rwlock_wrlock l s = log_lock (Acquire_wr l) s"

definition rwlock_unlock :: "lock_id \<Rightarrow> fs_state \<Rightarrow> fs_state" where
  "rwlock_unlock l s = log_lock (Release l) s"

definition mutex_lock :: "lock_id \<Rightarrow> fs_state \<Rightarrow> fs_state" where
  "mutex_lock l s = log_lock (Acquire_wr l) s"

definition mutex_unlock :: "lock_id \<Rightarrow> fs_state \<Rightarrow> fs_state" where
  "mutex_unlock l s = log_lock (Release l) s"

abbreviation freeinode_ts_lock :: lock_id where
  "freeinode_ts_lock \<equiv> (Freeinode_ts_lock, 0)"

abbreviation free_blocks_mutex :: lock_id where
  "free_blocks_mutex \<equiv> (Free_blocks_mutex, 0)"

abbreviation free_open_file_entries_mutex :: lock_id where
  "free_open_file_entries_mutex \<equiv> (Free_open_file_entries_mutex, 0)"

abbreviation inode_lock :: "int \<Rightarrow> lock_id" where
  "inode_lock i \<equiv> (Inode_lock, nat i)"

abbreviation dir_lock :: "int \<Rightarrow> lock_id" where
  "dir_lock b \<equiv> (Dir_lock, nat b)"

abbreviation file_mutex :: "nat \<Rightarrow> lock_id" where
  "file_mutex f \<equiv> (Open_file_mutex, f)"

section \<open>Initialisation and destruction\<close>

text \<open>
  What \<^verbatim>\<open>malloc\<close> does is outside the program: whether the \<open>k\<close>-th allocation of \<open>state_init\<close> succeeds,
  and the indeterminate contents of what it returns.
\<close>

record malloc_env =
  malloc_ok :: "nat \<Rightarrow> bool"
  garbage_inodes :: "nat \<Rightarrow> inode_t"
  garbage_states :: "nat \<Rightarrow> allocation_state_t"
  garbage_bytes :: "nat \<Rightarrow> char"
  garbage_entries :: "nat \<Rightarrow> open_file_entry_t"

definition malloc_array :: "bool \<Rightarrow> (nat \<Rightarrow> 'a) \<Rightarrow> nat \<Rightarrow> 'a list" where
  "malloc_array ok contents n = (if ok then map contents [0..<n] else [])"

definition state_init :: "malloc_env \<Rightarrow> tfs_params \<Rightarrow> fs_state \<Rightarrow> int \<times> fs_state" where
  "state_init env params s =
     (let s = s\<lparr>fs_params := params\<rparr> in
      if inode_table_set s then (-1, s)
      else
        let n = INODE_TABLE_SIZE s; b = DATA_BLOCKS s; f = MAX_OPEN_FILES s; ok = malloc_ok env;
            s = s\<lparr>inode_table_set := ok 0,
                  inode_table := malloc_array (ok 0) (garbage_inodes env) n,
                  inode_locks := (if ok 1 then n else 0),
                  freeinode_ts := malloc_array (ok 2) (garbage_states env) n,
                  fs_data := malloc_array (ok 3) (garbage_bytes env) (b * BLOCK_SIZE s),
                  dir_locks := (if ok 4 then b else 0),
                  free_blocks := malloc_array (ok 5) (garbage_states env) b,
                  open_file_table := malloc_array (ok 6) (garbage_entries env) f,
                  free_open_file_entries := malloc_array (ok 7) (garbage_states env) f\<rparr> in
        if \<not> (ok 0 \<and> ok 1 \<and> ok 2 \<and> ok 3 \<and> ok 4 \<and> ok 5 \<and> ok 6 \<and> ok 7) then (-1, s)
        else
          (0, s\<lparr>freeinode_ts := replicate n FREE,
                free_blocks := replicate b FREE,
                free_open_file_entries := replicate f FREE\<rparr>))"

text \<open>The tables are freed; the loops destroy as many locks as the parameters say.\<close>

definition state_destroy :: "fs_state \<Rightarrow> (int \<times> fs_state) res" where
  "state_destroy s =
     (if \<not> inode_table_set s then Inr (-1, s)
      else if inode_locks s < INODE_TABLE_SIZE s \<or> dir_locks s < DATA_BLOCKS s \<or>
              length (open_file_table s) < MAX_OPEN_FILES s then Inl OutOfBounds
      else Inr (0, s\<lparr>inode_table_set := False, inode_table := [], inode_locks := 0,
                     freeinode_ts := [], fs_data := [], dir_locks := 0, free_blocks := [],
                     open_file_table := [], free_open_file_entries := []\<rparr>))"

definition state_block_size :: "fs_state \<Rightarrow> nat" where
  "state_block_size s = BLOCK_SIZE s"

definition inode_table_size :: "fs_state \<Rightarrow> nat" where
  "inode_table_size s = INODE_TABLE_SIZE s"

section \<open>Data blocks\<close>

text \<open>
  The test for the simulated delay in the allocation loops computes a remainder modulo
  \<^verbatim>\<open>BLOCK_SIZE\<close> before anything else, so a block size of zero traps in the first iteration.
\<close>

definition data_block_alloc :: "fs_state \<Rightarrow> (int \<times> fs_state) res" where
  "data_block_alloc s =
     (let s = mutex_lock free_blocks_mutex s in
      if 0 < DATA_BLOCKS s \<and> BLOCK_SIZE s = 0 then Inl DivisionByZero
      else bindR (scan (\<lambda>st. st = FREE) (free_blocks s) (DATA_BLOCKS s)) (\<lambda>r.
        case r of
          Some i \<Rightarrow>
            let s = s\<lparr>free_blocks := (free_blocks s)[i := TAKEN]\<rparr>;
                s = mutex_unlock free_blocks_mutex s
            in Inr (int_of_size i, s)
        | None \<Rightarrow> Inr (-1, mutex_unlock free_blocks_mutex s)))"

definition data_block_free :: "int \<Rightarrow> fs_state \<Rightarrow> fs_state res" where
  "data_block_free block_number s =
     ALWAYS_ASSERT (valid_block_number s block_number) ''data_block_free: invalid block number''
       (let s = mutex_lock free_blocks_mutex s in
        bindR (arr_set (free_blocks s) (nat block_number) FREE) (\<lambda>fb.
        Inr (mutex_unlock free_blocks_mutex (s\<lparr>free_blocks := fb\<rparr>))))"

definition data_block_get :: "int \<Rightarrow> fs_state \<Rightarrow> nat res" where
  "data_block_get block_number s =
     ALWAYS_ASSERT (valid_block_number s block_number) ''data_block_get: invalid block number''
       (Inr (nat block_number * BLOCK_SIZE s))"

section \<open>Inodes\<close>

text \<open>Dereferencing a pointer into the inode table, and assigning to fields through it.\<close>

definition inode_at :: "int \<Rightarrow> fs_state \<Rightarrow> inode_t res" where
  "inode_at i s = (if 0 \<le> i then arr_get (inode_table s) (nat i) else Inl OutOfBounds)"

definition inode_update :: "int \<Rightarrow> (inode_t \<Rightarrow> inode_t) \<Rightarrow> fs_state \<Rightarrow> fs_state res" where
  "inode_update i f s =
     bindR (inode_at i s) (\<lambda>n. Inr (s\<lparr>inode_table := (inode_table s)[nat i := f n]\<rparr>))"

definition inode_alloc :: "fs_state \<Rightarrow> (int \<times> fs_state) res" where
  "inode_alloc s =
     (let s = rwlock_wrlock freeinode_ts_lock s in
      if 0 < INODE_TABLE_SIZE s \<and> BLOCK_SIZE s = 0 then Inl DivisionByZero
      else bindR (scan (\<lambda>st. st = FREE) (freeinode_ts s) (INODE_TABLE_SIZE s)) (\<lambda>r.
        case r of
          Some inumber \<Rightarrow>
            let s = s\<lparr>freeinode_ts := (freeinode_ts s)[inumber := TAKEN]\<rparr>;
                s = rwlock_unlock freeinode_ts_lock s
            in Inr (int_of_size inumber, s)
        | None \<Rightarrow> Inr (-1, rwlock_unlock freeinode_ts_lock s)))"

definition inode_delete :: "int \<Rightarrow> fs_state \<Rightarrow> fs_state res" where
  "inode_delete inumber s =
     ALWAYS_ASSERT (valid_inumber s inumber) ''inode_delete: invalid inumber''
       (let s = rwlock_wrlock freeinode_ts_lock s in
        bindR (arr_get (freeinode_ts s) (nat inumber)) (\<lambda>st.
        ALWAYS_ASSERT (st = TAKEN) ''inode_delete: inode already freed''
          (let s = rwlock_wrlock (inode_lock inumber) s in
           bindR (inode_at inumber s) (\<lambda>inode.
           bindR (if 0 < i_size inode then data_block_free (i_data_block inode) s else Inr s) (\<lambda>s.
           bindR (inode_update inumber
                    (\<lambda>n. n\<lparr>i_size := 0, i_data_block := -1, i_hard_links := 1\<rparr>) s) (\<lambda>s.
           bindR (arr_set (freeinode_ts s) (nat inumber) FREE) (\<lambda>fi.
           let s = s\<lparr>freeinode_ts := fi\<rparr>;
               s = rwlock_unlock (inode_lock inumber) s;
               s = rwlock_unlock freeinode_ts_lock s
           in Inr s)))))))"

definition inode_get :: "int \<Rightarrow> fs_state \<Rightarrow> int res" where
  "inode_get inumber s =
     ALWAYS_ASSERT (valid_inumber s inumber) ''inode_get: invalid inumber'' (Inr inumber)"

text \<open>The loop of \<open>inode_create\<close> that labels the entries \<open>0, \<dots>, n - 1\<close> of a directory as empty.\<close>

fun label_entries_empty :: "nat \<Rightarrow> nat \<Rightarrow> mem \<Rightarrow> mem res" where
  "label_entries_empty base 0 m = Inr m"
| "label_entries_empty base (Suc n) m =
     bindR (label_entries_empty base n m) (\<lambda>m.
       mem_write m (base + sizeof_dir_entry * n + d_inumber_offset) (int32_bytes (-1)))"

definition inode_create :: "inode_type \<Rightarrow> fs_state \<Rightarrow> (int \<times> fs_state) res" where
  "inode_create i_type s =
     bindR (inode_alloc s) (\<lambda>(inumber, s).
     if inumber = -1 then Inr (-1, s)
     else
       bindR (inode_update inumber (\<lambda>n. n\<lparr>i_node_type := i_type\<rparr>) s) (\<lambda>s.
       case i_type of
         T_DIRECTORY \<Rightarrow>
           bindR (data_block_alloc s) (\<lambda>(b, s).
           if b = -1 then
             bindR (inode_update inumber (\<lambda>n. n\<lparr>i_size := 0, i_data_block := -1\<rparr>) s) (\<lambda>s.
             bindR (inode_delete inumber s) (\<lambda>s. Inr (-1, s)))
           else
             bindR (inode_update inumber
                      (\<lambda>n. n\<lparr>i_size := BLOCK_SIZE s, i_data_block := b\<rparr>) s) (\<lambda>s.
             bindR (data_block_get b s) (\<lambda>base.
             bindR (label_entries_empty base (MAX_DIR_ENTRIES s) (fs_data s)) (\<lambda>m.
             let s = s\<lparr>fs_data := m\<rparr> in
             bindR (inode_update inumber (\<lambda>n. n\<lparr>i_hard_links := 1\<rparr>) s) (\<lambda>s.
             Inr (inumber, s))))))
       | _ \<Rightarrow>
           bindR (inode_update inumber (\<lambda>n. n\<lparr>i_size := 0, i_data_block := -1\<rparr>) s) (\<lambda>s.
           bindR (inode_update inumber (\<lambda>n. n\<lparr>i_hard_links := 1\<rparr>) s) (\<lambda>s.
           Inr (inumber, s)))))"

section \<open>Directory entries\<close>

text \<open>Fields of the \<open>i\<close>-th entry of the directory whose block starts at \<open>base\<close>.\<close>

definition entry_pos :: "nat \<Rightarrow> nat \<Rightarrow> nat" where
  "entry_pos base i = base + sizeof_dir_entry * i"

definition d_inumber_at :: "mem \<Rightarrow> nat \<Rightarrow> nat \<Rightarrow> int res" where
  "d_inumber_at m base i =
     bindR (mem_read m (entry_pos base i + d_inumber_offset) 4) (\<lambda>bs. Inr (int32_val bs))"

definition d_name_strcmp_eq :: "mem \<Rightarrow> nat \<Rightarrow> nat \<Rightarrow> string \<Rightarrow> bool res" where
  "d_name_strcmp_eq m base i sub_name = strcmp_eq (drop (entry_pos base i) m) (sub_name @ [NUL])"

definition d_name_strncmp_eq :: "mem \<Rightarrow> nat \<Rightarrow> nat \<Rightarrow> string \<Rightarrow> nat \<Rightarrow> bool res" where
  "d_name_strncmp_eq m base i sub_name n =
     strncmp_eq n (drop (entry_pos base i) m) (sub_name @ [NUL])"

definition invalid_sub_name :: "string \<Rightarrow> bool" where
  "invalid_sub_name sub_name \<longleftrightarrow> length sub_name = 0 \<or> length sub_name > MAX_FILE_NAME - 1"

definition add_dir_entry :: "int \<Rightarrow> string \<Rightarrow> int \<Rightarrow> fs_state \<Rightarrow> (int \<times> fs_state) res" where
  "add_dir_entry p sub_name sub_inumber s =
     (if invalid_sub_name sub_name \<or> \<not> valid_inumber s sub_inumber then Inr (-1, s)
      else
        bindR (inode_at p s) (\<lambda>inode.
        if i_node_type inode \<noteq> T_DIRECTORY then Inr (-1, s)
        else
          bindR (data_block_get (i_data_block inode) s) (\<lambda>base.
          let l = dir_lock (i_data_block inode); s = rwlock_wrlock l s in
          bindR (for_find (\<lambda>i.
                   bindR (d_inumber_at (fs_data s) base i) (\<lambda>n.
                   if n \<noteq> -1 then d_name_strcmp_eq (fs_data s) base i sub_name else Inr False))
                 0 (MAX_DIR_ENTRIES s)) (\<lambda>dup.
          case dup of
            Some _ \<Rightarrow> Inr (-1, rwlock_unlock l s)
          | None \<Rightarrow>
              bindR (for_find (\<lambda>i. bindR (d_inumber_at (fs_data s) base i) (\<lambda>n. Inr (n = -1)))
                     0 (MAX_DIR_ENTRIES s)) (\<lambda>r.
              case r of
                Some i \<Rightarrow>
                  bindR (mem_write (fs_data s) (entry_pos base i + d_inumber_offset)
                           (int32_bytes sub_inumber)) (\<lambda>m.
                  bindR (mem_write m (entry_pos base i)
                           (strncpy sub_name (MAX_FILE_NAME - 1))) (\<lambda>m.
                  bindR (mem_write m (entry_pos base i + (MAX_FILE_NAME - 1)) [NUL]) (\<lambda>m.
                  Inr (0, rwlock_unlock l (s\<lparr>fs_data := m\<rparr>)))))
              | None \<Rightarrow> Inr (-1, rwlock_unlock l s))))))"

definition clear_dir_entry :: "int \<Rightarrow> string \<Rightarrow> fs_state \<Rightarrow> (int \<times> fs_state) res" where
  "clear_dir_entry p sub_name s =
     (if invalid_sub_name sub_name then Inr (-1, s)
      else
        bindR (inode_at p s) (\<lambda>inode.
        if i_node_type inode \<noteq> T_DIRECTORY then Inr (-1, s)
        else
          bindR (data_block_get (i_data_block inode) s) (\<lambda>base.
          let l = dir_lock (i_data_block inode); s = rwlock_wrlock l s in
          bindR (for_find (\<lambda>i. d_name_strcmp_eq (fs_data s) base i sub_name)
                 0 (MAX_DIR_ENTRIES s)) (\<lambda>r.
          case r of
            Some i \<Rightarrow>
              bindR (mem_write (fs_data s) (entry_pos base i + d_inumber_offset)
                       (int32_bytes (-1))) (\<lambda>m.
              bindR (mem_write m (entry_pos base i) (replicate MAX_FILE_NAME NUL)) (\<lambda>m.
              Inr (0, rwlock_unlock l (s\<lparr>fs_data := m\<rparr>))))
          | None \<Rightarrow> Inr (-1, rwlock_unlock l s)))))"

definition find_in_dir :: "int \<Rightarrow> string \<Rightarrow> fs_state \<Rightarrow> (int \<times> fs_state) res" where
  "find_in_dir p sub_name s =
     (if invalid_sub_name sub_name then Inr (-1, s)
      else
        bindR (inode_at p s) (\<lambda>inode.
        if i_node_type inode \<noteq> T_DIRECTORY then Inr (-1, s)
        else
          bindR (data_block_get (i_data_block inode) s) (\<lambda>base.
          let l = dir_lock (i_data_block inode); s = rwlock_rdlock l s in
          bindR (for_find (\<lambda>i.
                   bindR (d_inumber_at (fs_data s) base i) (\<lambda>n.
                   if n \<noteq> -1
                   then d_name_strncmp_eq (fs_data s) base i sub_name MAX_FILE_NAME
                   else Inr False))
                 0 (MAX_DIR_ENTRIES s)) (\<lambda>r.
          case r of
            Some i \<Rightarrow>
              bindR (d_inumber_at (fs_data s) base i) (\<lambda>sub_inumber.
              Inr (sub_inumber, rwlock_unlock l s))
          | None \<Rightarrow> Inr (-1, rwlock_unlock l s)))))"

section \<open>Open file table\<close>

definition is_file_open :: "int \<Rightarrow> fs_state \<Rightarrow> bool res" where
  "is_file_open inumber s =
     (if \<not> valid_inumber s inumber then Inr False
      else bindR (for_find (\<lambda>i.
             bindR (arr_get (free_open_file_entries s) i) (\<lambda>st.
             if st = TAKEN
             then bindR (arr_get (open_file_table s) i) (\<lambda>e. Inr (of_inumber e = inumber))
             else Inr False))
           0 (MAX_OPEN_FILES s)) (\<lambda>r. Inr (r \<noteq> None)))"

text \<open>\<open>None\<close> is the \<^verbatim>\<open>NULL\<close> pointer, \<open>Some f\<close> a pointer to entry \<open>f\<close>.\<close>

definition get_open_file_entry :: "int \<Rightarrow> fs_state \<Rightarrow> nat option res" where
  "get_open_file_entry fhandle s =
     (if \<not> valid_file_handle s fhandle then Inr None
      else bindR (arr_get (free_open_file_entries s) (nat fhandle)) (\<lambda>st.
           Inr (if st \<noteq> TAKEN then None else Some (nat fhandle))))"

definition add_to_open_file_table :: "int \<Rightarrow> nat \<Rightarrow> fs_state \<Rightarrow> (int \<times> fs_state) res" where
  "add_to_open_file_table inumber offset s =
     (if \<not> valid_inumber s inumber then Inr (-1, s)
      else
        bindR (arr_get (freeinode_ts s) (nat inumber)) (\<lambda>st.
        if st \<noteq> TAKEN then Inr (-1, s)
        else
          let s = mutex_lock free_open_file_entries_mutex s in
          bindR (scan (\<lambda>st. st = FREE) (free_open_file_entries s) (MAX_OPEN_FILES s)) (\<lambda>r.
          case r of
            Some i \<Rightarrow>
              let s = s\<lparr>free_open_file_entries := (free_open_file_entries s)[i := TAKEN]\<rparr>;
                  s = mutex_lock (file_mutex i) s in
              bindR (arr_set (open_file_table s) i \<lparr>of_inumber = inumber, of_offset = offset\<rparr>) (\<lambda>t.
              let s = mutex_unlock (file_mutex i) (s\<lparr>open_file_table := t\<rparr>);
                  s = mutex_unlock free_open_file_entries_mutex s
              in Inr (int i, s))
          | None \<Rightarrow> Inr (-1, mutex_unlock free_open_file_entries_mutex s))))"

definition remove_from_open_file_table :: "int \<Rightarrow> fs_state \<Rightarrow> (int \<times> fs_state) res" where
  "remove_from_open_file_table fhandle s =
     bindR (get_open_file_entry fhandle s) (\<lambda>e.
     case e of
       None \<Rightarrow> Inr (-1, s)
     | Some f \<Rightarrow>
         let s = mutex_lock free_open_file_entries_mutex s;
             s = mutex_lock (file_mutex f) s in
         bindR (arr_get (open_file_table s) f) (\<lambda>file.
         bindR (valid_file_content s (of_inumber file)) (\<lambda>ok.
         ALWAYS_ASSERT ok ''remove_from_open_file_table: file content deleted before closing''
         (ALWAYS_ASSERT (valid_file_handle s fhandle)
            ''remove_from_open_file_table: file handle must be valid''
         (bindR (arr_get (free_open_file_entries s) (nat fhandle)) (\<lambda>st.
         ALWAYS_ASSERT (st = TAKEN) ''remove_from_open_file_table: file handle must be taken''
         (let s = s\<lparr>free_open_file_entries := (free_open_file_entries s)[nat fhandle := FREE]\<rparr>;
              l = inode_lock (of_inumber file);
              s = rwlock_rdlock l s in
          bindR (inode_get (of_inumber file) s) (\<lambda>file_inode.
          bindR (inode_at file_inode s) (\<lambda>inode.
          bindR (if i_hard_links inode = 0
                 then bindR (is_file_open (of_inumber file) s) (\<lambda>opened. Inr (\<not> opened)) else Inr False) (\<lambda>del.
          bindR (if del then inode_delete (of_inumber file) (rwlock_unlock l s)
                 else Inr (rwlock_unlock l s)) (\<lambda>s.
          let s = mutex_unlock (file_mutex f) s;
              s = mutex_unlock free_open_file_entries_mutex s
          in Inr (0, s))))))))))))"

section \<open>Reading and writing\<close>

text \<open>\<^verbatim>\<open>size_t\<close> subtraction wraps.\<close>

definition size_sub :: "nat \<Rightarrow> nat \<Rightarrow> nat" where
  "size_sub a b = (a + (SIZE_MOD - b mod SIZE_MOD)) mod SIZE_MOD"

definition set_of_offset :: "nat \<Rightarrow> nat \<Rightarrow> fs_state \<Rightarrow> fs_state" where
  "set_of_offset f n s =
     s\<lparr>open_file_table := (open_file_table s)[f := (open_file_table s ! f)\<lparr>of_offset := n\<rparr>]\<rparr>"

text \<open>
  The part of \<open>write_to_open_file\<close> after the block is there: copy the bytes, advance the offset,
  extend the file. \<open>buffer\<close> is the memory the caller's pointer refers to.
\<close>

definition write_block :: "nat \<Rightarrow> int \<Rightarrow> nat \<Rightarrow> mem \<Rightarrow> nat \<Rightarrow> fs_state \<Rightarrow> fs_state res" where
  "write_block f p offset buffer to_write s =
     bindR (inode_at p s) (\<lambda>inode.
     bindR (data_block_get (i_data_block inode) s) (\<lambda>block.
     bindR (mem_read buffer 0 to_write) (\<lambda>bs.
     bindR (mem_write (fs_data s) (block + offset) bs) (\<lambda>m.
     let s = set_of_offset f (offset + to_write) (s\<lparr>fs_data := m\<rparr>) in
     if i_size inode < offset + to_write
     then inode_update p (\<lambda>n. n\<lparr>i_size := offset + to_write\<rparr>) s
     else Inr s))))"

definition write_to_open_file ::
  "int \<Rightarrow> mem option \<Rightarrow> nat \<Rightarrow> fs_state \<Rightarrow> (int \<times> fs_state) res" where
  "write_to_open_file fhandle buffer to_write s =
     (case buffer of
        None \<Rightarrow> Inr (-1, s)
      | Some buf \<Rightarrow>
          bindR (get_open_file_entry fhandle s) (\<lambda>e.
          case e of
            None \<Rightarrow> Inr (-1, s)
          | Some f \<Rightarrow>
              let s = mutex_lock (file_mutex f) s in
              bindR (arr_get (open_file_table s) f) (\<lambda>file.
              let l = inode_lock (of_inumber file); s = rwlock_wrlock l s in
              bindR (inode_get (of_inumber file) s) (\<lambda>p.
              bindR (inode_at p s) (\<lambda>inode.
              let offset = (if i_size inode < of_offset file then i_size inode
                            else of_offset file);
                  s = set_of_offset f offset s;
                  block_size = state_block_size s;
                  to_write = (if block_size < size_add to_write offset
                              then size_sub block_size offset else to_write);
                  done = (\<lambda>s. mutex_unlock (file_mutex f) (rwlock_unlock l s)) in
              if 0 < to_write then
                if i_size inode = 0 then
                  bindR (data_block_alloc s) (\<lambda>(bnum, s).
                  if bnum = -1 then Inr (-1, done s)
                  else
                    bindR (inode_update p (\<lambda>n. n\<lparr>i_data_block := bnum\<rparr>) s) (\<lambda>s.
                    bindR (write_block f p offset buf to_write s) (\<lambda>s.
                    Inr (int to_write, done s))))
                else
                  bindR (write_block f p offset buf to_write s) (\<lambda>s.
                  Inr (int to_write, done s))
              else Inr (int to_write, done s))))))"

text \<open>The result of a read also holds the caller's buffer after the call.\<close>

definition read_from_open_file ::
  "int \<Rightarrow> mem option \<Rightarrow> nat \<Rightarrow> fs_state \<Rightarrow> (int \<times> mem option \<times> fs_state) res" where
  "read_from_open_file fhandle buffer len s =
     (case buffer of
        None \<Rightarrow> Inr (-1, None, s)
      | Some buf \<Rightarrow>
          bindR (get_open_file_entry fhandle s) (\<lambda>e.
          case e of
            None \<Rightarrow> Inr (-1, Some buf, s)
          | Some f \<Rightarrow>
              let s = mutex_lock (file_mutex f) s in
              bindR (arr_get (open_file_table s) f) (\<lambda>file.
              let l = inode_lock (of_inumber file); s = rwlock_rdlock l s in
              bindR (inode_get (of_inumber file) s) (\<lambda>p.
              bindR (inode_at p s) (\<lambda>inode.
              let offset = (if i_size inode < of_offset file then i_size inode
                            else of_offset file);
                  s = set_of_offset f offset s;
                  to_read = i_size inode - offset;
                  to_read = (if len < to_read then len else to_read);
                  done = (\<lambda>s. mutex_unlock (file_mutex f) (rwlock_unlock l s)) in
              if 0 < to_read then
                bindR (data_block_get (i_data_block inode) s) (\<lambda>block.
                bindR (mem_read (fs_data s) (block + offset) to_read) (\<lambda>bs.
                bindR (mem_write buf 0 bs) (\<lambda>buf.
                Inr (int to_read, Some buf, done (set_of_offset f (offset + to_read) s)))))
              else Inr (int to_read, Some buf, done s))))))"

end
