(* ===== verification/FS_Ops.thy ===== *)
theory FS_Ops
  imports FS_State
begin

text \<open>
  The client interface of TecnicoFS: every function of \<^verbatim>\<open>fs/operations.c\<close>.

  A path argument is a \<open>string option\<close>, \<open>None\<close> for \<^verbatim>\<open>NULL\<close>; a string is the list of its bytes before
  the terminator. \<open>tfs_open\<close> follows symbolic links by calling itself and nothing bounds that
  recursion, so it is a \<^theory_text>\<open>partial_function\<close> into \<open>option\<close>: \<open>None\<close> means that the call does not
  return. The C standard library's view of an external file (its bytes, and whether \<^verbatim>\<open>fopen\<close> and
  \<^verbatim>\<open>fclose\<close> succeed) is an argument of \<open>tfs_copy_from_external_fs\<close>.
\<close>

unbundle bit_operations_syntax

abbreviation open_mutex :: lock_id where "open_mutex \<equiv> (Open_mutex, 0)"

abbreviation link_lock :: lock_id where "link_lock \<equiv> (Link_lock, 0)"

definition TFS_O_CREAT :: nat where "TFS_O_CREAT = 1"

definition TFS_O_TRUNC :: nat where "TFS_O_TRUNC = 2"

definition TFS_O_APPEND :: nat where "TFS_O_APPEND = 4"

definition has_flag :: "nat \<Rightarrow> nat \<Rightarrow> bool" where
  "has_flag mode flag \<longleftrightarrow> mode AND flag \<noteq> 0"

fun valid_pathname :: "string option \<Rightarrow> bool" where
  "valid_pathname None = False"
| "valid_pathname (Some name) = (length name > 1 \<and> name ! 0 = CHR ''/'')"

definition tfs_default_params :: tfs_params where
  "tfs_default_params =
     \<lparr>max_inode_count = 64, max_block_count = 1024, max_open_files_count = 16, block_size = 1024\<rparr>"

definition tfs_init :: "malloc_env \<Rightarrow> tfs_params option \<Rightarrow> fs_state \<Rightarrow> (int \<times> fs_state) res" where
  "tfs_init env params_ptr s =
     (let params = (case params_ptr of Some p \<Rightarrow> p | None \<Rightarrow> tfs_default_params);
          (r, s) = state_init env params s in
      if r \<noteq> 0 then Inr (-1, s)
      else
        bindR (inode_create T_DIRECTORY s) (\<lambda>(root, s).
        if root \<noteq> ROOT_DIR_INUM then Inr (-1, s) else Inr (0, s)))"

definition tfs_destroy :: "fs_state \<Rightarrow> (int \<times> fs_state) res" where
  "tfs_destroy s = state_destroy s"

definition tfs_lookup :: "string option \<Rightarrow> int \<Rightarrow> fs_state \<Rightarrow> (int \<times> fs_state) res" where
  "tfs_lookup name root_inode s =
     bindR (inode_at root_inode s) (\<lambda>root.
     if i_data_block root \<noteq> 0 then Inr (-1, s)
     else if \<not> valid_pathname name then Inr (-1, s)
     else find_in_dir root_inode (tl (the name)) s)"

text \<open>Truncation and the initial offset of an existing file (the inode is locked).\<close>

definition open_existing :: "int \<Rightarrow> nat \<Rightarrow> fs_state \<Rightarrow> (nat \<times> fs_state) res" where
  "open_existing p mode s =
     bindR (inode_at p s) (\<lambda>inode.
     bindR (if has_flag mode TFS_O_TRUNC \<and> 0 < i_size inode
            then bindR (data_block_free (i_data_block inode) s) (\<lambda>s.
                 inode_update p (\<lambda>n. n\<lparr>i_size := 0\<rparr>) s)
            else Inr s) (\<lambda>s.
     bindR (inode_at p s) (\<lambda>inode.
     Inr (if has_flag mode TFS_O_APPEND then i_size inode else 0, s))))"

partial_function (option) tfs_open ::
  "string option \<Rightarrow> nat \<Rightarrow> fs_state \<Rightarrow> (int \<times> fs_state) res option" where
  "tfs_open name mode s =
     (if \<not> valid_pathname name then Some (Inr (-1, s))
      else case inode_get ROOT_DIR_INUM s of
        Inl e \<Rightarrow> Some (Inl e)
      | Inr root_dir_inode \<Rightarrow>
          (case tfs_lookup name root_dir_inode (mutex_lock open_mutex s) of
             Inl e \<Rightarrow> Some (Inl e)
           | Inr (inum, s) \<Rightarrow>
               if 0 \<le> inum then
                 (let s = mutex_unlock open_mutex s;
                      l = inode_lock inum;
                      s = rwlock_wrlock l s
                  in case bindR (inode_get inum s) (\<lambda>p. inode_at p s) of
                       Inl e \<Rightarrow> Some (Inl e)
                     | Inr inode \<Rightarrow>
                         if i_node_type inode = T_DIRECTORY
                         then Some (Inl (Panic ''tfs_open: directories cannot be opened this way''))
                         else if i_node_type inode = T_SYM_LINK then
                           (case bindR (data_block_get (i_data_block inode) s)
                                   (\<lambda>block. cstr_at (fs_data s) block) of
                              Inl e \<Rightarrow> Some (Inl e)
                            | Inr target \<Rightarrow> tfs_open (Some target) mode (rwlock_unlock l s))
                         else
                           Some (bindR (open_existing inum mode s) (\<lambda>(offset, s).
                                 add_to_open_file_table inum offset (rwlock_unlock l s))))
               else if has_flag mode TFS_O_CREAT then
                 Some (bindR (inode_create T_FILE s) (\<lambda>(inum, s).
                       if inum = -1 then Inr (-1, mutex_unlock open_mutex s)
                       else
                         bindR (add_dir_entry root_dir_inode (tl (the name)) inum s) (\<lambda>(r, s).
                         if r = -1 then
                           bindR (inode_delete inum (mutex_unlock open_mutex s)) (\<lambda>s. Inr (-1, s))
                         else add_to_open_file_table inum 0 (mutex_unlock open_mutex s))))
               else Some (Inr (-1, mutex_unlock open_mutex s))))"

declare tfs_open.simps [code]

definition tfs_close :: "int \<Rightarrow> fs_state \<Rightarrow> (int \<times> fs_state) res" where
  "tfs_close fhandle s = remove_from_open_file_table fhandle s"

definition tfs_write :: "int \<Rightarrow> mem option \<Rightarrow> nat \<Rightarrow> fs_state \<Rightarrow> (int \<times> fs_state) res" where
  "tfs_write fhandle buffer to_write s = write_to_open_file fhandle buffer to_write s"

definition tfs_read ::
  "int \<Rightarrow> mem option \<Rightarrow> nat \<Rightarrow> fs_state \<Rightarrow> (int \<times> mem option \<times> fs_state) res" where
  "tfs_read fhandle buffer len s = read_from_open_file fhandle buffer len s"

definition tfs_sym_link ::
  "string option \<Rightarrow> string option \<Rightarrow> fs_state \<Rightarrow> (int \<times> fs_state) res" where
  "tfs_sym_link target link s =
     (if \<not> valid_pathname target \<or> \<not> valid_pathname link \<or> target = link then Inr (-1, s)
      else
        let s = rwlock_rdlock link_lock s in
        bindR (inode_create T_SYM_LINK s) (\<lambda>(link_inum, s).
        if link_inum = -1 then Inr (-1, rwlock_unlock link_lock s)
        else
          bindR (inode_get link_inum s) (\<lambda>link_inode.
          bindR (data_block_alloc s) (\<lambda>(bnum, s).
          if bnum = -1 then
            bindR (inode_delete link_inum s) (\<lambda>s. Inr (-1, rwlock_unlock link_lock s))
          else
            bindR (inode_update link_inode (\<lambda>n. n\<lparr>i_data_block := bnum\<rparr>) s) (\<lambda>s.
            bindR (data_block_get bnum s) (\<lambda>block.
            bindR (mem_write (fs_data s) block (the target @ [NUL])) (\<lambda>m.
            let s = s\<lparr>fs_data := m\<rparr> in
            bindR (inode_get ROOT_DIR_INUM s) (\<lambda>root_dir_inode.
            bindR (add_dir_entry root_dir_inode (tl (the link)) link_inum s) (\<lambda>(r, s).
            if r = -1 then
              bindR (inode_delete link_inum s) (\<lambda>s. Inr (-1, rwlock_unlock link_lock s))
            else Inr (0, rwlock_unlock link_lock s))))))))))"

definition tfs_link :: "string option \<Rightarrow> string option \<Rightarrow> fs_state \<Rightarrow> (int \<times> fs_state) res" where
  "tfs_link target link s =
     (if \<not> valid_pathname target \<or> \<not> valid_pathname link then Inr (-1, s)
      else
        let s = rwlock_rdlock link_lock s in
        bindR (inode_get ROOT_DIR_INUM s) (\<lambda>root_dir_inode.
        bindR (tfs_lookup target root_dir_inode s) (\<lambda>(target_inum, s).
        if target_inum = -1 then Inr (-1, rwlock_unlock link_lock s)
        else
          bindR (add_dir_entry root_dir_inode (tl (the link)) target_inum s) (\<lambda>(r, s).
          if r = -1 then Inr (-1, rwlock_unlock link_lock s)
          else
            bindR (inode_get target_inum s) (\<lambda>target_inode.
            bindR (inode_at target_inode s) (\<lambda>inode.
            if i_node_type inode = T_SYM_LINK then
              bindR (clear_dir_entry root_dir_inode (tl (the link)) s) (\<lambda>(_, s).
              Inr (-1, rwlock_unlock link_lock s))
            else
              let l = inode_lock target_inum; s = rwlock_wrlock l s in
              bindR (inode_update target_inode (\<lambda>n. n\<lparr>i_hard_links := u64_inc (i_hard_links n)\<rparr>) s)
                (\<lambda>s. Inr (0, rwlock_unlock link_lock (rwlock_unlock l s)))))))))"

definition tfs_unlink :: "string option \<Rightarrow> fs_state \<Rightarrow> (int \<times> fs_state) res" where
  "tfs_unlink target s =
     (if \<not> valid_pathname target then Inr (-1, s)
      else
        let s = rwlock_wrlock link_lock s in
        bindR (inode_get ROOT_DIR_INUM s) (\<lambda>root_dir_inode.
        bindR (tfs_lookup target root_dir_inode s) (\<lambda>(target_inum, s).
        if target_inum = -1 then Inr (-1, rwlock_unlock link_lock s)
        else
          bindR (inode_get target_inum s) (\<lambda>target_inode.
          bindR (inode_at target_inode s) (\<lambda>inode.
          ALWAYS_ASSERT (i_node_type inode \<noteq> T_DIRECTORY)
            ''tfs_unlink: directories cannot be unlinked''
          (bindR (clear_dir_entry root_dir_inode (tl (the target)) s) (\<lambda>(r, s).
           if r = -1 then Inr (-1, rwlock_unlock link_lock s)
           else
             let s = mutex_lock free_open_file_entries_mutex s;
                 l = inode_lock target_inum;
                 s = rwlock_wrlock l s in
             bindR (inode_update target_inode (\<lambda>n. n\<lparr>i_hard_links := u64_dec (i_hard_links n)\<rparr>) s) (\<lambda>s.
             bindR (inode_at target_inode s) (\<lambda>inode.
             bindR (if i_hard_links inode = 0
                    then bindR (is_file_open target_inum s) (\<lambda>opened. Inr (\<not> opened))
                    else Inr False) (\<lambda>del.
             bindR (if del then inode_delete target_inum (rwlock_unlock l s)
                    else Inr (rwlock_unlock l s)) (\<lambda>s.
             Inr (0, rwlock_unlock link_lock (mutex_unlock free_open_file_entries_mutex s)))))))))))))"

section \<open>Copying from the external file system\<close>

record ext_file =
  ext_bytes :: mem
  fclose_ok :: bool

text \<open>
  The copy loop. \<^verbatim>\<open>fread\<close> delivers the next \<open>block_size\<close> bytes, fewer at the end of the file. The
  result says whether the loop ended at the end of the file (\<open>True\<close>) or at a short write.
\<close>

function copy_loop :: "int \<Rightarrow> mem \<Rightarrow> fs_state \<Rightarrow> (bool \<times> fs_state) res" where
  "copy_loop dest_file rest s =
     (let buffer = take (state_block_size s) rest in
      if buffer = [] then Inr (True, s)
      else case tfs_write dest_file (Some buffer) (length buffer) s of
        Inl e \<Rightarrow> Inl e
      | Inr (w, s') \<Rightarrow>
          if w \<noteq> int (length buffer) then Inr (False, s')
          else copy_loop dest_file (drop (length buffer) rest) s')"
  by pat_completeness auto
termination
  by (relation "measure (\<lambda>(dest_file, rest, s). length rest)") auto

declare copy_loop.simps [simp del]

definition tfs_copy_from_external_fs ::
  "(string \<Rightarrow> ext_file option) \<Rightarrow> string option \<Rightarrow> string option \<Rightarrow> fs_state \<Rightarrow>
   (int \<times> fs_state) res option" where
  "tfs_copy_from_external_fs ext source_path dest_path s =
     (if \<not> valid_pathname dest_path \<or> source_path = None then Some (Inr (-1, s))
      else case ext (the source_path) of
        None \<Rightarrow> Some (Inr (-1, s))
      | Some source_file \<Rightarrow>
          (case tfs_open dest_path (TFS_O_CREAT OR TFS_O_TRUNC) s of
             None \<Rightarrow> None
           | Some (Inl e) \<Rightarrow> Some (Inl e)
           | Some (Inr (dest_file, s)) \<Rightarrow>
               if dest_file = -1 then Some (Inr (-1, s))
               else
                 Some (bindR (copy_loop dest_file (ext_bytes source_file) s) (\<lambda>(complete, s).
                       if \<not> complete \<or> \<not> fclose_ok source_file then
                         bindR (tfs_close dest_file s) (\<lambda>(_, s). Inr (-1, s))
                       else
                         bindR (tfs_close dest_file s) (\<lambda>(r, s).
                         if r = -1 then Inr (-1, s) else Inr (0, s))))))"

end
