(* ===== verification/FS_View.thy ===== *)
theory FS_View
  imports FS_Ops
begin

text \<open>
  How the byte-level state of TecnicoFS is read by the proofs, and what each function of
  \<^verbatim>\<open>state.c\<close> does in those terms.

  \<^item> \<open>traced t s\<close> is \<open>s\<close> with the lock events \<open>t\<close> appended; every operation result has this form,
    so the lock discipline is kept apart from the data.
  \<^item> \<open>block_of s b\<close> is the content of block \<open>b\<close>; a write inside one block leaves the others alone
    (\<open>block_of_patch\<close>).
  \<^item> \<open>dents s\<close> is the root directory as a list of pairs (name, inumber), decoded from block 0.
  \<^item> \<open>first_free\<close> is the slot an allocation loop finds.
\<close>

section \<open>Traces\<close>

definition traced :: "lock_event list \<Rightarrow> fs_state \<Rightarrow> fs_state" where
  "traced t s = s\<lparr>lock_trace := lock_trace s @ t\<rparr>"

lemma lock_wrappers [simp]:
  "rwlock_rdlock l s = traced [Acquire_rd l] s"
  "rwlock_wrlock l s = traced [Acquire_wr l] s"
  "rwlock_unlock l s = traced [Release l] s"
  "mutex_lock l s = traced [Acquire_wr l] s"
  "mutex_unlock l s = traced [Release l] s"
  by (simp_all add: rwlock_rdlock_def rwlock_wrlock_def rwlock_unlock_def mutex_lock_def
      mutex_unlock_def log_lock_def traced_def)

lemma traced_traced [simp]: "traced t (traced u s) = traced (u @ t) s"
  by (simp add: traced_def)

lemma traced_Nil [simp]: "traced [] s = s"
  by (simp add: traced_def)

lemma traced_select [simp]:
  "fs_params (traced t s) = fs_params s"
  "inode_table_set (traced t s) = inode_table_set s"
  "inode_table (traced t s) = inode_table s"
  "inode_locks (traced t s) = inode_locks s"
  "freeinode_ts (traced t s) = freeinode_ts s"
  "fs_data (traced t s) = fs_data s"
  "dir_locks (traced t s) = dir_locks s"
  "free_blocks (traced t s) = free_blocks s"
  "open_file_table (traced t s) = open_file_table s"
  "free_open_file_entries (traced t s) = free_open_file_entries s"
  "lock_trace (traced t s) = lock_trace s @ t"
  by (simp_all add: traced_def)

lemma traced_update [simp]:
  "(traced t s)\<lparr>inode_table := a\<rparr> = traced t (s\<lparr>inode_table := a\<rparr>)"
  "(traced t s)\<lparr>freeinode_ts := b\<rparr> = traced t (s\<lparr>freeinode_ts := b\<rparr>)"
  "(traced t s)\<lparr>fs_data := c\<rparr> = traced t (s\<lparr>fs_data := c\<rparr>)"
  "(traced t s)\<lparr>free_blocks := b\<rparr> = traced t (s\<lparr>free_blocks := b\<rparr>)"
  "(traced t s)\<lparr>open_file_table := d\<rparr> = traced t (s\<lparr>open_file_table := d\<rparr>)"
  "(traced t s)\<lparr>free_open_file_entries := b\<rparr> = traced t (s\<lparr>free_open_file_entries := b\<rparr>)"
  by (simp_all add: traced_def)

declare INODE_TABLE_SIZE_def [simp] DATA_BLOCKS_def [simp] MAX_OPEN_FILES_def [simp]
  BLOCK_SIZE_def [simp] state_block_size_def [simp] ROOT_DIR_INUM_def [simp]

lemma MAX_DIR_ENTRIES_traced [simp]: "MAX_DIR_ENTRIES (traced t s) = MAX_DIR_ENTRIES s"
  by (simp add: MAX_DIR_ENTRIES_def)

lemma valid_traced [simp]:
  "valid_inumber (traced t s) = valid_inumber s"
  "valid_block_number (traced t s) = valid_block_number s"
  "valid_file_handle (traced t s) = valid_file_handle s"
  by (auto simp: fun_eq_iff valid_inumber_def valid_block_number_def valid_file_handle_def)

section \<open>Well-shaped tables\<close>

definition params_ok :: "tfs_params \<Rightarrow> bool" where
  "params_ok p \<longleftrightarrow>
     0 < max_inode_count p \<and> max_inode_count p < 2 ^ 31 \<and>
     0 < max_block_count p \<and> max_block_count p < 2 ^ 31 \<and>
     max_open_files_count p < 2 ^ 31 \<and> 0 < block_size p \<and> block_size p < 2 ^ 63"

definition tables_ok :: "fs_state \<Rightarrow> bool" where
  "tables_ok s \<longleftrightarrow>
     params_ok (fs_params s) \<and> inode_table_set s \<and>
     length (inode_table s) = INODE_TABLE_SIZE s \<and> length (freeinode_ts s) = INODE_TABLE_SIZE s \<and>
     length (fs_data s) = DATA_BLOCKS s * BLOCK_SIZE s \<and> length (free_blocks s) = DATA_BLOCKS s \<and>
     length (open_file_table s) = MAX_OPEN_FILES s \<and>
     length (free_open_file_entries s) = MAX_OPEN_FILES s"

lemma tables_ok_traced [simp]: "tables_ok (traced t s) = tables_ok s"
  by (simp add: tables_ok_def)

lemma tables_okD:
  assumes "tables_ok s"
  shows "length (inode_table s) = max_inode_count (fs_params s)"
    and "length (freeinode_ts s) = max_inode_count (fs_params s)"
    and "length (free_blocks s) = max_block_count (fs_params s)"
    and "length (open_file_table s) = max_open_files_count (fs_params s)"
    and "length (free_open_file_entries s) = max_open_files_count (fs_params s)"
    and "length (fs_data s) = max_block_count (fs_params s) * block_size (fs_params s)"
    and "0 < max_inode_count (fs_params s)" and "max_inode_count (fs_params s) < 2 ^ 31"
    and "0 < max_block_count (fs_params s)" and "max_block_count (fs_params s) < 2 ^ 31"
    and "max_open_files_count (fs_params s) < 2 ^ 31"
    and "0 < block_size (fs_params s)" and "block_size (fs_params s) < 2 ^ 63"
  using assms by (auto simp: tables_ok_def params_ok_def)

section \<open>Allocation\<close>

definition first_free :: "allocation_state_t list \<Rightarrow> nat option" where
  "first_free xs = List.find (\<lambda>i. xs ! i = FREE) [0..<length xs]"

lemma first_free_Some:
  "first_free xs = Some k \<longleftrightarrow> k < length xs \<and> xs ! k = FREE \<and> (\<forall>j<k. xs ! j \<noteq> FREE)"
  unfolding first_free_def by (rule find_upt_Some_iff)

lemma first_free_None: "first_free xs = None \<longleftrightarrow> (\<forall>j<length xs. xs ! j \<noteq> FREE)"
  unfolding first_free_def by (rule find_upt_None_iff)

lemma scan_first_free: "n = length xs \<Longrightarrow> scan (\<lambda>st. st = FREE) xs n = Inr (first_free xs)"
  by (simp add: scan_find first_free_def)

abbreviation blocks_trace :: "lock_event list" where
  "blocks_trace \<equiv> [Acquire_wr free_blocks_mutex, Release free_blocks_mutex]"

abbreviation freeinode_trace :: "lock_event list" where
  "freeinode_trace \<equiv> [Acquire_wr freeinode_ts_lock, Release freeinode_ts_lock]"

lemma data_block_alloc_eq:
  assumes "tables_ok s"
  shows "data_block_alloc s = Inr (case first_free (free_blocks s) of
      None \<Rightarrow> (-1, traced blocks_trace s)
    | Some b \<Rightarrow> (int b, traced blocks_trace (s\<lparr>free_blocks := (free_blocks s)[b := TAKEN]\<rparr>)))"
proof (cases "first_free (free_blocks s)")
  case None
  then show ?thesis
    using tables_okD [OF assms] by (simp add: data_block_alloc_def scan_first_free)
next
  case (Some b)
  then have "b < 2 ^ 31"
    using tables_okD [OF assms] by (simp add: first_free_Some)
  then show ?thesis
    using Some tables_okD [OF assms] by (simp add: data_block_alloc_def scan_first_free)
qed

lemma inode_alloc_eq:
  assumes "tables_ok s"
  shows "inode_alloc s = Inr (case first_free (freeinode_ts s) of
      None \<Rightarrow> (-1, traced freeinode_trace s)
    | Some i \<Rightarrow> (int i, traced freeinode_trace (s\<lparr>freeinode_ts := (freeinode_ts s)[i := TAKEN]\<rparr>)))"
proof (cases "first_free (freeinode_ts s)")
  case None
  then show ?thesis
    using tables_okD [OF assms] by (simp add: inode_alloc_def scan_first_free)
next
  case (Some i)
  then have "i < 2 ^ 31"
    using tables_okD [OF assms] by (simp add: first_free_Some)
  then show ?thesis
    using Some tables_okD [OF assms] by (simp add: inode_alloc_def scan_first_free)
qed

lemma data_block_free_eq:
  assumes "tables_ok s" and "b < DATA_BLOCKS s"
  shows "data_block_free (int b) s =
    Inr (traced blocks_trace (s\<lparr>free_blocks := (free_blocks s)[b := FREE]\<rparr>))"
  using assms tables_okD [OF assms(1)] by (simp add: data_block_free_def valid_block_number_def)

lemma data_block_get_eq:
  "b < DATA_BLOCKS s \<Longrightarrow> data_block_get (int b) s = Inr (b * BLOCK_SIZE s)"
  by (simp add: data_block_get_def valid_block_number_def)

lemma inode_get_eq: "i < INODE_TABLE_SIZE s \<Longrightarrow> inode_get (int i) s = Inr (int i)"
  by (simp add: inode_get_def valid_inumber_def)

lemma inode_at_eq: "i < length (inode_table s) \<Longrightarrow> inode_at (int i) s = Inr (inode_table s ! i)"
  by (simp add: inode_at_def)

lemma inode_update_eq:
  "i < length (inode_table s) \<Longrightarrow>
     inode_update (int i) f s = Inr (s\<lparr>inode_table := (inode_table s)[i := f (inode_table s ! i)]\<rparr>)"
  by (simp add: inode_update_def inode_at_eq)

section \<open>Blocks\<close>

definition block_of :: "fs_state \<Rightarrow> nat \<Rightarrow> mem" where
  "block_of s b = slice (fs_data s) (b * BLOCK_SIZE s) (BLOCK_SIZE s)"

lemma block_of_traced [simp]: "block_of (traced t s) b = block_of s b"
  by (simp add: block_of_def)

lemma block_of_update [simp]:
  "block_of (s\<lparr>inode_table := a\<rparr>) b = block_of s b"
  "block_of (s\<lparr>freeinode_ts := c\<rparr>) b = block_of s b"
  "block_of (s\<lparr>free_blocks := c\<rparr>) b = block_of s b"
  "block_of (s\<lparr>open_file_table := d\<rparr>) b = block_of s b"
  "block_of (s\<lparr>free_open_file_entries := c\<rparr>) b = block_of s b"
  by (simp_all add: block_of_def)

lemma block_end_le:
  assumes "tables_ok s" and "b < DATA_BLOCKS s"
  shows "b * block_size (fs_params s) + block_size (fs_params s) \<le> length (fs_data s)"
proof -
  have "Suc b * block_size (fs_params s) \<le> max_block_count (fs_params s) * block_size (fs_params s)"
    using assms(2) by (intro mult_le_mono1) simp
  then show ?thesis
    using tables_okD [OF assms(1)] by (simp add: add.commute)
qed

lemma length_block_of [simp]:
  "tables_ok s \<Longrightarrow> b < DATA_BLOCKS s \<Longrightarrow> length (block_of s b) = BLOCK_SIZE s"
  by (simp add: block_of_def block_end_le)

text \<open>Writing inside block \<open>b\<close> changes that block only.\<close>

lemma block_of_patch:
  assumes ok: "tables_ok s" and b: "b < DATA_BLOCKS s" and fits: "off + length bs \<le> BLOCK_SIZE s"
    and b': "b' < DATA_BLOCKS s"
  shows "block_of (s\<lparr>fs_data := patch (fs_data s) (b * BLOCK_SIZE s + off) bs\<rparr>) b' =
    (if b' = b then patch (block_of s b) off bs else block_of s b')"
proof (cases "b' = b")
  case True
  then show ?thesis
    using block_end_le [OF ok b] fits by (simp add: block_of_def slice_patch_inside)
next
  case False
  let ?n = "block_size (fs_params s)"
  have "Suc b' * ?n \<le> b * ?n \<or> Suc b * ?n \<le> b' * ?n"
    using False by (metis Suc_leI linorder_neqE_nat mult_le_mono1)
  then have "b' * ?n + ?n \<le> b * ?n + off \<or> b * ?n + off + length bs \<le> b' * ?n"
    using fits by auto
  then show ?thesis
    using False block_end_le [OF ok b] block_end_le [OF ok b'] fits
    by (simp add: block_of_def slice_patch_disjoint)
qed

section \<open>The root directory\<close>

definition dir_of :: "mem \<Rightarrow> nat \<Rightarrow> (string \<times> int) list" where
  "dir_of blk n = map (\<lambda>i. (cstr (slice blk (sizeof_dir_entry * i) MAX_FILE_NAME),
      int32_val (slice blk (sizeof_dir_entry * i + d_inumber_offset) 4))) [0..<n]"

definition dents :: "fs_state \<Rightarrow> (string \<times> int) list" where
  "dents s = dir_of (block_of s 0) (MAX_DIR_ENTRIES s)"

lemma dents_traced [simp]: "dents (traced t s) = dents s"
  by (simp add: dents_def)

lemma dents_update [simp]:
  "dents (s\<lparr>inode_table := a\<rparr>) = dents s"
  "dents (s\<lparr>freeinode_ts := c\<rparr>) = dents s"
  "dents (s\<lparr>free_blocks := c\<rparr>) = dents s"
  "dents (s\<lparr>open_file_table := d\<rparr>) = dents s"
  "dents (s\<lparr>free_open_file_entries := c\<rparr>) = dents s"
  by (simp_all add: dents_def MAX_DIR_ENTRIES_def)

lemma length_dents [simp]: "length (dents s) = MAX_DIR_ENTRIES s"
  by (simp add: dents_def dir_of_def)

lemma nth_dir_of:
  "i < n \<Longrightarrow> dir_of blk n ! i = (cstr (slice blk (sizeof_dir_entry * i) MAX_FILE_NAME),
      int32_val (slice blk (sizeof_dir_entry * i + d_inumber_offset) 4))"
  by (simp add: dir_of_def)

lemma entry_fits:
  "i < MAX_DIR_ENTRIES s \<Longrightarrow> sizeof_dir_entry * i + sizeof_dir_entry \<le> BLOCK_SIZE s"
proof -
  assume "i < MAX_DIR_ENTRIES s"
  then have "Suc i \<le> BLOCK_SIZE s div sizeof_dir_entry"
    by (simp add: MAX_DIR_ENTRIES_def)
  then have "sizeof_dir_entry * Suc i \<le> sizeof_dir_entry * (BLOCK_SIZE s div sizeof_dir_entry)"
    by (rule mult_le_mono2)
  also have "\<dots> \<le> BLOCK_SIZE s"
    by simp
  finally show ?thesis by simp
qed

text \<open>Rewriting one entry, as the three stores of \<open>add_dir_entry\<close> or the two of \<open>clear_dir_entry\<close> do.\<close>

definition put_entry :: "mem \<Rightarrow> nat \<Rightarrow> mem \<Rightarrow> int \<Rightarrow> mem" where
  "put_entry m i name inum =
     patch (patch m (entry_pos 0 i + d_inumber_offset) (int32_bytes inum)) (entry_pos 0 i) name"

lemmas entry_layout = entry_pos_def sizeof_dir_entry_def d_inumber_offset_def MAX_FILE_NAME_def

lemma dir_of_put_entry:
  assumes i: "i < n" and n: "44 * n \<le> length m" and name: "length name = 40"
    and inum: "- (2 ^ 31) \<le> inum" "inum < 2 ^ 31"
  shows "dir_of (put_entry m i name inum) n = (dir_of m n)[i := (cstr name, inum)]"
proof (rule nth_equalityI)
  show "length (dir_of (put_entry m i name inum) n) = length ((dir_of m n)[i := (cstr name, inum)])"
    by (simp add: dir_of_def)
next
  fix j
  assume "j < length (dir_of (put_entry m i name inum) n)"
  then have j: "j < n"
    by (simp add: dir_of_def)
  have ij: "i = j \<or> Suc i \<le> j \<or> Suc j \<le> i" by arith
  have fits: "44 * i + 44 \<le> length m" "44 * j + 44 \<le> length m"
    using i j n by simp_all
  let ?m = "patch m (44 * i + 40) (int32_bytes inum)"
  have len: "length ?m = length m"
    using fits by simp
  have nm: "slice (patch ?m (44 * i) name) (44 * j) 40 = (if i = j then name else slice m (44 * j) 40)"
    using ij fits name len slice_patch_same [of "44 * i" name ?m]
    by (auto simp: slice_patch_disjoint)
  have num: "slice (patch ?m (44 * i) name) (44 * j + 40) 4 =
      (if i = j then int32_bytes inum else slice m (44 * j + 40) 4)"
    using ij fits name len slice_patch_same [of "44 * i + 40" "int32_bytes inum" m]
    by (auto simp: slice_patch_disjoint)
  show "dir_of (put_entry m i name inum) n ! j = (dir_of m n)[i := (cstr name, inum)] ! j"
    using i j inum nm num
    by (auto simp: put_entry_def entry_layout nth_dir_of nth_list_update dir_of_def)
qed

section \<open>Searching and changing the root directory\<close>

text \<open>The root inode, as far as the directory functions look at it.\<close>

definition root_dir :: "fs_state \<Rightarrow> bool" where
  "root_dir s \<longleftrightarrow> i_node_type (inode_table s ! 0) = T_DIRECTORY \<and> i_data_block (inode_table s ! 0) = 0"

lemma root_dir_traced [simp]: "root_dir (traced t s) = root_dir s"
  by (simp add: root_dir_def)

lemma root_at: "tables_ok s \<Longrightarrow> inode_at 0 s = Inr (inode_table s ! 0)"
  using tables_okD [of s] by (simp add: inode_at_def)

lemma root_get: "tables_ok s \<Longrightarrow> inode_get 0 s = Inr 0"
  using tables_okD [of s] by (simp add: inode_get_def valid_inumber_def)

lemma root_block_get: "tables_ok s \<Longrightarrow> data_block_get 0 s = Inr 0"
  using tables_okD [of s] by (simp add: data_block_get_def valid_block_number_def)

lemma root_block_end: "tables_ok s \<Longrightarrow> block_size (fs_params s) \<le> length (fs_data s)"
  using block_end_le [of s 0] tables_okD [of s] by simp

lemma d_inumber_at_dents:
  assumes "tables_ok s" and "j < MAX_DIR_ENTRIES s"
  shows "d_inumber_at (fs_data s) 0 j = Inr (snd (dents s ! j))"
  using entry_fits [OF assms(2)] root_block_end [OF assms(1)] assms
  by (simp add: d_inumber_at_def dents_def nth_dir_of block_of_def slice_slice entry_layout)

lemma name_field:
  assumes "tables_ok s" and "j < MAX_DIR_ENTRIES s"
  shows "\<exists>fld rest. drop (entry_pos 0 j) (fs_data s) = fld @ rest \<and> length fld = 40 \<and>
    cstr fld = fst (dents s ! j)"
proof -
  have fits: "44 * j + 40 \<le> length (fs_data s)" "44 * j + 40 \<le> block_size (fs_params s)"
    using entry_fits [OF assms(2)] root_block_end [OF assms(1)] by (simp_all add: entry_layout)
  have "drop (44 * j) (fs_data s) = slice (fs_data s) (44 * j) 40 @ drop (44 * j + 40) (fs_data s)"
    using fits(1) by (rule drop_slice)
  moreover have "cstr (slice (fs_data s) (44 * j) 40) = fst (dents s ! j)"
    using assms fits by (simp add: dents_def nth_dir_of block_of_def slice_slice entry_layout)
  ultimately show ?thesis
    using fits
    by (intro exI [of _ "slice (fs_data s) (44 * j) 40"] exI [of _ "drop (44 * j + 40) (fs_data s)"])
      (simp add: entry_layout)
qed

lemma d_name_strcmp_eq_dents:
  assumes "tables_ok s" and "j < MAX_DIR_ENTRIES s" and "is_cstring name" and "\<not> invalid_sub_name name"
  shows "d_name_strcmp_eq (fs_data s) 0 j name = Inr (fst (dents s ! j) = name)"
proof -
  obtain fld rest where "drop (entry_pos 0 j) (fs_data s) = fld @ rest"
    and "length fld = 40" and "cstr fld = fst (dents s ! j)"
    using name_field [OF assms(1,2)] by blast
  then show ?thesis
    using assms(3,4) strcmp_eq_field [of name fld rest]
    by (simp add: d_name_strcmp_eq_def invalid_sub_name_def MAX_FILE_NAME_def)
qed

lemma d_name_strncmp_eq_dents:
  assumes "tables_ok s" and "j < MAX_DIR_ENTRIES s" and "is_cstring name" and "\<not> invalid_sub_name name"
  shows "d_name_strncmp_eq (fs_data s) 0 j name MAX_FILE_NAME = Inr (fst (dents s ! j) = name)"
proof -
  obtain fld rest where "drop (entry_pos 0 j) (fs_data s) = fld @ rest"
    and "length fld = 40" and "cstr fld = fst (dents s ! j)"
    using name_field [OF assms(1,2)] by blast
  then show ?thesis
    using assms(3,4) strncmp_eq_field [of name fld MAX_FILE_NAME rest]
    by (simp add: d_name_strncmp_eq_def invalid_sub_name_def MAX_FILE_NAME_def)
qed

text \<open>The entry a directory search stops at, over the decoded list.\<close>

definition live_index :: "(string \<times> int) list \<Rightarrow> string \<Rightarrow> nat option" where
  "live_index D name = List.find (\<lambda>j. snd (D ! j) \<noteq> -1 \<and> fst (D ! j) = name) [0..<length D]"

definition empty_index :: "(string \<times> int) list \<Rightarrow> nat option" where
  "empty_index D = List.find (\<lambda>j. snd (D ! j) = -1) [0..<length D]"

definition name_index :: "(string \<times> int) list \<Rightarrow> string \<Rightarrow> nat option" where
  "name_index D name = List.find (\<lambda>j. fst (D ! j) = name) [0..<length D]"

definition dir_lookup :: "(string \<times> int) list \<Rightarrow> string \<Rightarrow> int" where
  "dir_lookup D name = (case live_index D name of None \<Rightarrow> -1 | Some j \<Rightarrow> snd (D ! j))"

abbreviation dir_trace :: "lock_event \<Rightarrow> lock_event list" where
  "dir_trace a \<equiv> [a, Release (Dir_lock, 0)]"

lemma for_find_live:
  assumes "tables_ok s" and "is_cstring name" and "\<not> invalid_sub_name name"
  shows "for_find (\<lambda>i. bindR (d_inumber_at (fs_data s) 0 i) (\<lambda>n.
      if n \<noteq> -1 then d_name_strcmp_eq (fs_data s) 0 i name else Inr False)) 0 (MAX_DIR_ENTRIES s) =
    Inr (live_index (dents s) name)"
  using for_find_find [of 0 "MAX_DIR_ENTRIES s" _ "\<lambda>j. snd (dents s ! j) \<noteq> -1 \<and> fst (dents s ! j) = name"]
    assms
  by (simp add: live_index_def d_inumber_at_dents d_name_strcmp_eq_dents)

lemma for_find_live_n:
  assumes "tables_ok s" and "is_cstring name" and "\<not> invalid_sub_name name"
  shows "for_find (\<lambda>i. bindR (d_inumber_at (fs_data s) 0 i) (\<lambda>n.
      if n \<noteq> -1 then d_name_strncmp_eq (fs_data s) 0 i name MAX_FILE_NAME else Inr False))
      0 (MAX_DIR_ENTRIES s) = Inr (live_index (dents s) name)"
  using for_find_find [of 0 "MAX_DIR_ENTRIES s" _ "\<lambda>j. snd (dents s ! j) \<noteq> -1 \<and> fst (dents s ! j) = name"]
    assms
  by (simp add: live_index_def d_inumber_at_dents d_name_strncmp_eq_dents)

lemma for_find_empty:
  assumes "tables_ok s"
  shows "for_find (\<lambda>i. bindR (d_inumber_at (fs_data s) 0 i) (\<lambda>n. Inr (n = -1))) 0 (MAX_DIR_ENTRIES s) =
    Inr (empty_index (dents s))"
  using for_find_find [of 0 "MAX_DIR_ENTRIES s" _ "\<lambda>j. snd (dents s ! j) = -1"] assms
  by (simp add: empty_index_def d_inumber_at_dents)

lemma for_find_name:
  assumes "tables_ok s" and "is_cstring name" and "\<not> invalid_sub_name name"
  shows "for_find (\<lambda>i. d_name_strcmp_eq (fs_data s) 0 i name) 0 (MAX_DIR_ENTRIES s) =
    Inr (name_index (dents s) name)"
  using for_find_find [of 0 "MAX_DIR_ENTRIES s" _ "\<lambda>j. fst (dents s ! j) = name"] assms
  by (simp add: name_index_def d_name_strcmp_eq_dents)

lemma find_in_dir_eq:
  assumes "tables_ok s" and "root_dir s" and "is_cstring name" and "\<not> invalid_sub_name name"
  shows "find_in_dir 0 name s =
    Inr (dir_lookup (dents s) name, traced (dir_trace (Acquire_rd (Dir_lock, 0))) s)"
proof (cases "live_index (dents s) name")
  case None
  then show ?thesis
    using assms for_find_live_n [OF assms(1,3,4)]
    by (simp add: find_in_dir_def root_dir_def root_at root_block_get dir_lookup_def Let_def
        cong: if_cong)
next
  case (Some j)
  then have "j < MAX_DIR_ENTRIES s"
    by (simp add: live_index_def find_upt_Some_iff)
  then show ?thesis
    using Some assms for_find_live_n [OF assms(1,3,4)]
    by (simp add: find_in_dir_def root_dir_def root_at root_block_get dir_lookup_def Let_def
        d_inumber_at_dents cong: if_cong)
qed

text \<open>Storing an entry: the bytes written, and what the directory and the other blocks become.\<close>

definition set_entry :: "nat \<Rightarrow> mem \<Rightarrow> int \<Rightarrow> fs_state \<Rightarrow> fs_state" where
  "set_entry j name inum s = s\<lparr>fs_data := put_entry (fs_data s) j name inum\<rparr>"

lemma set_entry_select [simp]:
  "fs_params (set_entry j nm i s) = fs_params s"
  "inode_table_set (set_entry j nm i s) = inode_table_set s"
  "lock_trace (set_entry j nm i s) = lock_trace s"
  "inode_table (set_entry j nm i s) = inode_table s"
  "freeinode_ts (set_entry j nm i s) = freeinode_ts s"
  "free_blocks (set_entry j nm i s) = free_blocks s"
  "open_file_table (set_entry j nm i s) = open_file_table s"
  "free_open_file_entries (set_entry j nm i s) = free_open_file_entries s"
  "MAX_DIR_ENTRIES (set_entry j nm i s) = MAX_DIR_ENTRIES s"
  by (simp_all add: set_entry_def MAX_DIR_ENTRIES_def)

lemma set_entry_tables_ok [simp]:
  assumes "tables_ok s" and "j < MAX_DIR_ENTRIES s" and "length nm = 40"
  shows "tables_ok (set_entry j nm i s)"
proof -
  have "44 * j + 44 \<le> length (fs_data s)"
    using entry_fits [OF assms(2)] root_block_end [OF assms(1)] by (simp add: entry_layout)
  then have "length (put_entry (fs_data s) j nm i) = length (fs_data s)"
    using assms(3) by (simp add: put_entry_def entry_layout)
  then show ?thesis
    using assms(1) by (simp add: tables_ok_def set_entry_def)
qed

lemma block_of_set_entry:
  assumes "tables_ok s" and "j < MAX_DIR_ENTRIES s" and "length nm = 40" and "b < DATA_BLOCKS s"
  shows "block_of (set_entry j nm i s) b =
    (if b = 0 then put_entry (block_of s 0) j nm i else block_of s b)"
proof -
  let ?s = "s\<lparr>fs_data := patch (fs_data s) (44 * j + 40) (int32_bytes i)\<rparr>"
  have fits: "44 * j + 44 \<le> block_size (fs_params s)"
    using entry_fits [OF assms(2)] by (simp add: entry_layout)
  have "length (fs_data ?s) = length (fs_data s)"
    using fits root_block_end [OF assms(1)] by simp
  then have ok: "tables_ok ?s"
    using assms(1) by (simp add: tables_ok_def)
  have "set_entry j nm i s = ?s\<lparr>fs_data := patch (fs_data ?s) (44 * j) nm\<rparr>"
    by (simp add: set_entry_def put_entry_def entry_layout)
  then have "block_of (set_entry j nm i s) b =
      (if b = 0 then patch (block_of ?s 0) (44 * j) nm else block_of ?s b)"
    using block_of_patch [OF ok, of 0 "44 * j" nm b] assms tables_okD [OF assms(1)] fits by simp
  moreover have "block_of ?s b =
      (if b = 0 then patch (block_of s 0) (44 * j + 40) (int32_bytes i) else block_of s b)"
    using block_of_patch [OF assms(1), of 0 "44 * j + 40" "int32_bytes i" b] assms
      tables_okD [OF assms(1)] fits by simp
  ultimately show ?thesis
    by (auto simp: put_entry_def entry_layout)
qed

lemma dents_set_entry:
  assumes "tables_ok s" and "j < MAX_DIR_ENTRIES s" and "length nm = 40"
    and "- (2 ^ 31) \<le> i" and "i < 2 ^ 31"
  shows "dents (set_entry j nm i s) = (dents s)[j := (cstr nm, i)]"
proof -
  have "44 * MAX_DIR_ENTRIES s \<le> length (block_of s 0)"
    using assms(1) tables_okD [OF assms(1)]
    by (simp add: MAX_DIR_ENTRIES_def sizeof_dir_entry_def)
  then show ?thesis
    using assms tables_okD [OF assms(1)] by (simp add: dents_def block_of_set_entry dir_of_put_entry)
qed

text \<open>What \<open>add_dir_entry\<close> stores as the name field: the name, padded and terminated.\<close>

definition name_bytes :: "string \<Rightarrow> mem" where
  "name_bytes name = strncpy name 39 @ [NUL]"

lemma length_name_bytes [simp]: "length (name_bytes name) = 40"
  by (simp add: name_bytes_def)

lemma cstr_name_bytes: "is_cstring name \<Longrightarrow> \<not> invalid_sub_name name \<Longrightarrow> cstr (name_bytes name) = name"
  by (simp add: name_bytes_def cstr_strncpy invalid_sub_name_def MAX_FILE_NAME_def)

lemma patch_patch_adjacent:
  assumes "pos + length xs + length ys \<le> length m"
  shows "patch (patch m pos xs) (pos + length xs) ys = patch m pos (xs @ ys)"
  using assms by (simp add: patch_def ac_simps)

lemma add_dir_entry_eq:
  assumes "tables_ok s" and "root_dir s" and "is_cstring name" and "\<not> invalid_sub_name name"
    and "i < INODE_TABLE_SIZE s"
  shows "add_dir_entry 0 name (int i) s =
    (let t = dir_trace (Acquire_wr (Dir_lock, 0)) in
     Inr (case live_index (dents s) name of
            Some _ \<Rightarrow> (-1, traced t s)
          | None \<Rightarrow> (case empty_index (dents s) of
                      None \<Rightarrow> (-1, traced t s)
                    | Some j \<Rightarrow> (0, traced t (set_entry j (name_bytes name) (int i) s)))))"
proof -
  have bytes: "mem_write (fs_data s) (entry_pos 0 j + d_inumber_offset) (int32_bytes (int i)) =
      Inr (patch (fs_data s) (44 * j + 40) (int32_bytes (int i)))"
    "mem_write (patch (fs_data s) (44 * j + 40) (int32_bytes (int i))) (entry_pos 0 j) (strncpy name 39) =
      Inr (patch (patch (fs_data s) (44 * j + 40) (int32_bytes (int i))) (44 * j) (strncpy name 39))"
    "mem_write (patch (patch (fs_data s) (44 * j + 40) (int32_bytes (int i))) (44 * j) (strncpy name 39))
        (entry_pos 0 j + 39) [NUL] = Inr (put_entry (fs_data s) j (name_bytes name) (int i))"
    if "empty_index (dents s) = Some j" for j
  proof -
    have "j < MAX_DIR_ENTRIES s"
      using that by (simp add: empty_index_def find_upt_Some_iff)
    then have fits: "44 * j + 44 \<le> length (fs_data s)"
      using entry_fits [of j s] root_block_end [OF assms(1)] by (simp add: entry_layout)
    then show "mem_write (fs_data s) (entry_pos 0 j + d_inumber_offset) (int32_bytes (int i)) =
      Inr (patch (fs_data s) (44 * j + 40) (int32_bytes (int i)))"
    "mem_write (patch (fs_data s) (44 * j + 40) (int32_bytes (int i))) (entry_pos 0 j) (strncpy name 39) =
      Inr (patch (patch (fs_data s) (44 * j + 40) (int32_bytes (int i))) (44 * j) (strncpy name 39))"
      by (simp_all add: entry_layout)
    show "mem_write (patch (patch (fs_data s) (44 * j + 40) (int32_bytes (int i))) (44 * j) (strncpy name 39))
        (entry_pos 0 j + 39) [NUL] = Inr (put_entry (fs_data s) j (name_bytes name) (int i))"
      using fits patch_patch_adjacent [of "44 * j" "strncpy name 39" "[NUL]"
          "patch (fs_data s) (44 * j + 40) (int32_bytes (int i))"]
      by (simp add: entry_layout put_entry_def name_bytes_def)
  qed
  show ?thesis
    using assms for_find_live [OF assms(1,3,4)] for_find_empty [OF assms(1)]
    by (simp add: add_dir_entry_def valid_inumber_def root_dir_def root_at root_block_get bytes
        MAX_FILE_NAME_def set_entry_def Let_def split: option.split cong: if_cong)
qed

lemma clear_dir_entry_eq:
  assumes "tables_ok s" and "root_dir s" and "is_cstring name" and "\<not> invalid_sub_name name"
  shows "clear_dir_entry 0 name s =
    (let t = dir_trace (Acquire_wr (Dir_lock, 0)) in
     Inr (case name_index (dents s) name of
            None \<Rightarrow> (-1, traced t s)
          | Some j \<Rightarrow> (0, traced t (set_entry j (replicate 40 NUL) (-1) s))))"
proof -
  have bytes: "mem_write (fs_data s) (entry_pos 0 j + d_inumber_offset) (int32_bytes (-1)) =
      Inr (patch (fs_data s) (44 * j + 40) (int32_bytes (-1)))"
    "mem_write (patch (fs_data s) (44 * j + 40) (int32_bytes (-1))) (entry_pos 0 j) (replicate 40 NUL) =
      Inr (put_entry (fs_data s) j (replicate 40 NUL) (-1))"
    if "name_index (dents s) name = Some j" for j
  proof -
    have "j < MAX_DIR_ENTRIES s"
      using that by (simp add: name_index_def find_upt_Some_iff)
    then have fits: "44 * j + 44 \<le> length (fs_data s)"
      using entry_fits [of j s] root_block_end [OF assms(1)] by (simp add: entry_layout)
    then show "mem_write (fs_data s) (entry_pos 0 j + d_inumber_offset) (int32_bytes (-1)) =
      Inr (patch (fs_data s) (44 * j + 40) (int32_bytes (-1)))"
      "mem_write (patch (fs_data s) (44 * j + 40) (int32_bytes (-1))) (entry_pos 0 j) (replicate 40 NUL) =
      Inr (put_entry (fs_data s) j (replicate 40 NUL) (-1))"
      by (simp_all add: entry_layout put_entry_def)
  qed
  show ?thesis
    using assms for_find_name [OF assms(1,3,4)]
    by (simp add: clear_dir_entry_def root_dir_def root_at root_block_get bytes
        MAX_FILE_NAME_def set_entry_def Let_def split: option.split cong: if_cong)
qed

end
