(* ===== verification/FS_Inv.thy ===== *)
theory FS_Inv
  imports FS_View
begin

text \<open>
  The consistency invariant of TecnicoFS, and how each elementary change of the state affects it.

  \<open>fs_wfx X s\<close> is the structural part of the invariant, where the inodes of \<open>X\<close> are under
  construction or being unlinked: their link counter need not agree with the directory yet, and a
  symbolic link need not hold its target yet. \<open>fs_wf\<close> is the case \<open>X = {}\<close>, and \<open>fs_inv\<close> adds that
  no allocated inode is unreachable. The lemmas \<open>wfx_*\<close> are the elementary changes (allocate or
  free an inode or a block, store or clear a directory entry, open or close a handle, resize a
  file, write into a block); the operations of \<^verbatim>\<open>operations.c\<close> are chains of them.
\<close>

section \<open>The invariant\<close>

definition taken_inode :: "fs_state \<Rightarrow> nat \<Rightarrow> bool" where
  "taken_inode s i \<longleftrightarrow> i < INODE_TABLE_SIZE s \<and> freeinode_ts s ! i = TAKEN"

definition live_handle :: "fs_state \<Rightarrow> nat \<Rightarrow> bool" where
  "live_handle s f \<longleftrightarrow> f < MAX_OPEN_FILES s \<and> free_open_file_entries s ! f = TAKEN"

definition has_handle :: "fs_state \<Rightarrow> nat \<Rightarrow> bool" where
  "has_handle s i \<longleftrightarrow> (\<exists>f. live_handle s f \<and> of_inumber (open_file_table s ! f) = int i)"

definition nlinks :: "fs_state \<Rightarrow> nat \<Rightarrow> nat" where
  "nlinks s i = count_list (map snd (dents s)) (int i)"

text \<open>Inode \<open>i\<close> holds block \<open>b\<close>: a non-empty file or directory, or a symbolic link.\<close>

definition owns :: "fs_state \<Rightarrow> nat \<Rightarrow> nat \<Rightarrow> bool" where
  "owns s i b \<longleftrightarrow> taken_inode s i \<and> i_data_block (inode_table s ! i) = int b \<and>
     (0 < i_size (inode_table s ! i) \<or> i_node_type (inode_table s ! i) = T_SYM_LINK)"

definition root_ok :: "fs_state \<Rightarrow> bool" where
  "root_ok s \<longleftrightarrow> taken_inode s 0 \<and> root_dir s \<and> i_size (inode_table s ! 0) = BLOCK_SIZE s"

definition blocks_ok :: "fs_state \<Rightarrow> bool" where
  "blocks_ok s \<longleftrightarrow>
     (\<forall>i b. owns s i b \<longrightarrow> b < DATA_BLOCKS s \<and> free_blocks s ! b = TAKEN) \<and>
     (\<forall>i j b. owns s i b \<longrightarrow> owns s j b \<longrightarrow> i = j)"

definition node_ok :: "fs_state \<Rightarrow> inode_t \<Rightarrow> bool" where
  "node_ok s n \<longleftrightarrow>
     i_node_type n \<noteq> T_DIRECTORY \<and> i_size n \<le> BLOCK_SIZE s \<and>
     (0 < i_size n \<longrightarrow> i_node_type n = T_FILE \<and> 0 \<le> i_data_block n)"

definition nodes_ok :: "fs_state \<Rightarrow> bool" where
  "nodes_ok s \<longleftrightarrow> (\<forall>i. taken_inode s i \<longrightarrow> i \<noteq> 0 \<longrightarrow> node_ok s (inode_table s ! i))"

text \<open>A symbolic link holds a terminated absolute path.\<close>

definition target_ok :: "fs_state \<Rightarrow> nat \<Rightarrow> bool" where
  "target_ok s i \<longleftrightarrow>
     (i_node_type (inode_table s ! i) = T_SYM_LINK \<longrightarrow>
       (\<exists>b. owns s i b \<and> NUL \<in> set (block_of s b) \<and> valid_pathname (Some (cstr (block_of s b)))))"

definition entry_ok :: "fs_state \<Rightarrow> string \<times> int \<Rightarrow> bool" where
  "entry_ok s e \<longleftrightarrow>
     snd e = -1 \<or>
     (\<exists>i. snd e = int i \<and> i \<noteq> 0 \<and> taken_inode s i \<and> fst e \<noteq> [] \<and> length (fst e) < MAX_FILE_NAME)"

definition distinct_names :: "(string \<times> int) list \<Rightarrow> bool" where
  "distinct_names D \<longleftrightarrow>
     (\<forall>j k. j < length D \<longrightarrow> k < length D \<longrightarrow> snd (D ! j) \<noteq> -1 \<longrightarrow> snd (D ! k) \<noteq> -1 \<longrightarrow>
        fst (D ! j) = fst (D ! k) \<longrightarrow> j = k)"

text \<open>
  A free entry that was never used holds whatever \<^verbatim>\<open>malloc\<close> returned, and \<open>clear_dir_entry\<close> looks at the
  names of free entries too. It never meets such a name before the live entry it wants: entries are
  handed out from the front, so a free entry in front of a live one has been cleared.
\<close>

definition stale_ok :: "(string \<times> int) list \<Rightarrow> bool" where
  "stale_ok D \<longleftrightarrow>
     (\<forall>j k. j < k \<longrightarrow> k < length D \<longrightarrow> snd (D ! j) = -1 \<longrightarrow> snd (D ! k) \<noteq> -1 \<longrightarrow> fst (D ! j) = [])"

definition dir_ok :: "fs_state \<Rightarrow> bool" where
  "dir_ok s \<longleftrightarrow> (\<forall>j < length (dents s). entry_ok s (dents s ! j)) \<and> distinct_names (dents s) \<and>
     stale_ok (dents s)"

definition handle_ok :: "fs_state \<Rightarrow> open_file_entry_t \<Rightarrow> bool" where
  "handle_ok s e \<longleftrightarrow>
     (\<exists>i. of_inumber e = int i \<and> i \<noteq> 0 \<and> taken_inode s i \<and> i_node_type (inode_table s ! i) = T_FILE) \<and>
     of_offset e \<le> BLOCK_SIZE s"

definition handles_ok :: "fs_state \<Rightarrow> bool" where
  "handles_ok s \<longleftrightarrow> (\<forall>f. live_handle s f \<longrightarrow> handle_ok s (open_file_table s ! f))"

definition links_ok :: "nat set \<Rightarrow> fs_state \<Rightarrow> bool" where
  "links_ok X s \<longleftrightarrow>
     (\<forall>i. taken_inode s i \<longrightarrow> i \<noteq> 0 \<longrightarrow> i \<notin> X \<longrightarrow>
        i_hard_links (inode_table s ! i) = nlinks s i \<and> target_ok s i)"

definition fs_wfx :: "nat set \<Rightarrow> fs_state \<Rightarrow> bool" where
  "fs_wfx X s \<longleftrightarrow>
     tables_ok s \<and> root_ok s \<and> blocks_ok s \<and> nodes_ok s \<and> dir_ok s \<and> handles_ok s \<and> links_ok X s"

abbreviation fs_wf :: "fs_state \<Rightarrow> bool" where
  "fs_wf s \<equiv> fs_wfx {} s"

text \<open>Every allocated inode but the root has a directory entry or an open handle.\<close>

definition no_orphans :: "fs_state \<Rightarrow> bool" where
  "no_orphans s \<longleftrightarrow> (\<forall>i. taken_inode s i \<longrightarrow> i \<noteq> 0 \<longrightarrow> 0 < nlinks s i \<or> has_handle s i)"

definition fs_inv :: "fs_state \<Rightarrow> bool" where
  "fs_inv s \<longleftrightarrow> fs_wf s \<and> no_orphans s"

lemmas view_defs = taken_inode_def live_handle_def has_handle_def nlinks_def owns_def root_dir_def

lemmas clause_defs = root_ok_def blocks_ok_def nodes_ok_def node_ok_def dir_ok_def entry_ok_def
  handles_ok_def handle_ok_def links_ok_def target_ok_def

section \<open>Lock events are irrelevant\<close>

lemma views_traced [simp]:
  "taken_inode (traced t s) = taken_inode s"
  "live_handle (traced t s) = live_handle s"
  "has_handle (traced t s) = has_handle s"
  "nlinks (traced t s) = nlinks s"
  "owns (traced t s) = owns s"
  by (auto simp: fun_eq_iff view_defs)

lemma clauses_traced [simp]:
  "root_ok (traced t s) = root_ok s"
  "blocks_ok (traced t s) = blocks_ok s"
  "nodes_ok (traced t s) = nodes_ok s"
  "dir_ok (traced t s) = dir_ok s"
  "handles_ok (traced t s) = handles_ok s"
  "links_ok X (traced t s) = links_ok X s"
  by (simp_all add: clause_defs)

lemma inv_traced [simp]:
  "fs_wfx X (traced t s) = fs_wfx X s"
  "no_orphans (traced t s) = no_orphans s"
  "fs_inv (traced t s) = fs_inv s"
  by (simp_all add: fs_wfx_def no_orphans_def fs_inv_def)

section \<open>Reading the invariant\<close>

lemma wfx_tables: "fs_wfx X s \<Longrightarrow> tables_ok s"
  by (simp add: fs_wfx_def)

lemma wfx_root_dir: "fs_wfx X s \<Longrightarrow> root_dir s"
  by (simp add: fs_wfx_def root_ok_def)

lemma wfx_root: "fs_wfx X s \<Longrightarrow> taken_inode s 0"
  by (simp add: fs_wfx_def root_ok_def)

lemma wfx_mono: "fs_wfx X s \<Longrightarrow> X \<subseteq> Y \<Longrightarrow> fs_wfx Y s"
  by (auto simp: fs_wfx_def links_ok_def)

text \<open>An inode whose counter and target are right is no longer an exception.\<close>

lemma wfx_settle:
  assumes "fs_wfx (insert k X) s"
    and "taken_inode s k \<Longrightarrow> k \<noteq> 0 \<Longrightarrow>
      i_hard_links (inode_table s ! k) = nlinks s k \<and> target_ok s k"
  shows "fs_wfx X s"
proof -
  have "links_ok (insert k X) s"
    using assms(1) by (simp add: fs_wfx_def)
  then have "links_ok X s"
    using assms(2) unfolding links_ok_def by (metis insertE)
  then show ?thesis
    using assms(1) by (simp add: fs_wfx_def)
qed

lemma taken_less: "tables_ok s \<Longrightarrow> taken_inode s i \<Longrightarrow> i < length (inode_table s)"
  using tables_okD [of s] by (simp add: taken_inode_def)

lemma free_not_zero: "fs_wfx X s \<Longrightarrow> freeinode_ts s ! k = FREE \<Longrightarrow> k \<noteq> 0"
  using wfx_root [of X s] by (cases "k = 0") (auto simp: taken_inode_def)

lemma owns_zero: "fs_wfx X s \<Longrightarrow> owns s 0 0"
  using tables_okD [OF wfx_tables, of X s] by (simp add: fs_wfx_def root_ok_def owns_def root_dir_def)

lemma owns_block:
  assumes "fs_wfx X s" and "owns s i b"
  shows "b < DATA_BLOCKS s" and "free_blocks s ! b = TAKEN"
  using assms by (auto simp: fs_wfx_def blocks_ok_def)

lemma owns_inj: "fs_wfx X s \<Longrightarrow> owns s i b \<Longrightarrow> owns s j b \<Longrightarrow> i = j"
  by (auto simp: fs_wfx_def blocks_ok_def)

lemma wfx_node: "fs_wfx X s \<Longrightarrow> taken_inode s i \<Longrightarrow> i \<noteq> 0 \<Longrightarrow> node_ok s (inode_table s ! i)"
  by (simp add: fs_wfx_def nodes_ok_def)

lemma nonempty_file_owns:
  assumes "fs_wfx X s" and "taken_inode s i" and "0 < i_size (inode_table s ! i)"
  shows "\<exists>b. owns s i b \<and> i_data_block (inode_table s ! i) = int b"
proof (cases "i = 0")
  case True
  then show ?thesis
    using owns_zero [OF assms(1)] wfx_root_dir [OF assms(1)] by (auto simp: root_dir_def intro!: exI [of _ 0])
next
  case False
  then have "0 \<le> i_data_block (inode_table s ! i)"
    using wfx_node [OF assms(1,2)] assms(3) by (simp add: node_ok_def)
  then show ?thesis
    using assms by (intro exI [of _ "nat (i_data_block (inode_table s ! i))"]) (simp add: owns_def)
qed

lemma wfx_entry:
  assumes "fs_wfx X s" and "j < MAX_DIR_ENTRIES s"
  shows "entry_ok s (dents s ! j)"
  using assms by (simp add: fs_wfx_def dir_ok_def)

lemma wfx_handle: "fs_wfx X s \<Longrightarrow> live_handle s f \<Longrightarrow> handle_ok s (open_file_table s ! f)"
  by (simp add: fs_wfx_def handles_ok_def)

lemma nlinks_zero_unused:
  assumes "fs_wfx X s" and "\<not> taken_inode s i"
  shows "nlinks s i = 0"
proof -
  have "int i \<notin> set (map snd (dents s))"
  proof
    assume "int i \<in> set (map snd (dents s))"
    then obtain j where "j < MAX_DIR_ENTRIES s" and "snd (dents s ! j) = int i"
      by (auto simp: in_set_conv_nth)
    with wfx_entry [OF assms(1), of j] assms(2) show False
      by (auto simp: entry_ok_def)
  qed
  then show ?thesis
    by (simp add: nlinks_def)
qed

lemma no_handle_unused: "fs_wfx X s \<Longrightarrow> \<not> taken_inode s i \<Longrightarrow> \<not> has_handle s i"
  using wfx_handle by (fastforce simp: has_handle_def handle_ok_def)

lemma nlinks_zero_entry: "nlinks s i = 0 \<Longrightarrow> j < MAX_DIR_ENTRIES s \<Longrightarrow> snd (dents s ! j) \<noteq> int i"
  using count_list_zero [of "map snd (dents s)" "int i" j] by (simp add: nlinks_def)

lemma nlinks_bound: "nlinks s i \<le> MAX_DIR_ENTRIES s"
  using count_le_length [of "map snd (dents s)" "int i"] by (simp add: nlinks_def)

section \<open>Changing one inode\<close>

text \<open>
  Most changes concern one inode \<open>k\<close>: the other inodes, the blocks they hold and their directory
  entries stay. The three lemmas below reduce the invariant after such a change to facts about \<open>k\<close>.
\<close>

lemma dents_same: "fs_params s' = fs_params s \<Longrightarrow> block_of s' 0 = block_of s 0 \<Longrightarrow> dents s' = dents s"
  by (simp add: dents_def MAX_DIR_ENTRIES_def)

lemma dir_ok_same:
  assumes "fs_wfx X s" and D: "dents s' = dents s"
    and other: "\<And>i. i \<noteq> k \<Longrightarrow> taken_inode s' i = taken_inode s i"
    and "taken_inode s' k \<or> nlinks s k = 0"
  shows "dir_ok s'"
  unfolding dir_ok_def D
proof (intro conjI allI impI)
  show "distinct_names (dents s)" "stale_ok (dents s)"
    using assms(1) by (simp_all add: fs_wfx_def dir_ok_def)
next
  fix j
  assume "j < length (dents s)"
  then have "entry_ok s (dents s ! j)" and "nlinks s k = 0 \<Longrightarrow> snd (dents s ! j) \<noteq> int k"
    using wfx_entry [OF assms(1)] nlinks_zero_entry by simp_all
  with other assms(4) show "entry_ok s' (dents s ! j)"
    unfolding entry_ok_def by metis
qed

lemma handles_ok_same:
  assumes "fs_wfx X s" and same: "open_file_table s' = open_file_table s"
      "free_open_file_entries s' = free_open_file_entries s" "fs_params s' = fs_params s"
    and other: "\<And>i. i \<noteq> k \<Longrightarrow> taken_inode s' i = taken_inode s i"
      "\<And>i. i \<noteq> k \<Longrightarrow> taken_inode s i \<Longrightarrow> inode_table s' ! i = inode_table s ! i"
    and k: "taken_inode s' k \<and> i_node_type (inode_table s' ! k) = i_node_type (inode_table s ! k) \<or>
      \<not> has_handle s k"
  shows "handles_ok s'"
  unfolding handles_ok_def
proof (intro allI impI)
  fix f
  assume "live_handle s' f"
  then have live: "live_handle s f"
    by (simp add: live_handle_def same)
  then obtain i where i: "of_inumber (open_file_table s ! f) = int i" "i \<noteq> 0" "taken_inode s i"
      "i_node_type (inode_table s ! i) = T_FILE"
    and off: "of_offset (open_file_table s ! f) \<le> BLOCK_SIZE s"
    using wfx_handle [OF assms(1)] by (auto simp: handle_ok_def)
  have "has_handle s i"
    using live i(1) by (auto simp: has_handle_def)
  then have "taken_inode s' i \<and> i_node_type (inode_table s' ! i) = T_FILE"
    using k other [of i] i by (cases "i = k") auto
  then show "handle_ok s' (open_file_table s' ! f)"
    using i off by (auto simp: handle_ok_def same)
qed

lemma wfx_change:
  assumes wf: "fs_wfx X s" and tab: "tables_ok s'" and par: "fs_params s' = fs_params s"
    and k: "k \<noteq> 0"
    and other: "\<And>i. i \<noteq> k \<Longrightarrow> taken_inode s' i = taken_inode s i"
      "\<And>i. i \<noteq> k \<Longrightarrow> taken_inode s i \<Longrightarrow> inode_table s' ! i = inode_table s ! i"
    and kept: "\<And>i b. i \<noteq> k \<Longrightarrow> owns s i b \<Longrightarrow> free_blocks s' ! b = TAKEN"
      "\<And>i b. i \<noteq> k \<Longrightarrow> i \<noteq> 0 \<Longrightarrow> owns s i b \<Longrightarrow> block_of s' b = block_of s b"
    and own: "\<And>b. owns s' k b \<Longrightarrow>
      b < DATA_BLOCKS s \<and> free_blocks s' ! b = TAKEN \<and> (\<forall>i. i \<noteq> k \<longrightarrow> \<not> owns s i b)"
    and node: "taken_inode s' k \<Longrightarrow> node_ok s (inode_table s' ! k)"
    and dir: "dir_ok s'" and handles: "handles_ok s'"
    and nl: "\<And>i. i \<noteq> k \<Longrightarrow> nlinks s' i = nlinks s i"
  shows "fs_wfx (insert k X) s'"
proof -
  have owns_eq: "owns s' i b = owns s i b" if "i \<noteq> k" for i b
    using other that by (auto simp: owns_def)
  have "root_ok s'"
    using wf k other [of 0] by (simp add: fs_wfx_def root_ok_def par root_dir_def)
  moreover have "b < DATA_BLOCKS s' \<and> free_blocks s' ! b = TAKEN" if "owns s' i b" for i b
    using that own kept(1) owns_eq owns_block [OF wf] par by (cases "i = k") auto
  moreover have "i = j" if "owns s' i b" "owns s' j b" for i j b
  proof (cases "i = k \<or> j = k")
    case True
    then show ?thesis
      using that own [of b] owns_eq [of i b] owns_eq [of j b] by metis
  next
    case False
    then show ?thesis
      using that owns_eq [of i b] owns_eq [of j b] owns_inj [OF wf, of i b j] by simp
  qed
  ultimately have "root_ok s'" and "blocks_ok s'"
    by (auto simp: blocks_ok_def)
  moreover have "nodes_ok s'"
    unfolding nodes_ok_def
  proof (intro allI impI)
    fix i
    assume "taken_inode s' i" and "i \<noteq> 0"
    then show "node_ok s' (inode_table s' ! i)"
      using node wfx_node [OF wf] other by (cases "i = k") (auto simp: node_ok_def par)
  qed
  moreover have "links_ok (insert k X) s'"
    unfolding links_ok_def
  proof (intro allI impI)
    fix i
    assume i: "taken_inode s' i" "i \<noteq> 0" "i \<notin> insert k X"
    then have "i_hard_links (inode_table s ! i) = nlinks s i \<and> target_ok s i"
      using wf other [of i] by (simp add: fs_wfx_def links_ok_def)
    then show "i_hard_links (inode_table s' ! i) = nlinks s' i \<and> target_ok s' i"
      using i other [of i] kept(2) [of i] owns_eq nl [of i] by (auto simp: target_ok_def)
  qed
  ultimately show ?thesis
    using tab dir handles by (simp add: fs_wfx_def)
qed

section \<open>Elementary changes\<close>

text \<open>Claiming a free inode for a file or a symbolic link.\<close>

lemma wfx_alloc_inode:
  assumes wf: "fs_wfx X s" and k: "k < INODE_TABLE_SIZE s" "freeinode_ts s ! k = FREE"
    and n: "i_node_type n \<noteq> T_DIRECTORY" "i_size n = 0" "i_data_block n = -1"
  shows "fs_wfx (insert k X)
    (s\<lparr>freeinode_ts := (freeinode_ts s)[k := TAKEN], inode_table := (inode_table s)[k := n]\<rparr>)"
proof -
  define s' where "s' = s\<lparr>freeinode_ts := (freeinode_ts s)[k := TAKEN],
    inode_table := (inode_table s)[k := n]\<rparr>"
  note T = tables_okD [OF wfx_tables [OF wf]]
  have nk: "\<not> taken_inode s k" using k by (simp add: taken_inode_def)
  have other: "i \<noteq> k \<Longrightarrow> taken_inode s' i = taken_inode s i"
      "i \<noteq> k \<Longrightarrow> inode_table s' ! i = inode_table s ! i" for i
    by (simp_all add: s'_def taken_inode_def)
  have tk: "taken_inode s' k" and ik: "inode_table s' ! k = n"
    using k T by (simp_all add: s'_def taken_inode_def)
  have sel: "fs_params s' = fs_params s" "free_blocks s' = free_blocks s" "dents s' = dents s"
      "block_of s' b = block_of s b" "open_file_table s' = open_file_table s"
      "free_open_file_entries s' = free_open_file_entries s" for b
    by (simp_all add: s'_def)
  have "fs_wfx (insert k X) s'"
  proof (rule wfx_change [OF wf])
    show "tables_ok s'" using wf by (simp add: s'_def fs_wfx_def tables_ok_def)
    show "k \<noteq> 0" using free_not_zero [OF wf k(2)] .
    show "dir_ok s'" using wf sel(3) other(1) disjI1 [OF tk] by (rule dir_ok_same)
    show "handles_ok s'"
      by (rule handles_ok_same [where k = k, OF wf sel(5,6,1)])
        (use other no_handle_unused [OF wf nk] in auto)
    show "owns s' k b \<Longrightarrow> b < DATA_BLOCKS s \<and> free_blocks s' ! b = TAKEN \<and>
        (\<forall>i. i \<noteq> k \<longrightarrow> \<not> owns s i b)" for b
      using n ik by (simp add: owns_def)
  qed (use other sel n ik owns_block [OF wf] in \<open>auto simp: node_ok_def nlinks_def\<close>)
  then show ?thesis by (simp add: s'_def)
qed

text \<open>Freeing an inode that nothing refers to, together with the block of a non-empty file.\<close>

lemma wfx_free_inode:
  assumes wf: "fs_wfx X s" and k: "taken_inode s k" "k \<noteq> 0"
    and unused: "nlinks s k = 0" "\<not> has_handle s k"
    and fb: "fb = free_blocks s \<or> (\<exists>b. owns s k b \<and> fb = (free_blocks s)[b := FREE])"
  shows "fs_wfx X
    (s\<lparr>freeinode_ts := (freeinode_ts s)[k := FREE], inode_table := (inode_table s)[k := n],
       free_blocks := fb\<rparr>)"
proof -
  define s' where "s' = s\<lparr>freeinode_ts := (freeinode_ts s)[k := FREE],
    inode_table := (inode_table s)[k := n], free_blocks := fb\<rparr>"
  note T = tables_okD [OF wfx_tables [OF wf]]
  have other: "i \<noteq> k \<Longrightarrow> taken_inode s' i = taken_inode s i"
      "i \<noteq> k \<Longrightarrow> inode_table s' ! i = inode_table s ! i" for i
    by (simp_all add: s'_def taken_inode_def)
  have nk: "\<not> taken_inode s' k"
    using k T by (auto simp: s'_def taken_inode_def)
  have sel: "fs_params s' = fs_params s" "dents s' = dents s" "block_of s' b = block_of s b"
      "open_file_table s' = open_file_table s"
      "free_open_file_entries s' = free_open_file_entries s" for b
    by (simp_all add: s'_def)
  have "fs_wfx (insert k X) s'"
  proof (rule wfx_change [OF wf])
    show "tables_ok s'" using wf fb by (auto simp: s'_def fs_wfx_def tables_ok_def)
    show "dir_ok s'" using wf sel(2) other(1) disjI2 [OF unused(1)] by (rule dir_ok_same)
    show "handles_ok s'"
      by (rule handles_ok_same [where k = k, OF wf sel(4,5,1)]) (use other unused in auto)
    show "free_blocks s' ! b = TAKEN" if "i \<noteq> k" "owns s i b" for i b
    proof -
      have "b' \<noteq> b" if "owns s k b'" for b'
        using owns_inj [OF wf \<open>owns s i b\<close>, of k] that \<open>i \<noteq> k\<close> by auto
      then show ?thesis
        using fb owns_block(2) [OF wf that(2)] by (auto simp: s'_def)
    qed
  qed (use other sel nk k in \<open>auto simp: nlinks_def owns_def\<close>)
  then have "fs_wfx X s'"
    by (rule wfx_settle) (simp add: nk)
  then show ?thesis by (simp add: s'_def)
qed

text \<open>Marking a free block as taken: nobody holds it yet.\<close>

lemma wfx_alloc_block:
  assumes wf: "fs_wfx X s" and b: "free_blocks s ! b = FREE"
  shows "fs_wfx X (s\<lparr>free_blocks := (free_blocks s)[b := TAKEN]\<rparr>)" (is "fs_wfx X ?s")
    and "\<not> owns (s\<lparr>free_blocks := (free_blocks s)[b := TAKEN]\<rparr>) i b"
proof -
  note T = tables_okD [OF wfx_tables [OF wf]]
  have views: "taken_inode ?s = taken_inode s" "owns ?s = owns s" "live_handle ?s = live_handle s"
      "nlinks ?s = nlinks s"
    by (auto simp: fun_eq_iff taken_inode_def owns_def live_handle_def nlinks_def)
  have "blocks_ok ?s"
    using wf owns_block [OF wf] T
    by (auto simp: fs_wfx_def blocks_ok_def views nth_list_update_if)
  then show "fs_wfx X ?s"
    using wf by (auto simp: fs_wfx_def views tables_ok_def root_ok_def root_dir_def nodes_ok_def
        node_ok_def dir_ok_def entry_ok_def handles_ok_def handle_ok_def links_ok_def target_ok_def)
  show "\<not> owns ?s i b"
    using owns_block [OF wf, of i b] b by (auto simp: views)
qed

lemma wfx_free_block:
  assumes wf: "fs_wfx X s" and b: "\<And>i. \<not> owns s i b"
  shows "fs_wfx X (s\<lparr>free_blocks := (free_blocks s)[b := FREE]\<rparr>)" (is "fs_wfx X ?s")
proof -
  have views: "taken_inode ?s = taken_inode s" "owns ?s = owns s" "live_handle ?s = live_handle s"
      "nlinks ?s = nlinks s"
    by (auto simp: fun_eq_iff taken_inode_def owns_def live_handle_def nlinks_def)
  have "b \<noteq> c" if "owns s i c" for i c
    using b that by auto
  then have "blocks_ok ?s"
    using wf owns_block [OF wf] by (auto simp: fs_wfx_def blocks_ok_def views)
  then show ?thesis
    using wf by (auto simp: fs_wfx_def views tables_ok_def root_ok_def root_dir_def nodes_ok_def
        node_ok_def dir_ok_def entry_ok_def handles_ok_def handle_ok_def links_ok_def target_ok_def)
qed

text \<open>Assigning to the fields of one inode, its type apart.\<close>

lemma wfx_set_node:
  assumes wf: "fs_wfx X s" and k: "taken_inode s k" "k \<noteq> 0"
    and n: "node_ok s n" "i_node_type n = i_node_type (inode_table s ! k)"
    and own: "\<And>b. i_data_block n = int b \<Longrightarrow> 0 < i_size n \<or> i_node_type n = T_SYM_LINK \<Longrightarrow>
      b < DATA_BLOCKS s \<and> free_blocks s ! b = TAKEN \<and> (\<forall>i. i \<noteq> k \<longrightarrow> \<not> owns s i b)"
  shows "fs_wfx (insert k X) (s\<lparr>inode_table := (inode_table s)[k := n]\<rparr>)" (is "fs_wfx _ ?s")
proof (rule wfx_change [OF wf])
  note T = tables_okD [OF wfx_tables [OF wf]]
  have other: "taken_inode ?s i = taken_inode s i"
      "i \<noteq> k \<Longrightarrow> inode_table ?s ! i = inode_table s ! i" for i
    by (simp_all add: taken_inode_def)
  have nk: "inode_table ?s ! k = n"
    using k T by (simp add: taken_inode_def)
  show "tables_ok ?s" using wf by (simp add: fs_wfx_def tables_ok_def)
  show "dir_ok ?s"
    by (rule dir_ok_same [where k = k, OF wf]) (use other k in auto)
  show "handles_ok ?s"
    by (rule handles_ok_same [where k = k, OF wf]) (use other k nk n in auto)
  show "b < DATA_BLOCKS s \<and> free_blocks ?s ! b = TAKEN \<and> (\<forall>i. i \<noteq> k \<longrightarrow> \<not> owns s i b)"
    if "owns ?s k b" for b
    using that own [of b] nk by (simp add: owns_def)
  show "node_ok s (inode_table ?s ! k)"
    using n nk by simp
  show "i \<noteq> k \<Longrightarrow> inode_table ?s ! i = inode_table s ! i" for i
    by simp
  show "owns s i b \<Longrightarrow> free_blocks ?s ! b = TAKEN" for i b
    using owns_block [OF wf] by simp
  show "nlinks ?s i = nlinks s i" for i
    by (simp add: nlinks_def)
qed (use k in \<open>simp_all add: taken_inode_def\<close>)

text \<open>Writing bytes into a block that no symbolic link (but those of \<open>X\<close>) holds.\<close>

lemma wfx_patch:
  assumes wf: "fs_wfx X s" and b: "b < DATA_BLOCKS s" "b \<noteq> 0" and fits: "off + length bs \<le> BLOCK_SIZE s"
    and own: "\<And>i. owns s i b \<Longrightarrow> i \<notin> X \<Longrightarrow> i_node_type (inode_table s ! i) \<noteq> T_SYM_LINK"
  shows "fs_wfx X (s\<lparr>fs_data := patch (fs_data s) (b * BLOCK_SIZE s + off) bs\<rparr>)"
proof -
  define s' where "s' = s\<lparr>fs_data := patch (fs_data s) (b * BLOCK_SIZE s + off) bs\<rparr>"
  have sel: "fs_params s' = fs_params s" "inode_table s' = inode_table s"
      "open_file_table s' = open_file_table s" "free_blocks s' = free_blocks s"
    by (simp_all add: s'_def)
  note T = tables_okD [OF wfx_tables [OF wf]]
  have views: "taken_inode s' = taken_inode s" "owns s' = owns s" "live_handle s' = live_handle s"
    by (auto simp: s'_def fun_eq_iff taken_inode_def owns_def live_handle_def)
  have blk: "block_of s' c = block_of s c" if "c \<noteq> b" "c < DATA_BLOCKS s" for c
    using block_of_patch [OF wfx_tables [OF wf] b(1) fits that(2)] that(1) by (simp add: s'_def)
  then have D: "dents s' = dents s"
    using b T by (intro dents_same) (auto simp: sel)
  have "length (patch (fs_data s) (b * BLOCK_SIZE s + off) bs) = length (fs_data s)"
    using block_end_le [OF wfx_tables [OF wf] b(1)] fits by simp
  then have "tables_ok s'"
    using wf by (simp add: fs_wfx_def tables_ok_def s'_def)
  moreover have "target_ok s' i" if ok: "target_ok s i" and "i \<notin> X" for i
    unfolding target_ok_def
  proof
    assume "i_node_type (inode_table s' ! i) = T_SYM_LINK"
    then have sym: "i_node_type (inode_table s ! i) = T_SYM_LINK"
      by (simp add: sel)
    then obtain c where c: "owns s i c" "NUL \<in> set (block_of s c)"
        "valid_pathname (Some (cstr (block_of s c)))"
      using ok by (auto simp: target_ok_def)
    then have "block_of s' c = block_of s c"
      using own [OF _ \<open>i \<notin> X\<close>] sym by (intro blk owns_block(1) [OF wf c(1)]) auto
    then show "\<exists>c. owns s' i c \<and> NUL \<in> set (block_of s' c) \<and>
        valid_pathname (Some (cstr (block_of s' c)))"
      using c views(2) by metis
  qed
  then have "links_ok X s'"
    using wf by (simp add: fs_wfx_def links_ok_def views nlinks_def D sel)
  ultimately have "fs_wfx X s'"
    using wf by (auto simp: fs_wfx_def views D sel root_ok_def root_dir_def blocks_ok_def nodes_ok_def
        node_ok_def dir_ok_def entry_ok_def handles_ok_def handle_ok_def)
  then show ?thesis by (simp add: s'_def)
qed

text \<open>Changing the open file table only.\<close>

lemma wfx_set_handles:
  assumes "fs_wfx X s" and "length t = MAX_OPEN_FILES s" and "length a = MAX_OPEN_FILES s"
    and "\<And>f. f < MAX_OPEN_FILES s \<Longrightarrow> a ! f = TAKEN \<Longrightarrow> handle_ok s (t ! f)"
  shows "fs_wfx X (s\<lparr>open_file_table := t, free_open_file_entries := a\<rparr>)" (is "fs_wfx X ?s")
proof -
  have views: "taken_inode ?s = taken_inode s" "owns ?s = owns s" "nlinks ?s = nlinks s"
    by (auto simp: fun_eq_iff taken_inode_def owns_def nlinks_def)
  have "handles_ok ?s"
    using assms(4) by (auto simp: handles_ok_def live_handle_def handle_ok_def views)
  then show ?thesis
    using assms(1-3) by (auto simp: fs_wfx_def views tables_ok_def root_ok_def root_dir_def
        blocks_ok_def nodes_ok_def node_ok_def dir_ok_def entry_ok_def links_ok_def target_ok_def)
qed

text \<open>Storing and clearing a directory entry. The counter of the inode named by it lags behind.\<close>

lemma count_entry:
  assumes "tables_ok s" and "j < MAX_DIR_ENTRIES s" and "length nm = 40"
    and "- (2 ^ 31) \<le> v" and "v < 2 ^ 31"
  shows "nlinks (set_entry j nm v s) i + (if snd (dents s ! j) = int i then 1 else 0) =
    nlinks s i + (if v = int i then 1 else 0)"
  using count_list_update [of j "map snd (dents s)" v "int i"] assms
  by (simp add: nlinks_def dents_set_entry map_update)

lemma wfx_set_entry:
  assumes wf: "fs_wfx X s" and j: "j < MAX_DIR_ENTRIES s" and nm: "length nm = 40"
    and v: "v = -1 \<or> v = int k" "snd (dents s ! j) = -1 \<or> snd (dents s ! j) = int k"
    and k: "taken_inode s k" "k \<noteq> 0"
    and dir: "entry_ok s (cstr nm, v)" "distinct_names ((dents s)[j := (cstr nm, v)])"
      "stale_ok ((dents s)[j := (cstr nm, v)])"
  shows "fs_wfx (insert k X) (set_entry j nm v s)" (is "fs_wfx _ ?s")
proof -
  note ok = wfx_tables [OF wf] and T = tables_okD [OF wfx_tables [OF wf]]
  have kr: "int k < 2 ^ 31"
    using k T by (simp add: taken_inode_def)
  then have range: "- (2 ^ 31) \<le> v" "v < 2 ^ 31"
    using v by auto
  have D: "dents ?s = (dents s)[j := (cstr nm, v)]"
    using dents_set_entry [OF ok j nm range] .
  have views: "taken_inode ?s = taken_inode s" "owns ?s = owns s" "live_handle ?s = live_handle s"
    by (auto simp: fun_eq_iff taken_inode_def owns_def live_handle_def)
  show ?thesis
  proof (rule wfx_change [OF wf])
    show "tables_ok ?s" using ok j nm by simp
    have "entry_ok ?s = entry_ok s"
      by (simp add: fun_eq_iff entry_ok_def views)
    then show "dir_ok ?s"
      using dir wfx_entry [OF wf] j by (auto simp: dir_ok_def D nth_list_update)
    show "handles_ok ?s"
      by (rule handles_ok_same [where k = k, OF wf]) (use k views in auto)
    show "block_of ?s b = block_of s b" if "i \<noteq> 0" "owns s i b" for i b
    proof -
      have "b \<noteq> 0"
        using owns_inj [OF wf that(2)] owns_zero [OF wf] that(1) by metis
      then show ?thesis
        using block_of_set_entry [OF ok j nm owns_block(1) [OF wf that(2)]] by simp
    qed
    show "nlinks ?s i = nlinks s i" if "i \<noteq> k" for i
      using count_entry [OF ok j nm range, of i] v that by (auto split: if_splits)
    show "b < DATA_BLOCKS s \<and> free_blocks ?s ! b = TAKEN \<and> (\<forall>i. i \<noteq> k \<longrightarrow> \<not> owns s i b)"
      if "owns ?s k b" for b
      using that owns_block [OF wf] owns_inj [OF wf] by (auto simp: views)
  qed (use k views owns_block [OF wf] wfx_node [OF wf] in auto)
qed

lemma live_index_None: "live_index D name = None \<longleftrightarrow> (\<forall>j<length D. snd (D ! j) \<noteq> -1 \<longrightarrow> fst (D ! j) \<noteq> name)"
  by (auto simp: live_index_def find_upt_None_iff)

lemma wfx_store_entry:
  assumes wf: "fs_wfx X s" and e: "empty_index (dents s) = Some j"
    and k: "taken_inode s k" "k \<noteq> 0"
    and name: "is_cstring name" "\<not> invalid_sub_name name" "live_index (dents s) name = None"
  shows "fs_wfx (insert k X) (set_entry j (name_bytes name) (int k) s)"
    and "nlinks (set_entry j (name_bytes name) (int k) s) i = nlinks s i + (if i = k then 1 else 0)"
proof -
  note ok = wfx_tables [OF wf] and T = tables_okD [OF wfx_tables [OF wf]]
  have len: "name \<noteq> []" "length name < MAX_FILE_NAME"
    using name(2) by (auto simp: invalid_sub_name_def MAX_FILE_NAME_def)
  have j: "j < MAX_DIR_ENTRIES s" "snd (dents s ! j) = -1" "\<And>i. i < j \<Longrightarrow> snd (dents s ! i) \<noteq> -1"
    using e by (auto simp: empty_index_def find_upt_Some_iff)
  have "distinct_names ((dents s)[j := (name, int k)])"
    using wf j name(3) by (auto simp: fs_wfx_def dir_ok_def distinct_names_def nth_list_update live_index_None)
  moreover have "stale_ok ((dents s)[j := (name, int k)])"
    using wf j by (auto simp: fs_wfx_def dir_ok_def stale_ok_def nth_list_update)
  ultimately show "fs_wfx (insert k X) (set_entry j (name_bytes name) (int k) s)"
    using wf j k len cstr_name_bytes [OF name(1,2)]
    by (intro wfx_set_entry) (auto simp: entry_ok_def)
  have "int k < 2 ^ 31"
    using k T by (simp add: taken_inode_def)
  then show "nlinks (set_entry j (name_bytes name) (int k) s) i = nlinks s i + (if i = k then 1 else 0)"
    using count_entry [OF ok j(1), of "name_bytes name" "int k" i] j(2) by simp
qed

lemma wfx_clear_entry:
  assumes wf: "fs_wfx X s" and j: "j < MAX_DIR_ENTRIES s" "snd (dents s ! j) = int k"
    and k: "taken_inode s k" "k \<noteq> 0"
  shows "fs_wfx (insert k X) (set_entry j (replicate 40 NUL) (-1) s)"
    and "nlinks (set_entry j (replicate 40 NUL) (-1) s) i = nlinks s i - (if i = k then 1 else 0)"
proof -
  note ok = wfx_tables [OF wf]
  have "distinct_names ((dents s)[j := ([], -1)])" "stale_ok ((dents s)[j := ([], -1)])"
    using wf j by (auto simp: fs_wfx_def dir_ok_def distinct_names_def stale_ok_def nth_list_update)
  then show "fs_wfx (insert k X) (set_entry j (replicate 40 NUL) (-1) s)"
    using wf j k by (intro wfx_set_entry) (auto simp: entry_ok_def)
  show "nlinks (set_entry j (replicate 40 NUL) (-1) s) i = nlinks s i - (if i = k then 1 else 0)"
    using count_entry [OF ok j(1), of "replicate 40 NUL" "-1" i] j(2) by auto
qed

end
