(* ===== verification/FS_Exec.thy ===== *)
theory FS_Exec
  imports FS_Inv
begin

text \<open>
  What the functions of \<^verbatim>\<open>state.c\<close> do in a consistent state: one equation per function, with the
  exact result, the exact new state and the exact lock events. The names of the elementary state
  changes (\<open>claim_inode\<close>, \<open>drop_inode\<close>, \<dots>) are those whose effect on the invariant \<^verbatim>\<open>FS_Inv\<close> gives.
\<close>

section \<open>Elementary changes by name\<close>

definition claim_inode :: "nat \<Rightarrow> inode_type \<Rightarrow> fs_state \<Rightarrow> fs_state" where
  "claim_inode k ty s = s\<lparr>freeinode_ts := (freeinode_ts s)[k := TAKEN],
     inode_table := (inode_table s)[k := \<lparr>i_node_type = ty, i_size = 0, i_data_block = -1, i_hard_links = 1\<rparr>]\<rparr>"

definition block_number :: "fs_state \<Rightarrow> nat \<Rightarrow> nat" where
  "block_number s k = nat (i_data_block (inode_table s ! k))"

definition drop_inode :: "nat \<Rightarrow> fs_state \<Rightarrow> fs_state" where
  "drop_inode k s = s\<lparr>freeinode_ts := (freeinode_ts s)[k := FREE],
     inode_table := (inode_table s)[k := (inode_table s ! k)\<lparr>i_size := 0, i_data_block := -1, i_hard_links := 1\<rparr>],
     free_blocks := (if 0 < i_size (inode_table s ! k) then (free_blocks s)[block_number s k := FREE]
       else free_blocks s)\<rparr>"

definition set_node :: "nat \<Rightarrow> inode_t \<Rightarrow> fs_state \<Rightarrow> fs_state" where
  "set_node k n s = s\<lparr>inode_table := (inode_table s)[k := n]\<rparr>"

definition set_block :: "nat \<Rightarrow> allocation_state_t \<Rightarrow> fs_state \<Rightarrow> fs_state" where
  "set_block b st s = s\<lparr>free_blocks := (free_blocks s)[b := st]\<rparr>"

definition put_bytes :: "nat \<Rightarrow> nat \<Rightarrow> mem \<Rightarrow> fs_state \<Rightarrow> fs_state" where
  "put_bytes b off bs s = s\<lparr>fs_data := patch (fs_data s) (b * BLOCK_SIZE s + off) bs\<rparr>"

definition set_handle :: "nat \<Rightarrow> open_file_entry_t \<Rightarrow> allocation_state_t \<Rightarrow> fs_state \<Rightarrow> fs_state" where
  "set_handle f e st s = s\<lparr>open_file_table := (open_file_table s)[f := e],
     free_open_file_entries := (free_open_file_entries s)[f := st]\<rparr>"

lemmas change_defs = claim_inode_def drop_inode_def set_node_def set_block_def put_bytes_def set_handle_def

lemma block_number_traced [simp]: "block_number (traced t s) k = block_number s k"
  by (simp add: block_number_def)

lemma changes_traced [simp]:
  "claim_inode k ty (traced t s) = traced t (claim_inode k ty s)"
  "drop_inode k (traced t s) = traced t (drop_inode k s)"
  "set_node k n (traced t s) = traced t (set_node k n s)"
  "set_block b st (traced t s) = traced t (set_block b st s)"
  "put_bytes b off bs (traced t s) = traced t (put_bytes b off bs s)"
  "set_handle f e st (traced t s) = traced t (set_handle f e st s)"
  "set_entry j nm v (traced t s) = traced t (set_entry j nm v s)"
  by (simp_all add: change_defs set_entry_def)

lemma changes_select [simp]:
  "lock_trace (claim_inode k ty s) = lock_trace s"
  "lock_trace (drop_inode k s) = lock_trace s"
  "lock_trace (set_node k n s) = lock_trace s"
  "lock_trace (set_block b st s) = lock_trace s"
  "lock_trace (put_bytes b off bs s) = lock_trace s"
  "lock_trace (set_handle f e st s) = lock_trace s"
  "fs_params (claim_inode k ty s) = fs_params s"
  "inode_table_set (claim_inode k ty s) = inode_table_set s"
  "fs_data (claim_inode k ty s) = fs_data s"
  "free_blocks (claim_inode k ty s) = free_blocks s"
  "open_file_table (claim_inode k ty s) = open_file_table s"
  "free_open_file_entries (claim_inode k ty s) = free_open_file_entries s"
  "fs_params (drop_inode k s) = fs_params s"
  "inode_table_set (drop_inode k s) = inode_table_set s"
  "fs_data (drop_inode k s) = fs_data s"
  "open_file_table (drop_inode k s) = open_file_table s"
  "free_open_file_entries (drop_inode k s) = free_open_file_entries s"
  "fs_params (set_node k n s) = fs_params s"
  "inode_table_set (set_node k n s) = inode_table_set s"
  "freeinode_ts (set_node k n s) = freeinode_ts s"
  "fs_data (set_node k n s) = fs_data s"
  "free_blocks (set_node k n s) = free_blocks s"
  "open_file_table (set_node k n s) = open_file_table s"
  "free_open_file_entries (set_node k n s) = free_open_file_entries s"
  "fs_params (set_block b st s) = fs_params s"
  "inode_table_set (set_block b st s) = inode_table_set s"
  "inode_table (set_block b st s) = inode_table s"
  "freeinode_ts (set_block b st s) = freeinode_ts s"
  "fs_data (set_block b st s) = fs_data s"
  "open_file_table (set_block b st s) = open_file_table s"
  "free_open_file_entries (set_block b st s) = free_open_file_entries s"
  "fs_params (put_bytes b off bs s) = fs_params s"
  "inode_table_set (put_bytes b off bs s) = inode_table_set s"
  "inode_table (put_bytes b off bs s) = inode_table s"
  "freeinode_ts (put_bytes b off bs s) = freeinode_ts s"
  "free_blocks (put_bytes b off bs s) = free_blocks s"
  "open_file_table (put_bytes b off bs s) = open_file_table s"
  "free_open_file_entries (put_bytes b off bs s) = free_open_file_entries s"
  "fs_params (set_handle f e st s) = fs_params s"
  "inode_table_set (set_handle f e st s) = inode_table_set s"
  "inode_table (set_handle f e st s) = inode_table s"
  "freeinode_ts (set_handle f e st s) = freeinode_ts s"
  "fs_data (set_handle f e st s) = fs_data s"
  "free_blocks (set_handle f e st s) = free_blocks s"
  "inode_table (set_node k n s) = (inode_table s)[k := n]"
  "free_blocks (set_block b st s) = (free_blocks s)[b := st]"
  "open_file_table (set_handle f e st s) = (open_file_table s)[f := e]"
  "free_open_file_entries (set_handle f e st s) = (free_open_file_entries s)[f := st]"
  by (simp_all add: change_defs)

section \<open>Inodes\<close>

lemma owned_block:
  assumes "fs_wfx X s" and "owns s k b"
  shows "i_data_block (inode_table s ! k) = int b" and "block_number s k = b"
    and "b < max_block_count (fs_params s)"
  using assms owns_block [OF assms] by (auto simp: owns_def block_number_def)

lemma inode_create_eq:
  assumes "tables_ok s" and "ty \<noteq> T_DIRECTORY"
  shows "inode_create ty s = Inr (case first_free (freeinode_ts s) of
      None \<Rightarrow> (-1, traced freeinode_trace s)
    | Some k \<Rightarrow> (int k, traced freeinode_trace (claim_inode k ty s)))"
proof (cases "first_free (freeinode_ts s)")
  case None
  then show ?thesis
    using assms by (simp add: inode_create_def inode_alloc_eq)
next
  case (Some k)
  then have "k < length (inode_table s)"
    using tables_okD [OF assms(1)] by (simp add: first_free_Some)
  moreover have fresh: "n\<lparr>i_node_type := u, i_size := 0, i_data_block := -1, i_hard_links := Suc 0\<rparr> =
      \<lparr>i_node_type = u, i_size = 0, i_data_block = -1, i_hard_links = Suc 0\<rparr>" for n u
    by simp
  ultimately show ?thesis
    using Some assms
    by (cases ty) (simp_all add: inode_create_def inode_alloc_eq inode_update_eq claim_inode_def fresh)
qed

definition delete_trace :: "nat \<Rightarrow> fs_state \<Rightarrow> lock_event list" where
  "delete_trace k s = [Acquire_wr freeinode_ts_lock, Acquire_wr (Inode_lock, k)] @
     (if 0 < i_size (inode_table s ! k) then blocks_trace else []) @
     [Release (Inode_lock, k), Release freeinode_ts_lock]"

lemma inode_delete_eq:
  assumes "fs_wfx X s" and "taken_inode s k"
  shows "inode_delete (int k) s = Inr (traced (delete_trace k s) (drop_inode k s))"
proof -
  have T: "tables_ok s" using wfx_tables [OF assms(1)] .
  have k: "k < length (inode_table s)" "k < length (freeinode_ts s)" "freeinode_ts s ! k = TAKEN"
      "valid_inumber s (int k)"
    using assms(2) tables_okD [OF T] by (simp_all add: taken_inode_def valid_inumber_def)
  show ?thesis
  proof (cases "0 < i_size (inode_table s ! k)")
    case True
    then obtain b where "owns s k b" using nonempty_file_owns [OF assms] by blast
    then show ?thesis
      using True k T owned_block [OF assms(1) \<open>owns s k b\<close>]
      by (simp add: inode_delete_def inode_at_eq inode_update_eq data_block_free_eq drop_inode_def delete_trace_def)
  next
    case False
    then show ?thesis
      using k T by (simp add: inode_delete_def inode_at_eq inode_update_eq drop_inode_def delete_trace_def)
  qed
qed

section \<open>Open files\<close>

lemma is_file_open_eq:
  assumes "tables_ok s" and "i < INODE_TABLE_SIZE s"
  shows "is_file_open (int i) s = Inr (has_handle s i)"
proof -
  let ?p = "\<lambda>f. free_open_file_entries s ! f = TAKEN \<and> of_inumber (open_file_table s ! f) = int i"
  have "for_find (\<lambda>f. bindR (arr_get (free_open_file_entries s) f) (\<lambda>st.
      if st = TAKEN then bindR (arr_get (open_file_table s) f) (\<lambda>e. Inr (of_inumber e = int i))
      else Inr False)) 0 (MAX_OPEN_FILES s) = Inr (List.find ?p [0..<MAX_OPEN_FILES s])"
    using tables_okD [OF assms(1)] by (intro for_find_find) simp
  moreover have "List.find ?p [0..<MAX_OPEN_FILES s] \<noteq> None \<longleftrightarrow> has_handle s i"
    unfolding find_upt_None_iff has_handle_def live_handle_def by blast
  ultimately show ?thesis
    using assms(2) by (simp add: is_file_open_def valid_inumber_def)
qed

lemma get_open_file_entry_eq:
  assumes "tables_ok s"
  shows "get_open_file_entry h s = Inr (if 0 \<le> h \<and> live_handle s (nat h) then Some (nat h) else None)"
  using tables_okD [OF assms]
  by (auto simp: get_open_file_entry_def valid_file_handle_def live_handle_def)

definition add_trace :: "nat option \<Rightarrow> lock_event list" where
  "add_trace r = [Acquire_wr free_open_file_entries_mutex] @
     (case r of None \<Rightarrow> [] | Some f \<Rightarrow> [Acquire_wr (Open_file_mutex, f), Release (Open_file_mutex, f)]) @
     [Release free_open_file_entries_mutex]"

lemma add_to_open_file_table_eq:
  assumes "tables_ok s" and "taken_inode s i"
  shows "add_to_open_file_table (int i) off s =
    (let r = first_free (free_open_file_entries s) in
     Inr (case r of
        None \<Rightarrow> (-1, traced (add_trace r) s)
      | Some f \<Rightarrow> (int f, traced (add_trace r) (set_handle f \<lparr>of_inumber = int i, of_offset = off\<rparr> TAKEN s))))"
proof -
  have i: "valid_inumber s (int i)" "i < length (freeinode_ts s)" "freeinode_ts s ! i = TAKEN"
    using assms(2) tables_okD [OF assms(1)] by (simp_all add: taken_inode_def valid_inumber_def)
  have "f < length (open_file_table s)" if "first_free (free_open_file_entries s) = Some f" for f
    using that tables_okD [OF assms(1)] by (simp add: first_free_Some)
  then show ?thesis
    using i tables_okD [OF assms(1)]
    by (auto simp: add_to_open_file_table_def scan_first_free Let_def add_trace_def set_handle_def
        split: option.split)
qed

lemma wfx_set_handle:
  assumes "fs_wfx X s" and "st = TAKEN \<Longrightarrow> handle_ok s e"
  shows "fs_wfx X (set_handle f e st s)"
  unfolding set_handle_def
proof (rule wfx_set_handles [OF assms(1)])
  note T = tables_okD [OF wfx_tables [OF assms(1)]]
  show "length ((open_file_table s)[f := e]) = MAX_OPEN_FILES s"
    and "length ((free_open_file_entries s)[f := st]) = MAX_OPEN_FILES s"
    using T by simp_all
  fix g
  assume "g < MAX_OPEN_FILES s" and "(free_open_file_entries s)[f := st] ! g = TAKEN"
  then show "handle_ok s ((open_file_table s)[f := e] ! g)"
    using T assms(2) wfx_handle [OF assms(1), of g]
    by (cases "g = f") (auto simp: live_handle_def)
qed

definition handle_inode :: "fs_state \<Rightarrow> nat \<Rightarrow> nat" where
  "handle_inode s f = nat (of_inumber (open_file_table s ! f))"

lemma handle_inode_traced [simp]: "handle_inode (traced t s) f = handle_inode s f"
  by (simp add: handle_inode_def)

lemma live_handle_facts:
  assumes "fs_wfx X s" and "live_handle s f"
  shows "of_inumber (open_file_table s ! f) = int (handle_inode s f)"
    and "handle_inode s f \<noteq> 0" and "taken_inode s (handle_inode s f)"
    and "i_node_type (inode_table s ! handle_inode s f) = T_FILE"
    and "of_offset (open_file_table s ! f) \<le> BLOCK_SIZE s"
    and "f < length (open_file_table s)" and "f < length (free_open_file_entries s)"
    and "free_open_file_entries s ! f = TAKEN"
    and "handle_inode s f < length (inode_table s)" and "handle_inode s f < length (freeinode_ts s)"
    and "freeinode_ts s ! handle_inode s f = TAKEN"
    and "handle_inode s f < max_inode_count (fs_params s)"
proof -
  note T = tables_okD [OF wfx_tables [OF assms(1)]]
  show *: "of_inumber (open_file_table s ! f) = int (handle_inode s f)" "handle_inode s f \<noteq> 0"
      "taken_inode s (handle_inode s f)" "i_node_type (inode_table s ! handle_inode s f) = T_FILE"
      "of_offset (open_file_table s ! f) \<le> BLOCK_SIZE s"
    using wfx_handle [OF assms] by (auto simp: handle_ok_def handle_inode_def)
  show "f < length (open_file_table s)" "f < length (free_open_file_entries s)"
      "free_open_file_entries s ! f = TAKEN"
    using assms(2) T by (auto simp: live_handle_def)
  show "handle_inode s f < length (inode_table s)" "handle_inode s f < length (freeinode_ts s)"
      "freeinode_ts s ! handle_inode s f = TAKEN" "handle_inode s f < max_inode_count (fs_params s)"
    using *(3) T by (auto simp: taken_inode_def)
qed

text \<open>Closing a handle: the entry is freed, and an unlinked inode without other handles with it.\<close>

definition closed :: "nat \<Rightarrow> fs_state \<Rightarrow> fs_state" where
  "closed f s = set_handle f (open_file_table s ! f) FREE s"

definition reclaim :: "nat \<Rightarrow> fs_state \<Rightarrow> bool" where
  "reclaim k s \<longleftrightarrow> i_hard_links (inode_table s ! k) = 0 \<and> \<not> has_handle s k"

definition close_trace :: "nat \<Rightarrow> nat \<Rightarrow> fs_state \<Rightarrow> lock_event list" where
  "close_trace f k s = [Acquire_wr free_open_file_entries_mutex, Acquire_wr (Open_file_mutex, f),
       Acquire_rd (Inode_lock, k), Release (Inode_lock, k)] @
     (if reclaim k s then delete_trace k s else []) @
     [Release (Open_file_mutex, f), Release free_open_file_entries_mutex]"

lemma reclaim_traced [simp]: "reclaim k (traced t s) = reclaim k s"
  by (simp add: reclaim_def)

lemma delete_trace_traced [simp]: "delete_trace k (traced t s) = delete_trace k s"
  by (simp add: delete_trace_def)

lemma remove_from_open_file_table_eq:
  assumes wf: "fs_wfx X s" and f: "live_handle s f"
  shows "remove_from_open_file_table (int f) s =
    (let k = handle_inode s f; s1 = closed f s in
     Inr (0, traced (close_trace f k s1) (if reclaim k s1 then drop_inode k s1 else s1)))"
proof -
  note F = live_handle_facts [OF wf f]
  have wf1: "fs_wfx X (closed f s)"
    unfolding closed_def by (rule wfx_set_handle [OF wf]) simp
  have eq: "s\<lparr>free_open_file_entries := (free_open_file_entries s)[f := FREE]\<rparr> = closed f s"
    by (simp add: closed_def set_handle_def)
  have tk: "taken_inode (closed f s) (handle_inode s f)"
    using F(3) by (simp add: closed_def taken_inode_def)
  have sel: "fs_params (closed f s) = fs_params s" "inode_table (closed f s) = inode_table s"
    by (simp_all add: closed_def)
  show ?thesis
    using F f wfx_tables [OF wf] wfx_tables [OF wf1] inode_delete_eq [OF wf1 tk] tk
    by (simp add: remove_from_open_file_table_def get_open_file_entry_eq valid_file_content_def
        valid_inumber_def valid_file_handle_def live_handle_def eq inode_get_eq inode_at_eq sel Let_def
        is_file_open_eq reclaim_def close_trace_def inode_delete_eq [where X = X] wf1)
qed

section \<open>Reading and writing\<close>

text \<open>The bytes of an inode's file, and the offset a handle really works at.\<close>

definition content :: "fs_state \<Rightarrow> nat \<Rightarrow> mem" where
  "content s k = take (i_size (inode_table s ! k)) (block_of s (block_number s k))"

definition cur_offset :: "fs_state \<Rightarrow> nat \<Rightarrow> nat" where
  "cur_offset s f = min (of_offset (open_file_table s ! f)) (i_size (inode_table s ! handle_inode s f))"

definition seek :: "nat \<Rightarrow> nat \<Rightarrow> fs_state \<Rightarrow> fs_state" where
  "seek f off s = set_handle f ((open_file_table s ! f)\<lparr>of_offset := off\<rparr>) TAKEN s"

lemma seek_traced [simp]: "seek f off (traced t s) = traced t (seek f off s)"
  by (simp add: seek_def)

lemma set_of_offset_seek: "live_handle s f \<Longrightarrow> set_of_offset f off s = seek f off s"
proof -
  assume "live_handle s f"
  then have "(free_open_file_entries s)[f := TAKEN] = free_open_file_entries s"
    by (metis list_update_id live_handle_def)
  then show ?thesis
    by (simp add: set_of_offset_def seek_def set_handle_def)
qed

lemma seek_select [simp]:
  "fs_params (seek f off s) = fs_params s"
  "inode_table (seek f off s) = inode_table s"
  "freeinode_ts (seek f off s) = freeinode_ts s"
  "fs_data (seek f off s) = fs_data s"
  "free_blocks (seek f off s) = free_blocks s"
  "lock_trace (seek f off s) = lock_trace s"
  by (simp_all add: seek_def)

lemma seek_entries: "live_handle s f \<Longrightarrow> free_open_file_entries (seek f off s) = free_open_file_entries s"
  by (simp add: seek_def) (metis list_update_id live_handle_def)

lemma seek_live: "live_handle s f \<Longrightarrow> live_handle (seek f off s) g = live_handle s g"
  by (simp add: live_handle_def seek_entries)

lemma seek_seek [simp]: "f < length (open_file_table s) \<Longrightarrow> seek f off (seek f off' s) = seek f off s"
  by (simp add: seek_def set_handle_def)

lemma wfx_seek: "fs_wfx X s \<Longrightarrow> live_handle s f \<Longrightarrow> off \<le> BLOCK_SIZE s \<Longrightarrow> fs_wfx X (seek f off s)"
  unfolding seek_def using wfx_handle [of X s f] by (intro wfx_set_handle) (auto simp: handle_ok_def)

lemma file_size_le:
  "fs_wfx X s \<Longrightarrow> live_handle s f \<Longrightarrow> i_size (inode_table s ! handle_inode s f) \<le> BLOCK_SIZE s"
  using wfx_node [of X s "handle_inode s f"] live_handle_facts(2,3) [of X s f] by (simp add: node_ok_def)

definition file_trace :: "nat \<Rightarrow> lock_event \<Rightarrow> lock_id \<Rightarrow> lock_event list \<Rightarrow> lock_event list" where
  "file_trace f a l t = Acquire_wr (Open_file_mutex, f) # a # t @ [Release l, Release (Open_file_mutex, f)]"

lemma read_from_open_file_eq:
  assumes wf: "fs_wfx X s" and f: "live_handle s f"
    and buf: "len \<le> length buf"
  defines "k \<equiv> handle_inode s f" and "off \<equiv> cur_offset s f"
  shows "read_from_open_file (int f) (Some buf) len s =
    (let bs = take len (drop off (content s k)) in
     Inr (int (length bs), Some (patch buf 0 bs),
          traced (file_trace f (Acquire_rd (Inode_lock, k)) (Inode_lock, k) []) (seek f (off + length bs) s)))"
proof -
  note F = live_handle_facts [OF wf f]
  have T: "tables_ok s" using wfx_tables [OF wf] .
  have off: "off = (if i_size (inode_table s ! k) < of_offset (open_file_table s ! f)
      then i_size (inode_table s ! k) else of_offset (open_file_table s ! f))"
    by (simp add: off_def k_def cur_offset_def)
  define cnt where "cnt = (if len < i_size (inode_table s ! k) - off then len
      else i_size (inode_table s ! k) - off)"
  have size: "i_size (inode_table s ! k) \<le> BLOCK_SIZE s" and offle: "off \<le> i_size (inode_table s ! k)"
    using file_size_le [OF wf f] by (simp_all add: k_def off_def cur_offset_def)
  show ?thesis
  proof (cases "0 < cnt")
    case True
    then have "0 < i_size (inode_table s ! k)" by (auto simp: cnt_def split: if_splits)
    then obtain b where b: "owns s k b"
      using nonempty_file_owns [OF wf F(3)] by (auto simp: k_def)
    note B = owned_block [OF wf b]
    have cs: "off + cnt \<le> i_size (inode_table s ! k)" "cnt \<le> len"
      using offle by (auto simp: cnt_def)
    have blk: "take len (drop off (content s k)) = slice (fs_data s) (b * block_size (fs_params s) + off) cnt"
      using cs size offle unfolding content_def B(2) block_of_def slice_def
      by (simp add: cnt_def drop_take min_def add.commute)
    have fits: "b * block_size (fs_params s) + off + cnt \<le> length (fs_data s)"
      using block_end_le [OF T, of b] B(3) cs size by simp
    show ?thesis
      using F f T B buf cs fits True blk
      by (simp add: read_from_open_file_def get_open_file_entry_eq inode_get_eq inode_at_eq off [symmetric]
          k_def [symmetric] cnt_def [symmetric] data_block_get_eq set_of_offset_seek seek_live Let_def
          file_trace_def split del: if_split cong: if_cong)
  next
    case False
    then have nil: "take len (drop off (content s k)) = []"
      using offle unfolding content_def by (auto simp: cnt_def split: if_splits)
    show ?thesis
      using F f T False unfolding nil
      by (simp add: read_from_open_file_def get_open_file_entry_eq inode_get_eq inode_at_eq off [symmetric]
          k_def [symmetric] cnt_def [symmetric] set_of_offset_seek Let_def file_trace_def
          split del: if_split cong: if_cong)
  qed
qed

text \<open>
  The same for a write: \<open>bs\<close> are the bytes that fit, \<open>b\<close> the block they go to, \<open>s1\<close> the state in which
  the inode holds it.
\<close>

definition grown :: "inode_t \<Rightarrow> nat \<Rightarrow> inode_t" where
  "grown n sz = (if i_size n < sz then n\<lparr>i_size := sz\<rparr> else n)"

definition stored :: "nat \<Rightarrow> nat \<Rightarrow> nat \<Rightarrow> nat \<Rightarrow> mem \<Rightarrow> fs_state \<Rightarrow> fs_state" where
  "stored f k b off bs s =
     set_node k (grown (inode_table s ! k) (off + length bs))
       (seek f (off + length bs) (put_bytes b off bs s))"

lemma stored_traced [simp]: "stored f k b off bs (traced t s) = traced t (stored f k b off bs s)"
  by (simp add: stored_def)

lemma size_sub_small:
  assumes "b \<le> a" and "a < 2 ^ 63"
  shows "size_sub a b = a - b"
proof -
  have "a + (SIZE_MOD - b) = (a - b) + SIZE_MOD" and "a - b < SIZE_MOD" and "b < SIZE_MOD"
    using assms by simp_all
  then show ?thesis
    by (simp only: size_sub_def mod_less mod_add_self2)
qed

lemma put_bytes_live [simp]: "live_handle (put_bytes b off bs s) = live_handle s"
  by (simp add: fun_eq_iff live_handle_def)

lemma write_block_eq:
  assumes T: "tables_ok s" and f: "live_handle s f" and k: "k < length (inode_table s)"
    and b: "i_data_block (inode_table s ! k) = int b" "b < DATA_BLOCKS s"
    and fits: "off + n \<le> BLOCK_SIZE s" and n: "n \<le> length buffer"
  shows "write_block f (int k) off buffer n s =
    Inr (stored f k b off (take n buffer) s)"
proof -
  have fit: "b * block_size (fs_params s) + off + n \<le> length (fs_data s)"
    using block_end_le [OF T b(2)] fits by simp
  have bs: "slice buffer 0 n = take n buffer"
    by (simp add: slice_def)
  have eq: "s\<lparr>fs_data := patch (fs_data s) (b * block_size (fs_params s) + off) (take n buffer)\<rparr> =
      put_bytes b off (take n buffer) s"
    by (simp add: put_bytes_def)
  show ?thesis
    using f k b n fit
    by (simp add: write_block_def inode_at_eq data_block_get_eq bs eq set_of_offset_seek Let_def
        inode_update_eq grown_def set_node_def stored_def)
qed

lemma write_to_open_file_eq:
  assumes wf: "fs_wfx X s" and f: "live_handle s f" and n: "to_write \<le> length buf" "to_write < 2 ^ 63"
  defines "k \<equiv> handle_inode s f" and "off \<equiv> cur_offset s f"
  defines "bs \<equiv> take (min to_write (BLOCK_SIZE s - off)) buf"
    and "tr \<equiv> file_trace f (Acquire_wr (Inode_lock, k)) (Inode_lock, k)"
  shows "write_to_open_file (int f) (Some buf) to_write s = Inr (
     if bs = [] then (0, traced (tr []) (seek f off s))
     else if i_size (inode_table s ! k) = 0 then
       (case first_free (free_blocks s) of
          None \<Rightarrow> (-1, traced (tr blocks_trace) (seek f off s))
        | Some b \<Rightarrow> (int (length bs), traced (tr blocks_trace)
            (stored f k b off bs (set_node k ((inode_table s ! k)\<lparr>i_data_block := int b\<rparr>)
               (set_block b TAKEN (seek f off s))))))
     else (int (length bs), traced (tr []) (stored f k (block_number s k) off bs (seek f off s))))"
proof -
  note F = live_handle_facts [OF wf f]
  have T: "tables_ok s" using wfx_tables [OF wf] .
  note TD = tables_okD [OF T]
  let ?size = "i_size (inode_table s ! k)"
  have off: "(if ?size < of_offset (open_file_table s ! f) then ?size else of_offset (open_file_table s ! f)) = off"
    by (simp add: off_def k_def cur_offset_def)
  have size: "?size \<le> BLOCK_SIZE s" and offle: "off \<le> ?size"
    using file_size_le [OF wf f] by (simp_all add: k_def off_def cur_offset_def)
  define cnt where "cnt = min to_write (BLOCK_SIZE s - off)"
  have len: "length bs = cnt" and bs: "bs = take cnt buf" and fits: "off + cnt \<le> BLOCK_SIZE s"
    and cb: "cnt \<le> length buf"
    using n(1) offle size by (simp_all add: bs_def cnt_def)
  have cnt: "(if block_size (fs_params s) < size_add to_write off
      then size_sub (block_size (fs_params s)) off else to_write) = cnt"
    using n(2) TD(13) offle size by (simp add: cnt_def size_sub_small)
  have wf': "tables_ok (seek f off s)" "live_handle (seek f off s) f"
    using wfx_tables [OF wfx_seek [OF wf f, of off]] offle size f by (simp_all add: seek_live)
  have prefix: "write_to_open_file (int f) (Some buf) to_write s =
     (let done = (\<lambda>s. mutex_unlock (file_mutex f) (rwlock_unlock (Inode_lock, k) s));
          s = traced [Acquire_wr (Open_file_mutex, f), Acquire_wr (Inode_lock, k)] (seek f off s) in
      if 0 < cnt then
        if ?size = 0 then
          bindR (data_block_alloc s) (\<lambda>(bnum, s).
          if bnum = -1 then Inr (-1, done s)
          else bindR (inode_update (int k) (\<lambda>n. n\<lparr>i_data_block := bnum\<rparr>) s) (\<lambda>s.
               bindR (write_block f (int k) off buf cnt s) (\<lambda>s. Inr (int cnt, done s))))
        else bindR (write_block f (int k) off buf cnt s) (\<lambda>s. Inr (int cnt, done s))
      else Inr (int cnt, done s))"
    using F f T
    by (simp add: write_to_open_file_def get_open_file_entry_eq inode_get_eq inode_at_eq
        k_def [symmetric] off cnt set_of_offset_seek Let_def split del: if_split cong: if_branch_cong)
  show ?thesis
  proof (cases "cnt = 0")
    case True
    then show ?thesis
      using prefix len by (simp add: tr_def file_trace_def)
  next
    case False
    then have ne: "bs \<noteq> []" using len by auto
    show ?thesis
    proof (cases "?size = 0")
      case True
      show ?thesis
      proof (cases "first_free (free_blocks s)")
        case None
        then show ?thesis
          using prefix ne True False wf' by (simp add: data_block_alloc_eq tr_def file_trace_def)
      next
        case (Some b)
        define s2 where "s2 = set_node k ((inode_table s ! k)\<lparr>i_data_block := int b\<rparr>)
          (set_block b TAKEN (seek f off s))"
        have upd: "inode_update (int k) (\<lambda>n. n\<lparr>i_data_block := int b\<rparr>) (traced t
            ((seek f off s)\<lparr>free_blocks := (free_blocks s)[b := TAKEN]\<rparr>)) = Inr (traced t s2)" for t
          using F(9) by (simp add: inode_update_eq k_def s2_def set_node_def set_block_def)
        have "tables_ok s2" "live_handle s2 f" "k < length (inode_table s2)"
            "i_data_block (inode_table s2 ! k) = int b" "b < DATA_BLOCKS s2" "off + cnt \<le> BLOCK_SIZE s2"
          using wf' F(9) TD Some fits
          by (simp_all add: s2_def tables_ok_def live_handle_def k_def first_free_Some set_block_def set_node_def)
        then have "write_block f (int k) off buf cnt (traced t s2) = Inr (stored f k b off bs (traced t s2))" for t
          using cb unfolding bs by (intro write_block_eq) (simp_all add: live_handle_def)
        then show ?thesis
          using prefix ne True False wf' Some len upd
          by (simp add: data_block_alloc_eq tr_def file_trace_def s2_def)
      qed
    next
      case False2: False
      then obtain b where b: "owns s k b"
        using nonempty_file_owns [OF wf F(3)] by (auto simp: k_def)
      note B = owned_block [OF wf b]
      have "write_block f (int k) off buf cnt (traced t (seek f off s)) =
          Inr (stored f k b off bs (traced t (seek f off s)))" for t
        using B F(9) fits cb wf' unfolding bs
        by (intro write_block_eq) (simp_all add: live_handle_def k_def)
      then show ?thesis
        using prefix ne False False2 B len by (simp add: tr_def file_trace_def)
    qed
  qed
qed

end
