(* ===== verification/FS_Abs.thy ===== *)
theory FS_Abs
  imports FS_Exec
begin

text \<open>
  What a client of TecnicoFS sees. The abstract state \<open>afs\<close> has no bytes, blocks or tables: a map
  from names to nodes, the nodes (a file with its content, a symbolic link with its target), the
  open handles with their offsets, and how many data blocks are left. \<open>abs\<close> reads it off a concrete state, and each elementary change
  of the concrete state is one update of one of these components.
\<close>

section \<open>The abstract state\<close>

datatype anode =
    AFile mem
  | ALink string

record afs =
  names :: "string \<Rightarrow> nat option"
  nodes :: "nat \<Rightarrow> anode option"
  handles :: "nat \<Rightarrow> (nat \<times> nat) option"
  spare :: nat

definition names_of :: "(string \<times> int) list \<Rightarrow> string \<Rightarrow> nat option" where
  "names_of D name = (let i = dir_lookup D name in if i = -1 then None else Some (nat i))"

definition node_view :: "fs_state \<Rightarrow> nat \<Rightarrow> anode" where
  "node_view s i =
     (if i_node_type (inode_table s ! i) = T_SYM_LINK
      then ALink (cstr (block_of s (block_number s i))) else AFile (content s i))"

definition nodes_of :: "fs_state \<Rightarrow> nat \<Rightarrow> anode option" where
  "nodes_of s i = (if taken_inode s i \<and> i \<noteq> 0 then Some (node_view s i) else None)"

definition handles_of :: "fs_state \<Rightarrow> nat \<Rightarrow> (nat \<times> nat) option" where
  "handles_of s f =
     (if live_handle s f then Some (handle_inode s f, of_offset (open_file_table s ! f)) else None)"

definition abs_fs :: "fs_state \<Rightarrow> afs" where
  "abs_fs s = \<lparr>names = names_of (dents s), nodes = nodes_of s, handles = handles_of s,
     spare = count_list (free_blocks s) FREE\<rparr>"

lemma views_of_traced [simp]:
  "content (traced t s) = content s"
  "nodes_of (traced t s) = nodes_of s"
  "handles_of (traced t s) = handles_of s"
  "abs_fs (traced t s) = abs_fs s"
  by (simp_all add: fun_eq_iff content_def nodes_of_def node_view_def handles_of_def abs_fs_def)

section \<open>Names\<close>

lemma of_nat_neq_minus_1: "int n \<noteq> -1"
  by simp

lemma live_index_iff:
  assumes "distinct_names D"
  shows "live_index D name = Some j \<longleftrightarrow> j < length D \<and> snd (D ! j) \<noteq> -1 \<and> fst (D ! j) = name"
proof
  assume r: "j < length D \<and> snd (D ! j) \<noteq> -1 \<and> fst (D ! j) = name"
  have "i = j" if "i < length D" "snd (D ! i) \<noteq> -1" "fst (D ! i) = name" for i
    using assms r that by (auto simp: distinct_names_def)
  then show "live_index D name = Some j"
    using r unfolding live_index_def find_upt_Some_iff by (metis less_irrefl less_trans)
qed (auto simp: live_index_def find_upt_Some_iff)

lemma names_of_Some:
  assumes "distinct_names D"
  shows "names_of D name = Some i \<longleftrightarrow>
    (\<exists>j<length D. snd (D ! j) \<noteq> -1 \<and> fst (D ! j) = name \<and> nat (snd (D ! j)) = i)"
proof (cases "live_index D name")
  case None
  then have "names_of D name = None"
    by (simp add: names_of_def dir_lookup_def)
  moreover have "\<forall>j<length D. snd (D ! j) \<noteq> -1 \<longrightarrow> fst (D ! j) \<noteq> name"
    using None by (simp add: live_index_None)
  ultimately show ?thesis by auto
next
  case (Some j)
  then have j: "j < length D" "snd (D ! j) \<noteq> -1" "fst (D ! j) = name"
    using live_index_iff [OF assms] by simp_all
  moreover have "i = j" if "i < length D" "snd (D ! i) \<noteq> -1" "fst (D ! i) = name" for i
    using live_index_iff [OF assms, of name i] that Some by simp
  moreover have "names_of D name = Some (nat (snd (D ! j)))"
    using Some j by (simp add: names_of_def dir_lookup_def)
  ultimately show ?thesis by (metis option.inject)
qed

lemma names_of_None: "names_of D name = None \<longleftrightarrow> live_index D name = None"
  by (auto simp: names_of_def dir_lookup_def Let_def live_index_def find_upt_Some_iff split: option.splits)

lemma wfx_distinct: "fs_wfx X s \<Longrightarrow> distinct_names (dents s)"
  by (simp add: fs_wfx_def dir_ok_def)

text \<open>Where a bound name is, and what it is bound to.\<close>

lemma lookup_cases [consumes 1, case_names absent bound]:
  assumes wf: "fs_wfx X s"
  obtains (absent) "names_of (dents s) name = None" "live_index (dents s) name = None"
      "dir_lookup (dents s) name = -1"
    | (bound) j k where "names_of (dents s) name = Some k" "live_index (dents s) name = Some j"
      "dir_lookup (dents s) name = int k" "j < MAX_DIR_ENTRIES s" "dents s ! j = (name, int k)"
      "taken_inode s k" "k \<noteq> 0" "name_index (dents s) name = Some j" "0 < nlinks s k"
proof (cases "live_index (dents s) name")
  case None
  then show ?thesis
    by (intro absent) (simp_all add: names_of_None dir_lookup_def)
next
  case (Some j)
  then have j: "j < MAX_DIR_ENTRIES s" "snd (dents s ! j) \<noteq> -1" "fst (dents s ! j) = name"
    using live_index_iff [OF wfx_distinct [OF wf]] by simp_all
  then obtain k where k: "snd (dents s ! j) = int k" "k \<noteq> 0" "taken_inode s k" "fst (dents s ! j) \<noteq> []"
    using wfx_entry [OF wf j(1)] by (auto simp: entry_ok_def)
  have "fst (dents s ! i) \<noteq> name" if "i < j" for i
  proof (cases "snd (dents s ! i) = -1")
    case True
    then have "fst (dents s ! i) = []"
      using wf that j by (auto simp: fs_wfx_def dir_ok_def stale_ok_def)
    then show ?thesis
      using j(3) k(4) by auto
  next
    case False
    then show ?thesis
      using wfx_distinct [OF wf] that j unfolding distinct_names_def
      by (metis length_dents less_trans less_irrefl)
  qed
  then have "name_index (dents s) name = Some j"
    using j by (simp add: name_index_def find_upt_Some_iff)
  moreover have "0 < nlinks s k"
    using count_list_pos [of j "map snd (dents s)" "int k"] j k by (simp add: nlinks_def)
  ultimately show ?thesis
    using j k Some by (intro bound [of k j]) (auto simp: names_of_def dir_lookup_def prod_eq_iff)
qed

lemma names_of_store:
  assumes D: "distinct_names D" "distinct_names (D[j := (name, int k)])"
    and j: "j < length D" "snd (D ! j) = -1" and new: "live_index D name = None"
  shows "names_of (D[j := (name, int k)]) = (names_of D)(name \<mapsto> k)"
proof
  fix n
  have "names_of (D[j := (name, int k)]) n = Some i \<longleftrightarrow> ((names_of D)(name \<mapsto> k)) n = Some i" for i
    using j new D by (auto simp: names_of_Some nth_list_update live_index_None fun_upd_apply)
  then show "names_of (D[j := (name, int k)]) n = ((names_of D)(name \<mapsto> k)) n"
    by (metis not_Some_eq)
qed

lemma names_of_clear:
  assumes D: "distinct_names D" "distinct_names (D[j := ([], -1)])"
    and j: "j < length D" "D ! j = (name, int k)"
  shows "names_of (D[j := ([], -1)]) = (names_of D)(name := None)"
proof
  fix n
  have "fst (D ! i) \<noteq> name" if "i < length D" "i \<noteq> j" "snd (D ! i) \<noteq> -1" for i
    using D(1) that j unfolding distinct_names_def
    by (metis fst_conv snd_conv of_nat_neq_minus_1)
  then have "names_of (D[j := ([], -1)]) n = Some i \<longleftrightarrow> ((names_of D)(name := None)) n = Some i" for i
    using j D by (auto simp: names_of_Some nth_list_update fun_upd_apply) (metis fst_conv)
  then show "names_of (D[j := ([], -1)]) n = ((names_of D)(name := None)) n"
    by (metis not_Some_eq)
qed

section \<open>Nodes and handles\<close>

definition links_hold :: "fs_state \<Rightarrow> bool" where
  "links_hold s \<longleftrightarrow>
     (\<forall>i. taken_inode s i \<longrightarrow> i_node_type (inode_table s ! i) = T_SYM_LINK \<longrightarrow> (\<exists>b. owns s i b))"

lemma wf_links_hold: "fs_wf s \<Longrightarrow> links_hold s"
  unfolding links_hold_def fs_wfx_def links_ok_def target_ok_def root_ok_def root_dir_def
  by (metis empty_iff inode_type.distinct(5))

lemma nodes_of_same:
  assumes "fs_wfx X s" and "links_hold s" and "taken_inode s' i = taken_inode s i"
    and "inode_table s' ! i = inode_table s ! i" and "\<And>b. owns s i b \<Longrightarrow> i \<noteq> 0 \<Longrightarrow> block_of s' b = block_of s b"
  shows "nodes_of s' i = nodes_of s i"
proof (cases "taken_inode s i \<and> i \<noteq> 0")
  case True
  have num: "block_number s' i = block_number s i"
    using assms(4) by (simp add: block_number_def)
  show ?thesis
  proof (cases "0 < i_size (inode_table s ! i) \<or> i_node_type (inode_table s ! i) = T_SYM_LINK")
    case own: True
    then obtain b where b: "owns s i b"
      using True assms(2) nonempty_file_owns [OF assms(1)] by (auto simp: links_hold_def)
    then show ?thesis
      using assms(3-) True owned_block(2) [OF assms(1) b] num
      by (simp add: nodes_of_def node_view_def content_def)
  qed (use assms num True in \<open>simp add: nodes_of_def node_view_def content_def\<close>)
qed (use assms in \<open>auto simp: nodes_of_def\<close>)

lemma abs_set_block [simp]:
  "dents (set_block b st s) = dents s" "nodes_of (set_block b st s) = nodes_of s"
  "handles_of (set_block b st s) = handles_of s"
  by (simp_all add: fun_eq_iff set_block_def nodes_of_def node_view_def content_def block_number_def
      handles_of_def handle_inode_def taken_inode_def live_handle_def)

lemma abs_set_handle [simp]:
  "dents (set_handle f e st s) = dents s" "nodes_of (set_handle f e st s) = nodes_of s"
  by (simp_all add: fun_eq_iff set_handle_def nodes_of_def node_view_def content_def block_number_def
      taken_inode_def)

lemma handles_set_handle:
  assumes "tables_ok s" and "f < MAX_OPEN_FILES s"
  shows "handles_of (set_handle f e TAKEN s) = (handles_of s)(f \<mapsto> (nat (of_inumber e), of_offset e))"
    and "handles_of (set_handle f e FREE s) = (handles_of s)(f := None)"
proof -
  have len: "f < length (open_file_table s)" "f < length (free_open_file_entries s)"
    using assms tables_okD [OF assms(1)] by simp_all
  have "handles_of (set_handle f e st s) g = (if g \<noteq> f then handles_of s g
      else if st = TAKEN then Some (nat (of_inumber e), of_offset e) else None)" for g st
    using len assms(2) by (cases "g = f") (simp_all add: handles_of_def live_handle_def handle_inode_def)
  then show "handles_of (set_handle f e TAKEN s) = (handles_of s)(f \<mapsto> (nat (of_inumber e), of_offset e))"
    and "handles_of (set_handle f e FREE s) = (handles_of s)(f := None)"
    by (simp_all add: fun_eq_iff)
qed

lemma handles_of_same:
  "fs_params s' = fs_params s \<Longrightarrow> open_file_table s' = open_file_table s \<Longrightarrow>
   free_open_file_entries s' = free_open_file_entries s \<Longrightarrow> handles_of s' = handles_of s"
  by (simp add: fun_eq_iff handles_of_def live_handle_def handle_inode_def)

lemma handles_kept [simp]:
  "handles_of (set_node k n s) = handles_of s" "handles_of (put_bytes b off bs s) = handles_of s"
  "handles_of (claim_inode k ty s) = handles_of s" "handles_of (drop_inode k s) = handles_of s"
  "handles_of (set_entry j nm v s) = handles_of s"
  by (rule handles_of_same, simp_all)+

lemma dents_kept [simp]:
  "dents (set_node k n s) = dents s" "dents (claim_inode k ty s) = dents s"
  "dents (drop_inode k s) = dents s"
  by (simp_all add: change_defs)

lemma nodes_set_node:
  assumes "taken_inode s k" and "k \<noteq> 0" and "k < length (inode_table s)"
  shows "nodes_of (set_node k n s) = (nodes_of s)(k \<mapsto>
    (if i_node_type n = T_SYM_LINK then ALink (cstr (block_of s (nat (i_data_block n))))
     else AFile (take (i_size n) (block_of s (nat (i_data_block n))))))"
  using assms
  by (auto simp: fun_eq_iff nodes_of_def node_view_def content_def block_number_def taken_inode_def set_node_def)

lemma nodes_claim_file:
  assumes "tables_ok s" and "k < INODE_TABLE_SIZE s" and "k \<noteq> 0"
  shows "nodes_of (claim_inode k T_FILE s) = (nodes_of s)(k \<mapsto> AFile [])"
proof
  fix i
  show "nodes_of (claim_inode k T_FILE s) i = ((nodes_of s)(k \<mapsto> AFile [])) i"
    using assms tables_okD [OF assms(1)]
    by (cases "i = k") (simp_all add: nodes_of_def node_view_def content_def block_number_def
        taken_inode_def claim_inode_def)
qed

lemma nodes_claim_other:
  "i \<noteq> k \<Longrightarrow> nodes_of (claim_inode k ty s) i = nodes_of s i"
  by (simp add: nodes_of_def node_view_def content_def block_number_def taken_inode_def claim_inode_def)

lemma nodes_drop:
  assumes "tables_ok s" and "k < INODE_TABLE_SIZE s"
  shows "nodes_of (drop_inode k s) = (nodes_of s)(k := None)"
proof
  fix i
  show "nodes_of (drop_inode k s) i = ((nodes_of s)(k := None)) i"
    using assms tables_okD [OF assms(1)]
    by (cases "i = k") (simp_all add: nodes_of_def node_view_def content_def block_number_def
        taken_inode_def drop_inode_def)
qed

lemma dents_put_bytes:
  assumes "tables_ok s" and "b < DATA_BLOCKS s" and "b \<noteq> 0" and "off + length bs \<le> BLOCK_SIZE s"
  shows "dents (put_bytes b off bs s) = dents s"
  using assms block_of_patch [OF assms(1,2,4), of 0] tables_okD [OF assms(1)]
  by (intro dents_same) (simp_all add: put_bytes_def)

lemma nodes_put_bytes:
  assumes "fs_wfx X s" and "links_hold s" and "b < DATA_BLOCKS s" and "off + length bs \<le> BLOCK_SIZE s"
    and "\<not> owns s i b"
  shows "nodes_of (put_bytes b off bs s) i = nodes_of s i"
proof (rule nodes_of_same [OF assms(1,2)])
  fix c
  assume "owns s i c"
  then show "block_of (put_bytes b off bs s) c = block_of s c"
    using block_of_patch [OF wfx_tables [OF assms(1)] assms(3,4), of c] owns_block(1) [OF assms(1)] assms(5)
    by (auto simp: put_bytes_def)
qed (simp_all add: taken_inode_def)

lemma nodes_set_entry:
  assumes "fs_wfx X s" and "links_hold s" and "j < MAX_DIR_ENTRIES s" and "length nm = 40"
  shows "nodes_of (set_entry j nm v s) = nodes_of s"
proof
  fix i
  show "nodes_of (set_entry j nm v s) i = nodes_of s i"
  proof (rule nodes_of_same [OF assms(1,2)])
    fix c
    assume "owns s i c" and "i \<noteq> 0"
    moreover from this have "c \<noteq> 0"
      using owns_inj [OF assms(1)] owns_zero [OF assms(1)] by metis
    ultimately show "block_of (set_entry j nm v s) c = block_of s c"
      using block_of_set_entry [OF wfx_tables [OF assms(1)] assms(3,4) owns_block(1) [OF assms(1)]] by simp
  qed (simp_all add: taken_inode_def)
qed

end
