(* ===== verification/FS_Spec.thy ===== *)
theory FS_Spec
  imports FS_Abs
begin

text \<open>
  What TecnicoFS promises to its clients, call by call, on the abstract state: a step relation
  \<open>client_step p a c r a'\<close> (with parameters \<open>p\<close>, call \<open>c\<close> in state \<open>a\<close> may return \<open>r\<close> and lead to
  \<open>a'\<close>). It is deterministic up to the number of a new inode or handle, and says exactly when a
  call fails: a full table is a condition on the abstract state.

  The relation describes the program as it is: a failed \<open>Sym_link\<close> and the removal of a symbolic
  link cost a data block (\<open>spare\<close>), and an \<open>Open\<close> that finds no free handle has still created or
  truncated the file.
\<close>

section \<open>Calls\<close>

datatype tfs_call =
    Open string nat
  | Close int
  | Write int mem
  | Read int nat
  | Sym_link string string
  | Link string string
  | Unlink string

section \<open>Pieces of the specification\<close>

definition inodes_full :: "tfs_params \<Rightarrow> afs \<Rightarrow> bool" where
  "inodes_full p a \<longleftrightarrow> (\<forall>i. 0 < i \<longrightarrow> i < max_inode_count p \<longrightarrow> nodes a i \<noteq> None)"

definition handles_full :: "tfs_params \<Rightarrow> afs \<Rightarrow> bool" where
  "handles_full p a \<longleftrightarrow> (\<forall>f < max_open_files_count p. handles a f \<noteq> None)"

definition dir_full :: "tfs_params \<Rightarrow> afs \<Rightarrow> bool" where
  "dir_full p a \<longleftrightarrow> card (dom (names a)) = block_size p div sizeof_dir_entry"

definition can_bind :: "tfs_params \<Rightarrow> afs \<Rightarrow> string \<Rightarrow> bool" where
  "can_bind p a name \<longleftrightarrow> \<not> invalid_sub_name name \<and> names a name = None \<and> \<not> dir_full p a"

definition fresh_inode :: "tfs_params \<Rightarrow> afs \<Rightarrow> nat \<Rightarrow> bool" where
  "fresh_inode p a i \<longleftrightarrow> 0 < i \<and> i < max_inode_count p \<and> nodes a i = None"

definition blocks_held :: "anode option \<Rightarrow> nat" where
  "blocks_held n = (case n of Some (AFile c) \<Rightarrow> if c = [] then 0 else 1 | _ \<Rightarrow> 0)"

text \<open>A node that no name and no handle refers to goes away, with the block of its content.\<close>

definition unreferenced :: "afs \<Rightarrow> nat \<Rightarrow> bool" where
  "unreferenced a i \<longleftrightarrow> i \<notin> ran (names a) \<and> (\<forall>f off. handles a f \<noteq> Some (i, off))"

definition collect :: "nat \<Rightarrow> afs \<Rightarrow> afs" where
  "collect i a =
     (if unreferenced a i
      then a\<lparr>nodes := (nodes a)(i := None), spare := spare a + blocks_held (nodes a i)\<rparr> else a)"

definition truncate_node :: "nat \<Rightarrow> afs \<Rightarrow> afs" where
  "truncate_node i a =
     a\<lparr>nodes := (nodes a)(i \<mapsto> AFile []), spare := spare a + blocks_held (nodes a i)\<rparr>"

definition attach :: "tfs_params \<Rightarrow> nat \<Rightarrow> nat \<Rightarrow> afs \<Rightarrow> int \<Rightarrow> afs \<Rightarrow> bool" where
  "attach p i off a r a' \<longleftrightarrow>
     (\<exists>f < max_open_files_count p. handles a f = None \<and> r = int f \<and>
        a' = a\<lparr>handles := (handles a)(f \<mapsto> (i, off))\<rparr>) \<or>
     (handles_full p a \<and> r = -1 \<and> a' = a)"

definition open_handle :: "afs \<Rightarrow> int \<Rightarrow> (nat \<times> nat \<times> nat) option" where
  "open_handle a h =
     (if 0 \<le> h then map_option (\<lambda>(i, off). (nat h, i, off)) (handles a (nat h)) else None)"

text \<open>Following symbolic links; a path whose links form a cycle resolves to nothing.\<close>

inductive resolves :: "afs \<Rightarrow> string \<Rightarrow> string \<Rightarrow> bool" for a where
  resolves_here: "\<not> (\<exists>i t. valid_pathname (Some path) \<and> names a (tl path) = Some i \<and> nodes a i = Some (ALink t)) \<Longrightarrow>
    resolves a path path"
| resolves_link: "valid_pathname (Some path) \<Longrightarrow> names a (tl path) = Some i \<Longrightarrow> nodes a i = Some (ALink t) \<Longrightarrow>
    resolves a t q \<Longrightarrow> resolves a path q"

section \<open>The step relation\<close>

inductive client_step :: "tfs_params \<Rightarrow> afs \<Rightarrow> tfs_call \<Rightarrow> int \<times> mem \<Rightarrow> afs \<Rightarrow> bool" for p where
  step_open_bad_path: "resolves a path q \<Longrightarrow> \<not> valid_pathname (Some q) \<Longrightarrow>
    client_step p a (Open path mode) (-1, []) a"
| step_open_file: "resolves a path q \<Longrightarrow> valid_pathname (Some q) \<Longrightarrow> names a (tl q) = Some i \<Longrightarrow>
    nodes a i = Some (AFile c) \<Longrightarrow>
    a1 = (if has_flag mode TFS_O_TRUNC then truncate_node i a else a) \<Longrightarrow>
    off = (if has_flag mode TFS_O_APPEND \<and> \<not> has_flag mode TFS_O_TRUNC then length c else 0) \<Longrightarrow>
    attach p i off a1 r a' \<Longrightarrow> client_step p a (Open path mode) (r, []) a'"
| step_open_missing: "resolves a path q \<Longrightarrow> valid_pathname (Some q) \<Longrightarrow> names a (tl q) = None \<Longrightarrow>
    \<not> has_flag mode TFS_O_CREAT \<or> inodes_full p a \<or> \<not> can_bind p a (tl q) \<Longrightarrow>
    client_step p a (Open path mode) (-1, []) a"
| step_open_create: "resolves a path q \<Longrightarrow> valid_pathname (Some q) \<Longrightarrow> has_flag mode TFS_O_CREAT \<Longrightarrow>
    can_bind p a (tl q) \<Longrightarrow> fresh_inode p a i \<Longrightarrow>
    a1 = a\<lparr>names := (names a)(tl q \<mapsto> i), nodes := (nodes a)(i \<mapsto> AFile [])\<rparr> \<Longrightarrow>
    attach p i 0 a1 r a' \<Longrightarrow> client_step p a (Open path mode) (r, []) a'"
| step_close_bad: "open_handle a h = None \<Longrightarrow> client_step p a (Close h) (-1, []) a"
| step_close: "open_handle a h = Some (f, i, off) \<Longrightarrow>
    client_step p a (Close h) (0, []) (collect i (a\<lparr>handles := (handles a)(f := None)\<rparr>))"
| step_read_bad: "open_handle a h = None \<Longrightarrow> client_step p a (Read h n) (-1, []) a"
| step_read: "open_handle a h = Some (f, i, off) \<Longrightarrow> nodes a i = Some (AFile c) \<Longrightarrow>
    off' = min off (length c) \<Longrightarrow> bs = take n (drop off' c) \<Longrightarrow>
    client_step p a (Read h n) (int (length bs), bs)
      (a\<lparr>handles := (handles a)(f \<mapsto> (i, off' + length bs))\<rparr>)"
| step_write_bad: "open_handle a h = None \<Longrightarrow> client_step p a (Write h buf) (-1, []) a"
| step_write: "open_handle a h = Some (f, i, off) \<Longrightarrow> nodes a i = Some (AFile c) \<Longrightarrow>
    off' = min off (length c) \<Longrightarrow> bs = take (block_size p - off') buf \<Longrightarrow>
    bs = [] \<or> c \<noteq> [] \<or> 0 < spare a \<Longrightarrow>
    client_step p a (Write h buf) (int (length bs), [])
      (a\<lparr>nodes := (nodes a)(i \<mapsto> AFile (take off' c @ bs @ drop (off' + length bs) c)),
         handles := (handles a)(f \<mapsto> (i, off' + length bs)),
         spare := spare a - (if c = [] \<and> bs \<noteq> [] then 1 else 0)\<rparr>)"
| step_write_no_space: "open_handle a h = Some (f, i, off) \<Longrightarrow> nodes a i = Some (AFile []) \<Longrightarrow>
    0 < block_size p \<Longrightarrow> buf \<noteq> [] \<Longrightarrow> spare a = 0 \<Longrightarrow>
    client_step p a (Write h buf) (-1, []) (a\<lparr>handles := (handles a)(f \<mapsto> (i, 0))\<rparr>)"
| step_sym_link_bad: "\<not> valid_pathname (Some t) \<or> \<not> valid_pathname (Some l) \<or> t = l \<or> inodes_full p a \<or> spare a = 0 \<Longrightarrow>
    client_step p a (Sym_link t l) (-1, []) a"
| step_sym_link_clash: "valid_pathname (Some t) \<Longrightarrow> valid_pathname (Some l) \<Longrightarrow> 0 < spare a \<Longrightarrow>
    \<not> can_bind p a (tl l) \<Longrightarrow> client_step p a (Sym_link t l) (-1, []) (a\<lparr>spare := spare a - 1\<rparr>)"
| step_sym_link: "valid_pathname (Some t) \<Longrightarrow> valid_pathname (Some l) \<Longrightarrow> t \<noteq> l \<Longrightarrow> 0 < spare a \<Longrightarrow>
    can_bind p a (tl l) \<Longrightarrow> fresh_inode p a i \<Longrightarrow>
    client_step p a (Sym_link t l) (0, [])
      (a\<lparr>names := (names a)(tl l \<mapsto> i), nodes := (nodes a)(i \<mapsto> ALink t), spare := spare a - 1\<rparr>)"
| step_link_bad: "\<not> valid_pathname (Some t) \<or> \<not> valid_pathname (Some l) \<or> names a (tl t) = None \<or>
      \<not> can_bind p a (tl l) \<or> (\<exists>i q. names a (tl t) = Some i \<and> nodes a i = Some (ALink q)) \<Longrightarrow>
    client_step p a (Link t l) (-1, []) a"
| step_link: "valid_pathname (Some t) \<Longrightarrow> valid_pathname (Some l) \<Longrightarrow> names a (tl t) = Some i \<Longrightarrow>
    nodes a i = Some (AFile c) \<Longrightarrow> can_bind p a (tl l) \<Longrightarrow>
    client_step p a (Link t l) (0, []) (a\<lparr>names := (names a)(tl l \<mapsto> i)\<rparr>)"
| step_unlink_bad: "\<not> valid_pathname (Some t) \<or> names a (tl t) = None \<Longrightarrow> client_step p a (Unlink t) (-1, []) a"
| step_unlink: "valid_pathname (Some t) \<Longrightarrow> names a (tl t) = Some i \<Longrightarrow>
    client_step p a (Unlink t) (0, []) (collect i (a\<lparr>names := (names a)(tl t := None)\<rparr>))"

section \<open>Nothing is lost\<close>

text \<open>Every node has a name or a handle, and the specification keeps it so.\<close>

definition all_referenced :: "afs \<Rightarrow> bool" where
  "all_referenced a \<longleftrightarrow> (\<forall>i. nodes a i \<noteq> None \<longrightarrow> \<not> unreferenced a i)"

lemma unreferenced_update [simp]:
  "unreferenced (a\<lparr>nodes := x\<rparr>) = unreferenced a" "unreferenced (a\<lparr>spare := n\<rparr>) = unreferenced a"
  by (simp_all add: fun_eq_iff unreferenced_def)

lemma all_referenced_update:
  "all_referenced a \<Longrightarrow> \<not> unreferenced a i \<Longrightarrow> all_referenced (a\<lparr>nodes := (nodes a)(i \<mapsto> x), spare := n\<rparr>)"
  "all_referenced (a\<lparr>spare := n\<rparr>) = all_referenced a"
  by (simp_all add: all_referenced_def)

text \<open>Dropping references to \<open>i\<close> and then collecting \<open>i\<close>.\<close>

lemma all_referenced_collect:
  assumes "\<And>j. j \<noteq> i \<Longrightarrow> nodes a j \<noteq> None \<Longrightarrow> \<not> unreferenced a j"
  shows "all_referenced (collect i a)"
proof (cases "unreferenced a i")
  case True
  then show ?thesis
    using assms by (auto simp: all_referenced_def collect_def split: if_splits)
next
  case False
  then show ?thesis
    using assms unfolding all_referenced_def collect_def by metis
qed

lemma unreferenced_mono:
  assumes "\<And>n. names a n = Some i \<Longrightarrow> \<exists>n'. names a' n' = Some i"
    and "\<And>f off. handles a f = Some (i, off) \<Longrightarrow> \<exists>f' off'. handles a' f' = Some (i, off')"
    and "unreferenced a' i"
  shows "unreferenced a i"
  using assms unfolding unreferenced_def ran_def by blast

lemma attach_referenced:
  assumes "attach p i off a r a'" and "all_referenced a"
  shows "all_referenced a'"
proof -
  have "unreferenced a j" if "handles a f = None" "unreferenced (a\<lparr>handles := (handles a)(f \<mapsto> x)\<rparr>) j" for f x j
    by (rule unreferenced_mono [OF _ _ that(2)]) (use that(1) in \<open>auto, metis option.distinct(1)\<close>)
  then show ?thesis
    using assms unfolding attach_def all_referenced_def by fastforce
qed

lemma handle_moved_referenced:
  assumes "all_referenced a" and "handles a f = Some (i, off)"
  shows "all_referenced (a\<lparr>handles := (handles a)(f \<mapsto> (i, off'))\<rparr>)"
proof -
  have "unreferenced a j" if "unreferenced (a\<lparr>handles := (handles a)(f \<mapsto> (i, off'))\<rparr>) j" for j
    by (rule unreferenced_mono [OF _ _ that]) (use assms(2) in \<open>auto, metis option.inject prod.inject\<close>)
  then show ?thesis
    using assms by (auto simp: all_referenced_def)
qed

lemma bound_referenced:
  assumes "all_referenced a" and "names a name = None"
  shows "all_referenced (a\<lparr>names := (names a)(name \<mapsto> i), nodes := (nodes a)(i \<mapsto> x), spare := n\<rparr>)"
proof -
  have "unreferenced a j" if "unreferenced (a\<lparr>names := (names a)(name \<mapsto> i)\<rparr>) j" for j
    by (rule unreferenced_mono [OF _ _ that]) (use assms(2) in \<open>auto, metis option.distinct(1)\<close>)
  moreover have "\<not> unreferenced (a\<lparr>names := (names a)(name \<mapsto> i)\<rparr>) i"
    by (auto simp: unreferenced_def ran_def)
  ultimately show ?thesis
    using assms by (auto simp: all_referenced_def)
qed

lemma open_handle_Some: "open_handle a h = Some (f, i, off) \<longleftrightarrow> 0 \<le> h \<and> f = nat h \<and> handles a f = Some (i, off)"
  by (auto simp: open_handle_def)

theorem client_step_all_referenced:
  assumes "client_step p a c r a'" and "all_referenced a"
  shows "all_referenced a'"
  using assms
proof (induction rule: client_step.induct)
  case (step_open_file a path q i c a1 mode off r a')
  have "\<not> unreferenced a i"
    using step_open_file by (auto simp: unreferenced_def ran_def)
  then have "all_referenced a1"
    using step_open_file all_referenced_update(1) by (auto simp: truncate_node_def)
  with step_open_file show ?case by (blast intro: attach_referenced)
next
  case (step_open_create a path q mode i a1 r a')
  then have "all_referenced a1"
    using bound_referenced [of a "tl q" "spare a" i "AFile []"] by (simp add: can_bind_def)
  with step_open_create show ?case by (blast intro: attach_referenced)
next
  case (step_close a h f i off)
  have "unreferenced a j" if "unreferenced (a\<lparr>handles := (handles a)(f := None)\<rparr>) j" "j \<noteq> i" for j
    by (rule unreferenced_mono [OF _ _ that(1)])
      (use step_close(1) that(2) in \<open>auto simp: open_handle_Some, metis option.inject prod.inject\<close>)
  then show ?case
    using step_close by (intro all_referenced_collect) (auto simp: all_referenced_def)
next
  case (step_read a h f i off c off' bs n)
  then show ?case by (auto simp: open_handle_Some intro: handle_moved_referenced)
next
  case (step_write a h f i off c off' bs buf)
  then have h: "handles a f = Some (i, off)" "all_referenced a"
    using open_handle_Some [of a h f i off] by blast+
  let ?a = "a\<lparr>handles := (handles a)(f \<mapsto> (i, off' + length bs))\<rparr>"
  have "\<not> unreferenced ?a i"
    by (auto simp: unreferenced_def)
  then have "all_referenced (?a\<lparr>nodes := (nodes ?a)(i \<mapsto> x), spare := n\<rparr>)" for x n
    by (rule all_referenced_update(1) [OF handle_moved_referenced [OF h(2,1)]])
  moreover have "?a\<lparr>nodes := (nodes ?a)(i \<mapsto> x), spare := n\<rparr> = a\<lparr>nodes := (nodes a)(i \<mapsto> x),
      handles := (handles a)(f \<mapsto> (i, off' + length bs)), spare := n\<rparr>" for x n
    by simp
  ultimately show ?case by metis
next
  case (step_write_no_space a h f i off buf)
  then show ?case by (auto simp: open_handle_Some intro: handle_moved_referenced)
next
  case (step_sym_link t l a i)
  then show ?case using bound_referenced [of a "tl l" _ i] by (simp add: can_bind_def)
next
  case (step_link t l a i c)
  then show ?case
    using bound_referenced [of a "tl l" "spare a" i "AFile c"] by (simp add: can_bind_def fun_upd_idem)
next
  case (step_unlink t a i)
  have "unreferenced a j" if "unreferenced (a\<lparr>names := (names a)(tl t := None)\<rparr>) j" "j \<noteq> i" for j
    by (rule unreferenced_mono [OF _ _ that(1)])
      (use step_unlink(2) that(2) in \<open>auto, metis option.inject\<close>)
  then show ?case
    using step_unlink by (intro all_referenced_collect) (auto simp: all_referenced_def)
qed (simp_all add: all_referenced_update)

section \<open>Reading the relation backwards\<close>

inductive_cases client_step_WriteE: "client_step p a (Write h buf) r a'"
inductive_cases client_step_ReadE: "client_step p a (Read h n) r a'"
inductive_cases client_step_UnlinkE: "client_step p a (Unlink t) r a'"
inductive_cases client_step_LinkE: "client_step p a (Link t l) r a'"
inductive_cases client_step_CloseE: "client_step p a (Close h) r a'"

inductive_cases client_step_OpenE: "client_step p a (Open path mode) r a'"
inductive_cases resolvesE: "resolves a path q"

lemma resolves_det: "resolves a path q \<Longrightarrow> resolves a path q' \<Longrightarrow> q' = q"
proof (induction arbitrary: q' rule: resolves.induct)
  case (resolves_here path)
  from resolves_here(2,1) show ?case
    by (cases rule: resolvesE) auto
next
  case (resolves_link path i t q)
  from resolves_link.prems have "resolves a t q'"
    by (rule resolves.cases) (use resolves_link.hyps in force)+
  then show ?case
    by (rule resolves_link.IH)
qed

lemma resolves_plain:
  assumes "\<And>i t. nodes a i \<noteq> Some (ALink t)"
  shows "resolves a path q \<longleftrightarrow> q = path"
proof
  assume "resolves a path q"
  then show "q = path"
    by (cases rule: resolvesE) (use assms in auto)
qed (use assms in \<open>auto intro: resolves_here\<close>)

lemma flag_simps [simp]:
  "has_flag TFS_O_CREAT TFS_O_CREAT" "\<not> has_flag TFS_O_CREAT TFS_O_TRUNC" "\<not> has_flag TFS_O_CREAT TFS_O_APPEND"
  "\<not> has_flag 0 f" "has_flag TFS_O_TRUNC TFS_O_TRUNC" "\<not> has_flag TFS_O_TRUNC TFS_O_CREAT"
  "has_flag TFS_O_APPEND TFS_O_APPEND" "\<not> has_flag TFS_O_APPEND TFS_O_CREAT" "\<not> has_flag TFS_O_APPEND TFS_O_TRUNC"
  by (simp_all add: has_flag_def TFS_O_CREAT_def TFS_O_TRUNC_def TFS_O_APPEND_def)

lemma open_step_file:
  assumes "client_step p a (Open path mode) (r, x) a'" and "resolves a path q" and "valid_pathname (Some q)"
    and "names a (tl q) = Some i" and "nodes a i = Some (AFile c)"
  shows "attach p i (if has_flag mode TFS_O_APPEND \<and> \<not> has_flag mode TFS_O_TRUNC then length c else 0)
    (if has_flag mode TFS_O_TRUNC then truncate_node i a else a) r a'"
  using assms(1)
  by (cases rule: client_step_OpenE) (use resolves_det [OF assms(2)] assms(3-) in \<open>auto simp: can_bind_def\<close>)

lemma open_step_create:
  assumes "client_step p a (Open path mode) (r, x) a'" and "resolves a path q" and "valid_pathname (Some q)"
    and "has_flag mode TFS_O_CREAT" and "can_bind p a (tl q)" and "\<not> inodes_full p a"
  obtains i where "fresh_inode p a i"
    and "attach p i 0 (a\<lparr>names := (names a)(tl q \<mapsto> i), nodes := (nodes a)(i \<mapsto> AFile [])\<rparr>) r a'"
  using assms(1)
  by (cases rule: client_step_OpenE) (use that resolves_det [OF assms(2)] assms(3-) in \<open>auto simp: can_bind_def\<close>)

lemma attach_room:
  assumes "attach p i off a r a'" and "\<not> handles_full p a"
  obtains f where "f < max_open_files_count p" and "handles a f = None" and "r = int f"
    and "a' = a\<lparr>handles := (handles a)(f \<mapsto> (i, off))\<rparr>"
  using assms by (auto simp: attach_def)

lemma write_step:
  assumes "client_step p a (Write h buf) (n, x) a'" and "open_handle a h = Some (f, i, off)"
    and "nodes a i = Some (AFile c)" and "0 \<le> n"
    and "off' = min off (length c)" and "bs = take (block_size p - off') buf"
  shows "n = int (length bs) \<and>
    a' = a\<lparr>nodes := (nodes a)(i \<mapsto> AFile (take off' c @ bs @ drop (off' + length bs) c)),
         handles := (handles a)(f \<mapsto> (i, off' + length bs)),
         spare := spare a - (if c = [] \<and> bs \<noteq> [] then 1 else 0)\<rparr>"
  using assms(1) by (cases rule: client_step_WriteE) (use assms(2-) in force)+

lemma read_step:
  assumes "client_step p a (Read h n) (r, x) a'" and "open_handle a h = Some (f, i, off)"
    and "nodes a i = Some (AFile c)" and "off' = min off (length c)" and "bs = take n (drop off' c)"
  shows "r = int (length bs) \<and> x = bs \<and> a' = a\<lparr>handles := (handles a)(f \<mapsto> (i, off' + length bs))\<rparr>"
  using assms(1) by (cases rule: client_step_ReadE) (use assms(2-) in force)+

lemma unlink_step:
  assumes "client_step p a (Unlink t) (r, x) a'" and "valid_pathname (Some t)" and "names a (tl t) = Some i"
  shows "r = 0 \<and> a' = collect i (a\<lparr>names := (names a)(tl t := None)\<rparr>)"
  using assms(1) by (cases rule: client_step_UnlinkE) (use assms(2-) in force)+

lemma close_step:
  assumes "client_step p a (Close h) (r, x) a'" and "open_handle a h = Some (f, i, off)"
  shows "r = 0 \<and> a' = collect i (a\<lparr>handles := (handles a)(f := None)\<rparr>)"
  using assms(1) by (cases rule: client_step_CloseE) (use assms(2-) in force)+

lemma link_step:
  assumes "client_step p a (Link t l) (0, x) a'"
  obtains i c where "valid_pathname (Some t)" and "valid_pathname (Some l)" and "names a (tl t) = Some i"
    and "nodes a i = Some (AFile c)" and "can_bind p a (tl l)" and "a' = a\<lparr>names := (names a)(tl l \<mapsto> i)\<rparr>"
  using assms by (auto elim!: client_step_LinkE)

end
