(* ===== verification/FS_Sim.thy ===== *)
theory FS_Sim
  imports FS_Spec
begin

text \<open>
  Every call of the client interface, run in a consistent state, returns normally (no assertion
  fails, no access is out of bounds), keeps the state consistent, takes and releases its locks in
  order, and does what the specification \<^verbatim>\<open>FS_Spec\<close> says. One lemma \<open>sim_\<dots>\<close> per call.
\<close>

section \<open>Reading the abstract state off the tables\<close>

lemma abs_fs_select [simp]:
  "names (abs_fs s) = names_of (dents s)" "nodes (abs_fs s) = nodes_of s"
  "handles (abs_fs s) = handles_of s" "spare (abs_fs s) = count_list (free_blocks s) FREE"
  by (simp_all add: abs_fs_def)

lemma ran_names:
  assumes wf: "fs_wfx X s"
  shows "i \<in> ran (names_of (dents s)) \<longleftrightarrow> 0 < nlinks s i"
proof
  assume "i \<in> ran (names_of (dents s))"
  then obtain n where "names_of (dents s) n = Some i" by (auto simp: ran_def)
  then show "0 < nlinks s i"
    by (cases rule: lookup_cases [OF wf, of n]) auto
next
  assume "0 < nlinks s i"
  then have "int i \<in> set (map snd (dents s))"
    by (metis count_list_0_iff nlinks_def less_irrefl)
  then obtain j where "j < MAX_DIR_ENTRIES s" "snd (dents s ! j) = int i"
    by (auto simp: in_set_conv_nth)
  then have "names_of (dents s) (fst (dents s ! j)) = Some i"
    by (auto simp: names_of_Some [OF wfx_distinct [OF wf]])
  then show "i \<in> ran (names_of (dents s))" by (auto simp: ran_def)
qed

lemma has_handle_abs:
  assumes "fs_wfx X s"
  shows "has_handle s i \<longleftrightarrow> (\<exists>f off. handles_of s f = Some (i, off))"
  using live_handle_facts(1) [OF assms] by (auto simp: has_handle_def handles_of_def)

lemma unreferenced_abs: "fs_wfx X s \<Longrightarrow> unreferenced (abs_fs s) i \<longleftrightarrow> nlinks s i = 0 \<and> \<not> has_handle s i"
  by (simp add: unreferenced_def ran_names has_handle_abs)

lemma no_orphans_abs: "fs_wf s \<Longrightarrow> no_orphans s \<longleftrightarrow> all_referenced (abs_fs s)"
  by (auto simp: no_orphans_def all_referenced_def unreferenced_abs nodes_of_def)

lemma dir_full_abs:
  assumes wf: "fs_wfx X s"
  shows "dir_full (fs_params s) (abs_fs s) \<longleftrightarrow> empty_index (dents s) = None"
proof -
  let ?D = "dents s" and ?L = "{j. j < MAX_DIR_ENTRIES s \<and> snd (dents s ! j) \<noteq> -1}"
  have "dom (names_of ?D) = (\<lambda>j. fst (?D ! j)) ` ?L"
    by (auto simp: names_of_Some [OF wfx_distinct [OF wf]])
  moreover have "inj_on (\<lambda>j. fst (?D ! j)) ?L"
    using wfx_distinct [OF wf] by (auto simp: inj_on_def distinct_names_def)
  ultimately have card: "card (dom (names_of ?D)) = card ?L"
    by (simp add: card_image)
  have "card ?L = MAX_DIR_ENTRIES s \<longleftrightarrow> ?L = {..<MAX_DIR_ENTRIES s}"
    using card_subset_eq [of "{..<MAX_DIR_ENTRIES s}" ?L] by (metis (no_types, lifting) card_lessThan
        finite_lessThan lessThan_iff mem_Collect_eq subsetI)
  also have "\<dots> \<longleftrightarrow> (\<forall>j<MAX_DIR_ENTRIES s. snd (?D ! j) \<noteq> -1)"
    by (auto simp: set_eq_iff)
  also have "\<dots> \<longleftrightarrow> empty_index ?D = None"
    by (simp add: empty_index_def find_upt_None_iff)
  finally show ?thesis
    using card by (simp add: dir_full_def MAX_DIR_ENTRIES_def)
qed

lemma inodes_full_abs:
  assumes "fs_wfx X s"
  shows "inodes_full (fs_params s) (abs_fs s) \<longleftrightarrow> first_free (freeinode_ts s) = None"
proof -
  have "freeinode_ts s ! 0 \<noteq> FREE"
    using wfx_root [OF assms] by (simp add: taken_inode_def)
  then have "first_free (freeinode_ts s) = None \<longleftrightarrow>
      (\<forall>j. 0 < j \<longrightarrow> j < max_inode_count (fs_params s) \<longrightarrow> freeinode_ts s ! j \<noteq> FREE)"
    using tables_okD [OF wfx_tables [OF assms]] unfolding first_free_None by (metis neq0_conv)
  then show ?thesis
    by (simp add: inodes_full_def nodes_of_def taken_inode_def) (metis allocation_state_t.exhaust allocation_state_t.distinct(1))
qed

lemma fresh_inode_abs:
  assumes "fs_wfx X s" and "first_free (freeinode_ts s) = Some k"
  shows "fresh_inode (fs_params s) (abs_fs s) k" and "k \<noteq> 0" and "k < INODE_TABLE_SIZE s"
    and "freeinode_ts s ! k = FREE"
proof -
  show k: "k \<noteq> 0" "k < INODE_TABLE_SIZE s" "freeinode_ts s ! k = FREE"
    using assms free_not_zero [OF assms(1)] tables_okD [OF wfx_tables [OF assms(1)]]
    by (auto simp: first_free_Some)
  then show "fresh_inode (fs_params s) (abs_fs s) k"
    by (simp add: fresh_inode_def nodes_of_def taken_inode_def)
qed

lemma handles_full_abs:
  assumes "fs_wfx X s"
  shows "handles_full (fs_params s) (abs_fs s) \<longleftrightarrow> first_free (free_open_file_entries s) = None"
  using tables_okD [OF wfx_tables [OF assms]]
  by (simp add: handles_full_def first_free_None handles_of_def live_handle_def)
    (metis allocation_state_t.exhaust allocation_state_t.distinct(1))

lemma count_free_zero: "count_list xs FREE = 0 \<longleftrightarrow> first_free xs = None"
  by (auto simp: first_free_None count_list_0_iff in_set_conv_nth)

lemma content_length:
  assumes wf: "fs_wfx X s" and i: "taken_inode s i"
  shows "length (content s i) = i_size (inode_table s ! i)"
proof (cases "0 < i_size (inode_table s ! i)")
  case True
  then obtain b where b: "owns s i b" using nonempty_file_owns [OF wf i] by blast
  have "i_size (inode_table s ! i) \<le> BLOCK_SIZE s"
    using wfx_node [OF wf i] wf by (cases "i = 0") (auto simp: node_ok_def fs_wfx_def root_ok_def)
  then show ?thesis
    using owned_block [OF wf b] wfx_tables [OF wf] by (simp add: content_def)
qed (simp add: content_def)

lemma blocks_held_abs:
  assumes "fs_wfx X s" and "taken_inode s i" and "i \<noteq> 0"
  shows "blocks_held (nodes_of s i) = (if 0 < i_size (inode_table s ! i) then 1 else 0)"
proof -
  have "content s i = [] \<longleftrightarrow> i_size (inode_table s ! i) = 0"
    by (metis content_length [OF assms(1,2)] length_0_conv)
  then show ?thesis
    using wfx_node [OF assms] by (auto simp: blocks_held_def nodes_of_def assms node_view_def node_ok_def)
qed

section \<open>Steps\<close>

definition advances :: "fs_state \<Rightarrow> fs_state \<Rightarrow> bool" where
  "advances s s' \<longleftrightarrow> fs_wf s' \<and> fs_params s' = fs_params s \<and>
     (\<exists>t. bracketed Link_lock t \<and> lock_trace s' = lock_trace s @ t)"

lemma advancesI:
  assumes "fs_wf s'" and "fs_params s' = fs_params s" and "lock_trace s' = lock_trace s"
    and "brackets Link_lock [] t"
  shows "advances s (traced t s')"
  using assms bracketedI [OF assms(4)] by (auto simp: advances_def)

lemma advances_refl: "fs_wf s \<Longrightarrow> advances s s"
  by (auto simp: advances_def)

lemma inv_step:
  assumes "fs_inv s" and "advances s s'" and "client_step p (abs_fs s) c r (abs_fs s')"
  shows "fs_inv s'"
proof -
  have "fs_wf s'" and "all_referenced (abs_fs s)"
    using assms(1,2) by (simp_all add: fs_inv_def advances_def flip: no_orphans_abs)
  then show ?thesis
    using client_step_all_referenced [OF assms(3)] by (simp add: fs_inv_def no_orphans_abs)
qed

lemma abs_fs_eqI:
  "names_of (dents s) = names a \<Longrightarrow> nodes_of s = nodes a \<Longrightarrow> handles_of s = handles a \<Longrightarrow>
   count_list (free_blocks s) FREE = spare a \<Longrightarrow> abs_fs s = a"
  by (simp add: abs_fs_def)

lemma handles_abs: "open_handle (abs_fs s) h =
    (if 0 \<le> h \<and> live_handle s (nat h)
     then Some (nat h, handle_inode s (nat h), of_offset (open_file_table s ! nat h)) else None)"
  by (simp add: open_handle_def handles_of_def)

section \<open>Freeing inodes and closing\<close>

lemma count_free_update:
  assumes "b < length xs"
  shows "xs ! b = FREE \<Longrightarrow> count_list (xs[b := TAKEN]) FREE = count_list xs FREE - 1"
    and "xs ! b = TAKEN \<Longrightarrow> count_list (xs[b := FREE]) FREE = count_list xs FREE + 1"
  using count_list_update [OF assms, of TAKEN FREE] count_list_update [OF assms, of FREE FREE] by auto

lemma drop_inode_ok:
  assumes wf: "fs_wfx X s" and k: "taken_inode s k" "k \<noteq> 0"
    and unused: "nlinks s k = 0" "\<not> has_handle s k"
  shows "fs_wfx (X - {k}) (drop_inode k s)"
    and "abs_fs (drop_inode k s) = (abs_fs s)\<lparr>nodes := (nodes_of s)(k := None),
      spare := count_list (free_blocks s) FREE + blocks_held (nodes_of s k)\<rparr>"
proof -
  note T = wfx_tables [OF wf]
  have nk: "\<not> taken_inode (drop_inode k s) k"
    using k tables_okD [OF T] by (simp add: taken_inode_def drop_inode_def)
  have fb: "free_blocks (drop_inode k s) = free_blocks s \<or>
      (\<exists>b. owns s k b \<and> free_blocks (drop_inode k s) = (free_blocks s)[b := FREE])"
    using nonempty_file_owns [OF wf k(1)] owned_block(2) [OF wf] by (auto simp: drop_inode_def)
  have "fs_wfx X (drop_inode k s)"
    using wfx_free_inode [OF wf k unused fb] by (simp add: drop_inode_def)
  then have "fs_wfx (insert k (X - {k})) (drop_inode k s)"
    by (rule wfx_mono) auto
  then show "fs_wfx (X - {k}) (drop_inode k s)"
    by (rule wfx_settle) (simp add: nk)
  have "count_list (free_blocks (drop_inode k s)) FREE =
      count_list (free_blocks s) FREE + blocks_held (nodes_of s k)"
  proof (cases "0 < i_size (inode_table s ! k)")
    case True
    then obtain b where b: "owns s k b" using nonempty_file_owns [OF wf k(1)] by blast
    then show ?thesis
      using True owned_block(2) [OF wf b] owns_block [OF wf b] tables_okD [OF T] blocks_held_abs [OF wf k]
      by (simp add: drop_inode_def count_free_update(2))
  qed (use blocks_held_abs [OF wf k] in \<open>simp add: drop_inode_def\<close>)
  then show "abs_fs (drop_inode k s) = (abs_fs s)\<lparr>nodes := (nodes_of s)(k := None),
      spare := count_list (free_blocks s) FREE + blocks_held (nodes_of s k)\<rparr>"
    using nodes_drop [OF T, of k] k by (intro abs_fs_eqI) (simp_all add: taken_inode_def)
qed

lemma reclaim_ok:
  assumes wf: "fs_wf s" and k: "taken_inode s k" "k \<noteq> 0"
  defines "s' \<equiv> (if reclaim k s then drop_inode k s else s)"
  shows "fs_wf s'" and "abs_fs s' = collect k (abs_fs s)"
    and "fs_params s' = fs_params s" and "lock_trace s' = lock_trace s"
proof -
  have "i_hard_links (inode_table s ! k) = nlinks s k"
    using wf k by (simp add: fs_wfx_def links_ok_def)
  then have rec: "reclaim k s \<longleftrightarrow> nlinks s k = 0 \<and> \<not> has_handle s k"
    by (simp add: reclaim_def)
  show "fs_wf s'"
    using drop_inode_ok(1) [OF wf k] wf rec by (simp add: s'_def)
  show "abs_fs s' = collect k (abs_fs s)"
    using drop_inode_ok(2) [OF wf k] rec unreferenced_abs [OF wf, of k] by (simp add: s'_def collect_def)
qed (simp_all add: s'_def)

lemma brackets_delete [simp]:
  "brackets C held (delete_trace k s @ t) \<longleftrightarrow>
     C \<le> Freeinode_ts_lock \<and> may_acquire held freeinode_ts_lock \<and> brackets C held t"
  by (auto simp: delete_trace_def may_acquire_def less_lock_class_def less_eq_lock_class_def)

lemma sim_close:
  assumes inv: "fs_inv s"
  shows "\<exists>r s'. tfs_close h s = Inr (r, s') \<and> advances s s' \<and>
    client_step (fs_params s) (abs_fs s) (Close h) (r, []) (abs_fs s')"
proof (cases "0 \<le> h \<and> live_handle s (nat h)")
  case False
  then have "tfs_close h s = Inr (-1, s)"
    using inv by (auto simp: tfs_close_def remove_from_open_file_table_def fs_inv_def get_open_file_entry_eq wfx_tables)
  moreover have "client_step (fs_params s) (abs_fs s) (Close h) (-1, []) (abs_fs s)"
    using False by (intro step_close_bad) (auto simp: handles_abs)
  ultimately show ?thesis
    using inv by (auto simp: fs_inv_def intro: advances_refl)
next
  case True
  define f where "f = nat h"
  have wf: "fs_wf s" and f: "live_handle s f" "h = int f"
    using inv True by (simp_all add: fs_inv_def f_def)
  let ?k = "handle_inode s f" and ?s = "closed f s"
  have wf1: "fs_wf ?s"
    unfolding closed_def by (rule wfx_set_handle [OF wf]) simp
  note R = reclaim_ok [OF wf1, of ?k] and F = live_handle_facts [OF wf f(1)]
  have tk: "taken_inode ?s ?k"
    using F(3) by (simp add: closed_def taken_inode_def)
  have abs1: "abs_fs ?s = (abs_fs s)\<lparr>handles := (handles_of s)(f := None)\<rparr>"
    using handles_set_handle(2) [OF wfx_tables [OF wf], of f] f(1)
    by (intro abs_fs_eqI) (simp_all add: closed_def live_handle_def)
  have "brackets Link_lock [] (close_trace f ?k ?s)"
    by (simp add: close_trace_def may_acquire_def less_lock_class_def less_eq_lock_class_def)
  then have "advances s (traced (close_trace f ?k ?s) (if reclaim ?k ?s then drop_inode ?k ?s else ?s))"
    using R(1,3,4) tk F(2) by (intro advancesI) (simp_all add: closed_def)
  moreover have "client_step (fs_params s) (abs_fs s) (Close h) (0, []) (collect ?k (abs_fs ?s))"
    using step_close [of "abs_fs s" h f ?k] f by (simp add: handles_abs abs1)
  ultimately show ?thesis
    using remove_from_open_file_table_eq [OF wf f(1)] R(2) tk F(2) f(2)
    by (simp add: tfs_close_def Let_def)
qed

section \<open>Reading and writing\<close>

lemma abs_seek:
  assumes "fs_wfx X s" and "live_handle s f"
  shows "abs_fs (seek f off s) = (abs_fs s)\<lparr>handles := (handles_of s)(f \<mapsto> (handle_inode s f, off))\<rparr>"
  using handles_set_handle(1) [OF wfx_tables [OF assms(1)], of f] assms(2) live_handle_facts(1) [OF assms]
  by (intro abs_fs_eqI) (simp_all add: seek_def live_handle_def)

lemma brackets_file:
  "fst a \<in> {Inode_lock} \<Longrightarrow> e = Acquire_rd a \<or> e = Acquire_wr a \<Longrightarrow> t = [] \<or> t = blocks_trace \<Longrightarrow>
   brackets Link_lock [] (file_trace f e a t)"
  by (auto simp: file_trace_def may_acquire_def less_lock_class_def less_eq_lock_class_def)

lemma file_node:
  assumes "fs_wfx X s" and "live_handle s f"
  shows "nodes_of s (handle_inode s f) = Some (AFile (content s (handle_inode s f)))"
  using live_handle_facts [OF assms] by (simp add: nodes_of_def node_view_def)

lemma sim_read:
  assumes inv: "fs_inv s" and buf: "n \<le> length buf"
  shows "\<exists>r buf' s'. tfs_read h (Some buf) n s = Inr (r, Some buf', s') \<and> advances s s' \<and>
    length buf' = length buf \<and> drop (nat r) buf' = drop (nat r) buf \<and>
    client_step (fs_params s) (abs_fs s) (Read h n) (r, take (nat r) buf') (abs_fs s')"
proof (cases "0 \<le> h \<and> live_handle s (nat h)")
  case False
  then have "tfs_read h (Some buf) n s = Inr (-1, Some buf, s)"
    using inv by (auto simp: tfs_read_def read_from_open_file_def fs_inv_def get_open_file_entry_eq wfx_tables)
  moreover have "client_step (fs_params s) (abs_fs s) (Read h n) (-1, []) (abs_fs s)"
    using False by (intro step_read_bad) (auto simp: handles_abs)
  ultimately show ?thesis
    using inv by (auto simp: fs_inv_def intro: advances_refl)
next
  case True
  define f where "f = nat h"
  have wf: "fs_wf s" and f: "live_handle s f" "h = int f"
    using inv True by (simp_all add: fs_inv_def f_def)
  define k off where "k = handle_inode s f" and "off = cur_offset s f"
  define bs where "bs = take n (drop off (content s k))"
  define t where "t = file_trace f (Acquire_rd (Inode_lock, k)) (Inode_lock, k) []"
  note F = live_handle_facts [OF wf f(1)]
  have len: "length (content s k) = i_size (inode_table s ! k)"
    using content_length [OF wf] F(3) by (simp add: k_def)
  have off: "off = min (of_offset (open_file_table s ! f)) (length (content s k))"
    using len by (simp add: off_def cur_offset_def k_def)
  have "off + length bs \<le> BLOCK_SIZE s"
    using file_size_le [OF wf f(1)] off len by (simp add: bs_def k_def)
  then have "advances s (traced t (seek f (off + length bs) s))"
    using wfx_seek [OF wf f(1)] brackets_file [of "(Inode_lock, k)" _ "[]" f]
    by (intro advancesI) (auto simp: t_def)
  moreover have "client_step (fs_params s) (abs_fs s) (Read h n) (int (length bs), bs)
      (abs_fs (seek f (off + length bs) s))"
    using step_read [of "abs_fs s" h f k _ "content s k" off bs n] f off file_node [OF wf f(1)]
    by (simp add: handles_abs abs_seek [OF wf f(1)] k_def bs_def)
  moreover have "length bs \<le> length buf"
    using buf by (simp add: bs_def)
  ultimately show ?thesis
    using read_from_open_file_eq [OF wf f(1) buf]
    by (simp add: tfs_read_def f(2) bs_def [symmetric] k_def [symmetric] off_def [symmetric]
        t_def [symmetric] Let_def patch_def)
qed

lemma stored_select:
  "fs_params (stored f k b off bs s) = fs_params s" "lock_trace (stored f k b off bs s) = lock_trace s"
  by (simp_all add: stored_def)

lemma take_patch_grow:
  assumes "off \<le> n" and "n \<le> length blk" and "off + length bs \<le> length blk"
  shows "take (max n (off + length bs)) (patch blk off bs) =
    take off (take n blk) @ bs @ drop (off + length bs) (take n blk)"
  using assms by (auto simp: patch_def max_def min_def drop_take) (simp flip: length_0_conv)

lemma stored_ok:
  assumes wf: "fs_wf s" and f: "live_handle s f" and bs: "off + length bs \<le> BLOCK_SIZE s"
  defines "k \<equiv> handle_inode s f"
  assumes off: "off \<le> i_size (inode_table s ! k)" "bs \<noteq> []"
    and b: "i_data_block (inode_table s ! k) = int b" "b < DATA_BLOCKS s" "free_blocks s ! b = TAKEN"
      "\<And>i. i \<noteq> k \<Longrightarrow> \<not> owns s i b"
  shows "fs_wf (stored f k b off bs s)"
    and "abs_fs (stored f k b off bs s) = (abs_fs s)\<lparr>
      nodes := (nodes_of s)(k \<mapsto> AFile (take off (content s k) @ bs @ drop (off + length bs) (content s k))),
      handles := (handles_of s)(f \<mapsto> (k, off + length bs))\<rparr>"
proof -
  note F = live_handle_facts [OF wf f, folded k_def] and T = wfx_tables [OF wf]
  let ?n = "inode_table s ! k" and ?sz = "off + length bs"
  define s1 where "s1 = put_bytes b off bs s"
  define s2 where "s2 = seek f ?sz s1"
  have b0: "b \<noteq> 0"
    using b(4) [of 0] owns_zero [OF wf] F(2) by metis
  have "fs_wf s1"
    unfolding s1_def put_bytes_def
  proof (rule wfx_patch [OF wf b(2) b0 bs])
    show "i_node_type (inode_table s ! i) \<noteq> T_SYM_LINK" if "owns s i b" for i
      using that b(4) [of i] F(4) by (cases "i = k") auto
  qed
  then have wf2: "fs_wf s2"
    unfolding s2_def using f bs by (intro wfx_seek) (simp_all add: s1_def)
  have sel: "inode_table s2 = inode_table s" "fs_params s2 = fs_params s" "free_blocks s2 = free_blocks s"
      "taken_inode s2 = taken_inode s" "owns s2 = owns s"
    by (auto simp: s2_def s1_def fun_eq_iff taken_inode_def owns_def)
  have "node_ok s ?n"
    using wfx_node [OF wf F(3) F(2)] .
  then have g: "node_ok s2 (grown ?n ?sz)" "i_node_type (grown ?n ?sz) = T_FILE"
      "i_data_block (grown ?n ?sz) = int b" "i_hard_links (grown ?n ?sz) = i_hard_links ?n"
      "i_size (grown ?n ?sz) = max (i_size ?n) ?sz"
    using F(4) bs b(1) by (auto simp: node_ok_def grown_def sel)
  have wf3: "fs_wfx (insert k {}) (set_node k (grown ?n ?sz) s2)"
    unfolding set_node_def
    using F(2-4) g b by (intro wfx_set_node [OF wf2]) (auto simp: sel)
  have "i_hard_links ?n = nlinks s2 k"
    using wf2 F(2,3) sel by (simp add: fs_wfx_def links_ok_def)
  then show "fs_wf (stored f k b off bs s)"
    unfolding stored_def s1_def [symmetric] s2_def [symmetric]
    using F(9) g by (intro wfx_settle [OF wf3]) (simp_all add: target_ok_def nlinks_def sel(1))
  have "block_of s2 b = patch (block_of s b) off bs"
    using block_of_patch [OF T b(2) bs b(2)] by (simp add: s2_def s1_def put_bytes_def seek_def set_handle_def)
  moreover have "content s k = take (i_size ?n) (block_of s b)"
    using b(1) by (simp add: content_def block_number_def)
  moreover have "i_size ?n \<le> length (block_of s b)" "?sz \<le> length (block_of s b)"
    using file_size_le [OF wf f] T b(2) bs by (simp_all add: k_def)
  ultimately have new: "take (i_size (grown ?n ?sz)) (block_of s2 b) =
      take off (content s k) @ bs @ drop ?sz (content s k)"
    using take_patch_grow [OF off(1)] g(5) by simp
  have "nodes_of s2 i = nodes_of s i" if "i \<noteq> k" for i
    using nodes_put_bytes [OF wf wf_links_hold [OF wf] b(2) bs b(4) [OF that]] by (simp add: s2_def s1_def seek_def)
  then have "nodes_of (set_node k (grown ?n ?sz) s2) =
      (nodes_of s)(k \<mapsto> AFile (take off (content s k) @ bs @ drop ?sz (content s k)))"
    using nodes_set_node [of s2 k "grown ?n ?sz"] new g F(2,3,9) by (simp add: sel fun_eq_iff)
  moreover have "handles_of s2 = (handles_of s)(f \<mapsto> (k, ?sz))"
    using abs_seek [OF \<open>fs_wf s1\<close>, of f ?sz] f
    by (simp add: s2_def abs_fs_def s1_def k_def handle_inode_def)
  moreover have "dents s2 = dents s"
    using dents_put_bytes [OF T b(2) b0 bs] by (simp add: s2_def s1_def seek_def)
  ultimately show "abs_fs (stored f k b off bs s) = (abs_fs s)\<lparr>
      nodes := (nodes_of s)(k \<mapsto> AFile (take off (content s k) @ bs @ drop (off + length bs) (content s k))),
      handles := (handles_of s)(f \<mapsto> (k, off + length bs))\<rparr>"
    unfolding stored_def s1_def [symmetric] s2_def [symmetric]
    by (intro abs_fs_eqI) (simp_all add: sel)
qed

lemma assign_block_ok:
  assumes wf: "fs_wf s" and f: "live_handle s f" and b: "first_free (free_blocks s) = Some b"
  defines "k \<equiv> handle_inode s f"
  assumes empty: "i_size (inode_table s ! k) = 0"
  defines "s' \<equiv> set_node k ((inode_table s ! k)\<lparr>i_data_block := int b\<rparr>) (set_block b TAKEN s)"
  shows "fs_wf s'" and "abs_fs s' = (abs_fs s)\<lparr>spare := spare (abs_fs s) - 1\<rparr>"
    and "\<And>i. \<not> owns s' i b" and "b < DATA_BLOCKS s'" and "free_blocks s' ! b = TAKEN"
proof -
  note F = live_handle_facts [OF wf f, folded k_def] and T = tables_okD [OF wfx_tables [OF wf]]
  let ?n = "(inode_table s ! k)\<lparr>i_data_block := int b\<rparr>"
  have bb: "b < DATA_BLOCKS s" "free_blocks s ! b = FREE"
    using b T by (simp_all add: first_free_Some)
  note A = wfx_alloc_block [OF wf bb(2), folded set_block_def]
  have tk: "taken_inode (set_block b TAKEN s) k"
    using F(3) by (simp add: taken_inode_def)
  have wf2: "fs_wfx (insert k {}) s'"
    unfolding s'_def set_node_def
    using wfx_node [OF wf F(3,2)] F(2) tk F(4) empty
    by (intro wfx_set_node [OF A(1)]) (auto simp: node_ok_def)
  have nk: "inode_table s' ! k = ?n"
    using F(9) by (simp add: s'_def)
  have nl: "nlinks s' k = nlinks s k"
    by (simp add: nlinks_def s'_def)
  show "fs_wf s'"
    using wf2
  proof (rule wfx_settle)
    show "i_hard_links (inode_table s' ! k) = nlinks s' k \<and> target_ok s' k"
      using wf F(2-4) nk nl by (simp add: fs_wfx_def links_ok_def target_ok_def)
  qed
  have "nodes_of s' = nodes_of s"
    using nodes_set_node [OF tk F(2), of ?n] F(2-4,9) empty
    by (auto simp: s'_def fun_eq_iff nodes_of_def node_view_def content_def)
  moreover have "count_list (free_blocks s') FREE = count_list (free_blocks s) FREE - 1"
    using count_free_update(1) [of b "free_blocks s"] bb T by (simp add: s'_def)
  ultimately show "abs_fs s' = (abs_fs s)\<lparr>spare := spare (abs_fs s) - 1\<rparr>"
    by (intro abs_fs_eqI) (simp_all add: s'_def)
  show "\<not> owns s' i b" for i
  proof (cases "i = k")
    case False
    then have "owns s' i b = owns s i b"
      by (simp add: owns_def s'_def taken_inode_def)
    then show ?thesis
      using owns_block(2) [OF wf, of i b] bb(2) by auto
  qed (use empty F(4) nk in \<open>simp add: owns_def\<close>)
  show "b < DATA_BLOCKS s'" "free_blocks s' ! b = TAKEN"
    using bb T by (simp_all add: s'_def)
qed

lemma sim_write:
  assumes inv: "fs_inv s" and buf: "length buf < 2 ^ 63"
  shows "\<exists>r s'. tfs_write h (Some buf) (length buf) s = Inr (r, s') \<and> advances s s' \<and>
    client_step (fs_params s) (abs_fs s) (Write h buf) (r, []) (abs_fs s')"
proof (cases "0 \<le> h \<and> live_handle s (nat h)")
  case False
  then have "tfs_write h (Some buf) (length buf) s = Inr (-1, s)"
    using inv by (auto simp: tfs_write_def write_to_open_file_def fs_inv_def get_open_file_entry_eq wfx_tables)
  moreover have "client_step (fs_params s) (abs_fs s) (Write h buf) (-1, []) (abs_fs s)"
    using False by (intro step_write_bad) (auto simp: handles_abs)
  ultimately show ?thesis
    using inv by (auto simp: fs_inv_def intro: advances_refl)
next
  case True
  define f where "f = nat h"
  have wf: "fs_wf s" and f: "live_handle s f" "h = int f"
    using inv True by (simp_all add: fs_inv_def f_def)
  define k off where "k = handle_inode s f" and "off = cur_offset s f"
  define bs where "bs = take (BLOCK_SIZE s - off) buf"
  define tr where "tr = file_trace f (Acquire_wr (Inode_lock, k)) (Inode_lock, k)"
  note F = live_handle_facts [OF wf f(1), folded k_def]
  let ?c = "content s k" and ?s = "seek f off s"
  have len: "length ?c = i_size (inode_table s ! k)"
    using content_length [OF wf F(3)] .
  have off: "off = min (of_offset (open_file_table s ! f)) (length ?c)" and offle: "off \<le> i_size (inode_table s ! k)"
    using len by (simp_all add: off_def cur_offset_def k_def)
  have fits: "off + length bs \<le> BLOCK_SIZE s" "off \<le> BLOCK_SIZE s"
    using file_size_le [OF wf f(1)] offle by (simp_all add: bs_def k_def)
  have wfs: "fs_wf ?s"
    using wfx_seek [OF wf f(1) fits(2)] .
  have tr: "brackets Link_lock [] (tr [])" "brackets Link_lock [] (tr blocks_trace)"
    using brackets_file [of "(Inode_lock, k)" "Acquire_wr (Inode_lock, k)" _ f] by (simp_all add: tr_def)
  have live: "live_handle ?s f" and hk: "handle_inode ?s f = k"
    using seek_live [OF f(1)] f(1) F(6) by (simp_all add: handle_inode_def seek_def k_def)
  have oh: "open_handle (abs_fs s) h = Some (f, k, of_offset (open_file_table s ! f))"
    using f by (simp add: handles_abs k_def)
  have node: "nodes (abs_fs s) k = Some (AFile ?c)"
    using file_node [OF wf f(1)] by (simp add: k_def)
  have views: "nodes_of ?s = nodes_of s" "content ?s k = ?c"
      "handles_of ?s = (handles_of s)(f \<mapsto> (k, off))"
    using abs_seek [OF wf f(1), of off] by (simp_all add: abs_fs_def k_def content_def seek_def
        block_number_def set_handle_def)
  let ?a = "(abs_fs s)\<lparr>nodes := (nodes_of s)(k \<mapsto> AFile (take off ?c @ bs @ drop (off + length bs) ?c)),
    handles := (handles_of s)(f \<mapsto> (k, off + length bs)),
    spare := spare (abs_fs s) - (if ?c = [] \<and> bs \<noteq> [] then 1 else 0)\<rparr>"
  have step: "bs = [] \<or> ?c \<noteq> [] \<or> 0 < spare (abs_fs s) \<Longrightarrow> abs_fs s' = ?a \<Longrightarrow>
      client_step (fs_params s) (abs_fs s) (Write h buf) (int (length bs), []) (abs_fs s')" for s'
    using step_write [OF oh node off, of bs "fs_params s" buf] by (simp add: bs_def)
  have bs': "take (min (length buf) (BLOCK_SIZE s - off)) buf = bs"
    by (simp add: bs_def min_def)
  have eq: "tfs_write h (Some buf) (length buf) s = Inr (
     if bs = [] then (0, traced (tr []) ?s)
     else if i_size (inode_table s ! k) = 0 then
       (case first_free (free_blocks s) of
          None \<Rightarrow> (-1, traced (tr blocks_trace) ?s)
        | Some b \<Rightarrow> (int (length bs), traced (tr blocks_trace)
            (stored f k b off bs (set_node k ((inode_table s ! k)\<lparr>i_data_block := int b\<rparr>)
               (set_block b TAKEN ?s)))))
     else (int (length bs), traced (tr []) (stored f k (block_number s k) off bs ?s)))"
    unfolding tfs_write_def f(2) tr_def
    using write_to_open_file_eq [OF wf f(1) order_refl buf, folded k_def off_def, unfolded bs'] .
  consider (no_bytes) "bs = []" | (full) "bs \<noteq> []" "i_size (inode_table s ! k) = 0" "first_free (free_blocks s) = None"
    | (fresh) b where "bs \<noteq> []" "i_size (inode_table s ! k) = 0" "first_free (free_blocks s) = Some b"
    | (over) "bs \<noteq> []" "0 < i_size (inode_table s ! k)"
    by fastforce
  then show ?thesis
  proof cases
    case no_bytes
    have "abs_fs ?s = ?a"
      unfolding no_bytes using node views by (intro abs_fs_eqI) (simp_all add: fun_upd_idem seek_def)
    then show ?thesis
      using no_bytes eq step [of ?s] wfs tr by (auto intro!: advancesI)
  next
    case full
    then have "abs_fs ?s = (abs_fs s)\<lparr>handles := (handles (abs_fs s))(f \<mapsto> (k, 0))\<rparr>"
      using abs_seek [OF wf f(1), of off] offle by (simp add: k_def)
    moreover have "nodes (abs_fs s) k = Some (AFile [])" "buf \<noteq> []" "spare (abs_fs s) = 0"
        "0 < block_size (fs_params s)"
      using full node len count_free_zero tables_okD(12) [OF wfx_tables [OF wf]] by (auto simp: bs_def)
    ultimately have "client_step (fs_params s) (abs_fs s) (Write h buf) (-1, []) (abs_fs ?s)"
      using step_write_no_space [OF oh] by metis
    then show ?thesis
      using full eq wfs tr by (auto intro!: advancesI)
  next
    case (fresh b)
    let ?t = "set_node k ((inode_table s ! k)\<lparr>i_data_block := int b\<rparr>) (set_block b TAKEN ?s)"
    have A: "fs_wf ?t" "abs_fs ?t = (abs_fs ?s)\<lparr>spare := spare (abs_fs ?s) - 1\<rparr>"
        "\<And>i. \<not> owns ?t i b" "b < DATA_BLOCKS ?t" "free_blocks ?t ! b = TAKEN"
      using assign_block_ok [OF wfs live, of b, unfolded hk] fresh by auto
    have t: "live_handle ?t f" "handle_inode ?t f = k" "content ?t k = ?c"
      using live hk F(9) fresh(2) by (simp_all add: live_handle_def handle_inode_def content_def)
    have "fs_wf (stored f k b off bs ?t)" "abs_fs (stored f k b off bs ?t) = (abs_fs ?t)\<lparr>
      nodes := (nodes_of ?t)(k \<mapsto> AFile (take off ?c @ bs @ drop (off + length bs) ?c)),
      handles := (handles_of ?t)(f \<mapsto> (k, off + length bs))\<rparr>"
      using stored_ok [OF A(1) t(1), of off bs b, unfolded t(2,3)] A fresh(1) fits offle F(9) by auto
    moreover have "nodes_of ?t = nodes_of s" "handles_of ?t = (handles_of s)(f \<mapsto> (k, off))"
      using A(2) views by (simp_all add: abs_fs_def)
    moreover have sp: "0 < spare (abs_fs s)" "?c = []"
      using fresh(2,3) len count_free_zero [of "free_blocks s"] by auto
    ultimately have "fs_wf (stored f k b off bs ?t)" "abs_fs (stored f k b off bs ?t) = ?a"
      using A(2) fresh(1) abs_seek [OF wf f(1), of off] by simp_all
    then show ?thesis
      using fresh eq step [of "stored f k b off bs ?t"] sp tr by (auto intro!: advancesI simp: stored_select)
  next
    case over
    then obtain b where b: "owns s k b"
      using nonempty_file_owns [OF wf F(3)] by blast
    note B = owned_block [OF wf b]
    note S = stored_ok [OF wfs live, of off bs b, unfolded hk views]
    have "owns ?s = owns s"
      by (simp add: fun_eq_iff owns_def taken_inode_def)
    then have "fs_wf (stored f k b off bs ?s)" "abs_fs (stored f k b off bs ?s) = (abs_fs ?s)\<lparr>
      nodes := (nodes_of s)(k \<mapsto> AFile (take off ?c @ bs @ drop (off + length bs) ?c)),
      handles := (handles_of s)(f \<mapsto> (k, off + length bs))\<rparr>"
      using S over fits offle B owns_block [OF wf b] owns_inj [OF wf b] by auto
    moreover have "?c \<noteq> []"
      using over len by auto
    ultimately have "fs_wf (stored f k b off bs ?s)" "abs_fs (stored f k b off bs ?s) = ?a" "?c \<noteq> []"
      using abs_seek [OF wf f(1), of off] by simp_all
    then show ?thesis
      using over eq step [of "stored f k b off bs ?s"] tr B(2) by (auto intro!: advancesI simp: stored_select)
  qed
qed

section \<open>Names\<close>

definition dir_lock_trace :: "string \<Rightarrow> lock_event \<Rightarrow> lock_event list" where
  "dir_lock_trace name a = (if invalid_sub_name name then [] else dir_trace a)"

lemma brackets_dir [simp]:
  "a = Acquire_rd (Dir_lock, 0) \<or> a = Acquire_wr (Dir_lock, 0) \<Longrightarrow>
   brackets C held (dir_lock_trace name a @ t) \<longleftrightarrow>
     (invalid_sub_name name \<or> (C \<le> Dir_lock \<and> may_acquire held (Dir_lock, 0))) \<and> brackets C held t"
  by (auto simp: dir_lock_trace_def)

lemma names_valid:
  assumes "fs_wfx X s" and "names_of (dents s) name = Some k"
  shows "\<not> invalid_sub_name name"
  using assms(2) wfx_entry [OF assms(1)]
  by (auto simp: names_of_Some [OF wfx_distinct [OF assms(1)]] entry_ok_def invalid_sub_name_def MAX_FILE_NAME_def)
    fastforce

lemma tfs_lookup_eq:
  assumes "fs_wfx X s" and "valid_pathname (Some path)" and "is_cstring path"
  shows "tfs_lookup (Some path) 0 s =
    Inr (case names_of (dents s) (tl path) of None \<Rightarrow> -1 | Some k \<Rightarrow> int k,
      traced (dir_lock_trace (tl path) (Acquire_rd (Dir_lock, 0))) s)"
proof -
  note T = wfx_tables [OF assms(1)] and R = wfx_root_dir [OF assms(1)]
  have cs: "is_cstring (tl path)"
    using assms(3) by (cases path) (auto simp: is_cstring_def)
  have "find_in_dir 0 (tl path) s = Inr (dir_lookup (dents s) (tl path),
      traced (dir_lock_trace (tl path) (Acquire_rd (Dir_lock, 0))) s)"
  proof (cases "invalid_sub_name (tl path)")
    case True
    then have "names_of (dents s) (tl path) = None"
      using names_valid [OF assms(1)] by (cases "names_of (dents s) (tl path)") auto
    then have "dir_lookup (dents s) (tl path) = -1"
      by (simp add: names_of_None dir_lookup_def)
    with True show ?thesis
      by (simp add: find_in_dir_def dir_lock_trace_def)
  qed (use find_in_dir_eq [OF T R cs] in \<open>simp add: dir_lock_trace_def\<close>)
  moreover have "dir_lookup (dents s) (tl path) =
      (case names_of (dents s) (tl path) of None \<Rightarrow> -1 | Some k \<Rightarrow> int k)"
    by (cases rule: lookup_cases [OF assms(1), of "tl path"]) simp_all
  ultimately show ?thesis
    using assms(2) R by (simp add: tfs_lookup_def root_at [OF T] root_dir_def)
qed

definition bind_name :: "string \<Rightarrow> nat \<Rightarrow> fs_state \<Rightarrow> fs_state" where
  "bind_name name k s = set_entry (the (empty_index (dents s))) (name_bytes name) (int k) s"

definition unbind_name :: "string \<Rightarrow> fs_state \<Rightarrow> fs_state" where
  "unbind_name name s = set_entry (the (name_index (dents s) name)) (replicate 40 NUL) (-1) s"

lemma bind_select [simp]:
  "fs_params (bind_name name k s) = fs_params s" "inode_table (bind_name name k s) = inode_table s"
  "taken_inode (bind_name name k s) = taken_inode s" "free_blocks (bind_name name k s) = free_blocks s"
  "lock_trace (bind_name name k s) = lock_trace s" "has_handle (bind_name name k s) = has_handle s"
  "fs_params (unbind_name name s) = fs_params s" "inode_table (unbind_name name s) = inode_table s"
  "taken_inode (unbind_name name s) = taken_inode s" "free_blocks (unbind_name name s) = free_blocks s"
  "lock_trace (unbind_name name s) = lock_trace s" "has_handle (unbind_name name s) = has_handle s"
  "bind_name name k (traced t s) = traced t (bind_name name k s)"
  "unbind_name name (traced t s) = traced t (unbind_name name s)"
  by (auto simp: bind_name_def unbind_name_def taken_inode_def fun_eq_iff has_handle_def live_handle_def)

lemma add_entry_eq:
  assumes "fs_wfx X s" and "is_cstring name" and "k < INODE_TABLE_SIZE s"
  shows "add_dir_entry 0 name (int k) s =
    (let t = dir_lock_trace name (Acquire_wr (Dir_lock, 0)) in
     Inr (if can_bind (fs_params s) (abs_fs s) name then (0, traced t (bind_name name k s))
          else (-1, traced t s)))"
proof (cases "invalid_sub_name name")
  case True
  then show ?thesis
    by (simp add: add_dir_entry_def dir_lock_trace_def can_bind_def)
next
  case False
  then show ?thesis
    using add_dir_entry_eq [OF wfx_tables [OF assms(1)] wfx_root_dir [OF assms(1)] assms(2) False assms(3)]
    by (auto simp: dir_lock_trace_def can_bind_def dir_full_abs [OF assms(1)] names_of_None bind_name_def
        Let_def split: option.splits)
qed

lemma clear_entry_eq:
  assumes "fs_wfx X s" and "is_cstring name" and "names_of (dents s) name = Some k"
  shows "clear_dir_entry 0 name s =
    Inr (0, traced (dir_lock_trace name (Acquire_wr (Dir_lock, 0))) (unbind_name name s))"
  using assms(1)
proof (cases rule: lookup_cases [where name = name])
  case (bound j k')
  then show ?thesis
    using clear_dir_entry_eq [OF wfx_tables [OF assms(1)] wfx_root_dir [OF assms(1)] assms(2)]
      names_valid [OF assms(1,3)] by (simp add: dir_lock_trace_def unbind_name_def Let_def)
qed (use assms in simp)

text \<open>Entries are written into block 0 only, so symbolic links keep their targets.\<close>

lemma target_ok_same:
  assumes "inode_table s' = inode_table s" and "taken_inode s' = taken_inode s"
    and "\<And>b. owns s i b \<Longrightarrow> block_of s' b = block_of s b"
  shows "target_ok s' i \<longleftrightarrow> target_ok s i"
proof -
  have "owns s' = owns s"
    using assms(1,2) by (simp add: fun_eq_iff owns_def)
  then show ?thesis
    using assms by (auto simp: target_ok_def)
qed

lemma target_ok_set_entry:
  assumes "fs_wfx X s" and "j < MAX_DIR_ENTRIES s" and "length nm = 40" and "i \<noteq> 0"
  shows "target_ok (set_entry j nm v s) i \<longleftrightarrow> target_ok s i"
proof (rule target_ok_same)
  show "taken_inode (set_entry j nm v s) = taken_inode s"
    by (simp add: fun_eq_iff taken_inode_def)
  show "block_of (set_entry j nm v s) b = block_of s b" if "owns s i b" for b
  proof -
    have "b \<noteq> 0"
      using owns_inj [OF assms(1) that] owns_zero [OF assms(1)] assms(4) by metis
    then show ?thesis
      using block_of_set_entry [OF wfx_tables [OF assms(1)] assms(2,3) owns_block(1) [OF assms(1) that]] by simp
  qed
qed simp

lemma bind_ok:
  assumes wf: "fs_wfx X s" and hold: "links_hold s" and k: "taken_inode s k" "k \<noteq> 0"
    and name: "is_cstring name" "can_bind (fs_params s) (abs_fs s) name"
  shows "fs_wfx (insert k X) (bind_name name k s)"
    and "nlinks (bind_name name k s) k = nlinks s k + 1"
    and "target_ok (bind_name name k s) k \<longleftrightarrow> target_ok s k"
    and "abs_fs (bind_name name k s) = (abs_fs s)\<lparr>names := (names_of (dents s))(name \<mapsto> k)\<rparr>"
proof -
  have nm: "\<not> invalid_sub_name name" "live_index (dents s) name = None"
    and "empty_index (dents s) \<noteq> None"
    using name(2) by (auto simp: can_bind_def dir_full_abs [OF wf] names_of_None)
  then obtain j where e: "empty_index (dents s) = Some j" by blast
  then have j: "j < MAX_DIR_ENTRIES s" "snd (dents s ! j) = -1"
    by (auto simp: empty_index_def find_upt_Some_iff)
  have b: "bind_name name k s = set_entry j (name_bytes name) (int k) s"
    by (simp add: bind_name_def e)
  note S = wfx_store_entry [OF wf e k name(1) nm]
  show wf': "fs_wfx (insert k X) (bind_name name k s)" and "nlinks (bind_name name k s) k = nlinks s k + 1"
    using S by (simp_all add: b)
  show "target_ok (bind_name name k s) k \<longleftrightarrow> target_ok s k"
    unfolding b by (rule target_ok_set_entry [OF wf j(1) _ k(2)]) simp
  have "int k < 2 ^ 31"
    using k tables_okD [OF wfx_tables [OF wf]] by (simp add: taken_inode_def)
  then have D: "dents (bind_name name k s) = (dents s)[j := (name, int k)]"
    using dents_set_entry [OF wfx_tables [OF wf] j(1), of "name_bytes name" "int k"]
      cstr_name_bytes [OF name(1) nm(1)] by (simp add: b)
  show "abs_fs (bind_name name k s) = (abs_fs s)\<lparr>names := (names_of (dents s))(name \<mapsto> k)\<rparr>"
  proof (rule abs_fs_eqI)
    show "names_of (dents (bind_name name k s)) =
        names ((abs_fs s)\<lparr>names := (names_of (dents s))(name \<mapsto> k)\<rparr>)"
      using names_of_store [OF wfx_distinct [OF wf] _ _ j(2) nm(2), of k] j(1) wfx_distinct [OF wf'] D by simp
    show "nodes_of (bind_name name k s) = nodes ((abs_fs s)\<lparr>names := (names_of (dents s))(name \<mapsto> k)\<rparr>)"
      using nodes_set_entry [OF wf hold j(1)] by (simp add: b)
  qed (simp_all add: b)
qed

lemma unbind_ok:
  assumes wf: "fs_wfx X s" and hold: "links_hold s" and k: "names_of (dents s) name = Some k"
  shows "fs_wfx (insert k X) (unbind_name name s)"
    and "nlinks (unbind_name name s) k = nlinks s k - 1"
    and "target_ok (unbind_name name s) k \<longleftrightarrow> target_ok s k"
    and "abs_fs (unbind_name name s) = (abs_fs s)\<lparr>names := (names_of (dents s))(name := None)\<rparr>"
proof -
  obtain j where j: "name_index (dents s) name = Some j" "j < MAX_DIR_ENTRIES s" "dents s ! j = (name, int k)"
      "taken_inode s k" "k \<noteq> 0"
    using wf by (cases rule: lookup_cases [where name = name]) (use k in auto)
  then have u: "unbind_name name s = set_entry j (replicate 40 NUL) (-1) s"
    by (simp add: unbind_name_def)
  note S = wfx_clear_entry [OF wf j(2) _ j(4,5)]
  show wf': "fs_wfx (insert k X) (unbind_name name s)" and "nlinks (unbind_name name s) k = nlinks s k - 1"
    using S j(3) by (simp_all add: u)
  show "target_ok (unbind_name name s) k \<longleftrightarrow> target_ok s k"
    unfolding u by (rule target_ok_set_entry [OF wf j(2) _ j(5)]) simp
  have D: "dents (unbind_name name s) = (dents s)[j := ([], -1)]"
    using dents_set_entry [OF wfx_tables [OF wf] j(2), of "replicate 40 NUL" "-1"] by (simp add: u)
  show "abs_fs (unbind_name name s) = (abs_fs s)\<lparr>names := (names_of (dents s))(name := None)\<rparr>"
  proof (rule abs_fs_eqI)
    show "names_of (dents (unbind_name name s)) =
        names ((abs_fs s)\<lparr>names := (names_of (dents s))(name := None)\<rparr>)"
      using names_of_clear [OF wfx_distinct [OF wf] _ _ j(3)] j(2) wfx_distinct [OF wf'] D by simp
    show "nodes_of (unbind_name name s) = nodes ((abs_fs s)\<lparr>names := (names_of (dents s))(name := None)\<rparr>)"
      using nodes_set_entry [OF wf hold j(2)] by (simp add: u)
  qed (simp_all add: u)
qed

definition set_links :: "nat \<Rightarrow> nat \<Rightarrow> fs_state \<Rightarrow> fs_state" where
  "set_links k m s = set_node k ((inode_table s ! k)\<lparr>i_hard_links := m\<rparr>) s"

lemma set_links_ok:
  assumes wf: "fs_wfx X s" and k: "taken_inode s k" "k \<noteq> 0"
  shows "fs_wfx (insert k X) (set_links k m s)"
    and "abs_fs (set_links k m s) = abs_fs s"
    and "taken_inode (set_links k m s) = taken_inode s" and "target_ok (set_links k m s) k \<longleftrightarrow> target_ok s k"
    and "i_hard_links (inode_table (set_links k m s) ! k) = m"
    and "nlinks (set_links k m s) = nlinks s"
proof -
  have len: "k < length (inode_table s)"
    using taken_less [OF wfx_tables [OF wf] k(1)] .
  let ?n = "(inode_table s ! k)\<lparr>i_hard_links := m\<rparr>"
  have own: "b < DATA_BLOCKS s \<and> free_blocks s ! b = TAKEN \<and> (\<forall>i. i \<noteq> k \<longrightarrow> \<not> owns s i b)"
    if "i_data_block ?n = int b" "0 < i_size ?n \<or> i_node_type ?n = T_SYM_LINK" for b
  proof -
    have "owns s k b"
      using that k by (simp add: owns_def)
    then show ?thesis
      using owns_block [OF wf] owns_inj [OF wf] by blast
  qed
  show "fs_wfx (insert k X) (set_links k m s)"
    unfolding set_links_def set_node_def
    using wfx_node [OF wf k] own by (intro wfx_set_node [OF wf k]) (auto simp: node_ok_def)
  have node: "inode_table (set_links k m s) ! i = (if i = k then ?n else inode_table s ! i)" for i
    using len by (simp add: set_links_def)
  show tk: "taken_inode (set_links k m s) = taken_inode s"
    by (simp add: fun_eq_iff taken_inode_def set_links_def)
  have own': "owns (set_links k m s) = owns s"
    by (simp add: fun_eq_iff owns_def tk node)
  have blk: "block_of (set_links k m s) = block_of s"
    by (simp add: fun_eq_iff set_links_def set_node_def)
  show "target_ok (set_links k m s) k \<longleftrightarrow> target_ok s k"
    by (simp add: target_ok_def own' blk node)
  show "abs_fs (set_links k m s) = abs_fs s"
    by (rule abs_fs_eqI) (simp_all add: fun_eq_iff nodes_of_def tk node_view_def content_def block_number_def
        node blk, simp_all add: set_links_def)
  show "i_hard_links (inode_table (set_links k m s) ! k) = m" "nlinks (set_links k m s) = nlinks s"
    by (simp_all add: node fun_eq_iff nlinks_def) (simp_all add: set_links_def)
qed

end
