(* ===== verification/FS_Link.thy ===== *)
theory FS_Link
  imports FS_Sim
begin

text \<open>
  The calls that change the directory: \<open>tfs_unlink\<close>, \<open>tfs_link\<close>, \<open>tfs_sym_link\<close> and \<open>tfs_open\<close>, against
  their specification.
\<close>

lemma cstring_tl: "is_cstring path \<Longrightarrow> is_cstring (tl path)"
  by (cases path) (auto simp: is_cstring_def)

text \<open>What is known about a bound name.\<close>

lemma bound_facts:
  assumes "fs_wf s" and "names_of (dents s) name = Some k"
  shows "taken_inode s k" and "k \<noteq> 0" and "k < length (inode_table s)"
    and "k < max_inode_count (fs_params s)" and "i_node_type (inode_table s ! k) \<noteq> T_DIRECTORY"
    and "i_hard_links (inode_table s ! k) = nlinks s k" and "0 < nlinks s k" and "nlinks s k < 2 ^ 63"
    and "target_ok s k"
proof -
  show k: "taken_inode s k" "k \<noteq> 0" "0 < nlinks s k"
    using assms(1) by (cases rule: lookup_cases [where name = name]; use assms(2) in simp)+
  note T = tables_okD [OF wfx_tables [OF assms(1)]]
  show "k < length (inode_table s)" "k < max_inode_count (fs_params s)"
    using k(1) T by (simp_all add: taken_inode_def)
  show "i_node_type (inode_table s ! k) \<noteq> T_DIRECTORY"
    using wfx_node [OF assms(1) k(1,2)] by (simp add: node_ok_def)
  show "i_hard_links (inode_table s ! k) = nlinks s k" "target_ok s k"
    using assms(1) k(1,2) by (simp_all add: fs_wfx_def links_ok_def)
  have "MAX_DIR_ENTRIES s \<le> block_size (fs_params s)"
    by (simp add: MAX_DIR_ENTRIES_def)
  then show "nlinks s k < 2 ^ 63"
    using nlinks_bound [of s k] T(13) by linarith
qed

section \<open>Unlink\<close>

definition unlinked :: "string \<Rightarrow> nat \<Rightarrow> fs_state \<Rightarrow> fs_state" where
  "unlinked name k s = set_links k (nlinks s k - 1) (unbind_name name s)"

definition unlink_trace :: "string \<Rightarrow> nat \<Rightarrow> fs_state \<Rightarrow> lock_event list" where
  "unlink_trace name k s =
     [Acquire_wr link_lock] @ dir_lock_trace name (Acquire_rd (Dir_lock, 0)) @
     dir_lock_trace name (Acquire_wr (Dir_lock, 0)) @
     [Acquire_wr free_open_file_entries_mutex, Acquire_wr (Inode_lock, k), Release (Inode_lock, k)] @
     (if reclaim k s then delete_trace k s else []) @
     [Release free_open_file_entries_mutex, Release link_lock]"

lemma unlinked_ok:
  assumes wf: "fs_wf s" and k: "names_of (dents s) name = Some k"
  shows "fs_wf (unlinked name k s)" and "taken_inode (unlinked name k s) k"
    and "abs_fs (unlinked name k s) = (abs_fs s)\<lparr>names := (names_of (dents s))(name := None)\<rparr>"
    and "fs_params (unlinked name k s) = fs_params s" and "lock_trace (unlinked name k s) = lock_trace s"
proof -
  note B = bound_facts [OF wf k]
  note U = unbind_ok [OF wf wf_links_hold [OF wf] k]
  have tk: "taken_inode (unbind_name name s) k"
    using B(1) by simp
  note L = set_links_ok [OF U(1) tk B(2), of "nlinks s k - 1"]
  have "fs_wfx (insert k {}) (unlinked name k s)"
    using L(1) by (simp add: unlinked_def)
  then show "fs_wf (unlinked name k s)"
    by (rule wfx_settle) (use L U B in \<open>simp add: unlinked_def\<close>)
  show "taken_inode (unlinked name k s) k"
    using L(3) tk by (simp add: unlinked_def)
  show "abs_fs (unlinked name k s) = (abs_fs s)\<lparr>names := (names_of (dents s))(name := None)\<rparr>"
    using L(2) U(4) by (simp add: unlinked_def)
qed (simp_all add: unlinked_def set_links_def)

lemma tfs_unlink_eq:
  assumes wf: "fs_wf s" and p: "valid_pathname (Some path)" "is_cstring path"
    and k: "names_of (dents s) (tl path) = Some k"
  defines "s1 \<equiv> unlinked (tl path) k s"
  shows "tfs_unlink (Some path) s =
    Inr (0, traced (unlink_trace (tl path) k s1) (if reclaim k s1 then drop_inode k s1 else s1))"
proof -
  note B = bound_facts [OF wf k] and T = wfx_tables [OF wf]
  note U = unlinked_ok [OF wf k, folded s1_def]
  have upd: "inode_update (int k) (\<lambda>n. n\<lparr>i_hard_links := u64_dec (i_hard_links n)\<rparr>)
      (traced t (unbind_name (tl path) s)) = Inr (traced t s1)" for t
    using B by (simp add: inode_update_eq s1_def unlinked_def set_links_def set_node_def)
  have clr: "clear_dir_entry 0 (tl path) (traced t s) =
      Inr (0, traced (t @ dir_lock_trace (tl path) (Acquire_wr (Dir_lock, 0))) (unbind_name (tl path) s))" for t
    using clear_entry_eq [of "{}" "traced t s" "tl path" k] wf k cstring_tl [OF p(2)] by simp
  have look: "tfs_lookup (Some path) 0 (traced t s) =
      Inr (int k, traced (t @ dir_lock_trace (tl path) (Acquire_rd (Dir_lock, 0))) s)" for t
    using tfs_lookup_eq [of "{}" "traced t s" path] wf k p by simp
  have del: "inode_delete (int k) (traced t s1) = Inr (traced (t @ delete_trace k s1) (drop_inode k s1))" for t
    using inode_delete_eq [of "{}" "traced t s1" k] U by simp
  have open_: "is_file_open (int k) (traced t s1) = Inr (has_handle s1 k)" for t
    using is_file_open_eq [of "traced t s1" k] wfx_tables [OF U(1)] U(4) B(4) by simp
  have at: "k < length (inode_table s1)"
    using taken_less [OF wfx_tables [OF U(1)] U(2)] .
  have get: "inode_get (int k) (traced t s) = Inr (int k)" "inode_at (int k) (traced t s) = Inr (inode_table s ! k)"
      "inode_at (int k) (traced t s1) = Inr (inode_table s1 ! k)" for t
    using B at by (simp_all add: inode_get_eq inode_at_eq)
  show ?thesis
    using p B root_get [of "traced _ s"] T look clr upd del open_ get
    by (simp add: tfs_unlink_def reclaim_def unlink_trace_def Let_def)
qed

lemma sim_unlink:
  assumes inv: "fs_inv s" and p: "is_cstring path"
  shows "\<exists>r s'. tfs_unlink (Some path) s = Inr (r, s') \<and> advances s s' \<and>
    client_step (fs_params s) (abs_fs s) (Unlink path) (r, []) (abs_fs s')"
proof -
  have wf: "fs_wf s" using inv by (simp add: fs_inv_def)
  consider (bad) "\<not> valid_pathname (Some path)"
    | (absent) "valid_pathname (Some path)" "names_of (dents s) (tl path) = None"
    | (bound) k where "valid_pathname (Some path)" "names_of (dents s) (tl path) = Some k"
    by blast
  then show ?thesis
  proof cases
    case bad
    then have "tfs_unlink (Some path) s = Inr (-1, s)"
      by (auto simp: tfs_unlink_def)
    then show ?thesis
      using advances_refl [OF wf] step_unlink_bad bad by blast
  next
    case absent
    define t where "t = [Acquire_wr link_lock] @ dir_lock_trace (tl path) (Acquire_rd (Dir_lock, 0)) @ [Release link_lock]"
    have "tfs_unlink (Some path) s = Inr (-1, traced t s)"
      using absent root_get [of "traced _ s"] wfx_tables [OF wf] tfs_lookup_eq [of "{}" "traced _ s" path] wf p
      by (simp add: tfs_unlink_def t_def Let_def)
    moreover have "advances s (traced t s)"
      using wf by (intro advancesI) (simp_all add: t_def may_acquire_def less_lock_class_def less_eq_lock_class_def)
    moreover have "client_step (fs_params s) (abs_fs s) (Unlink path) (-1, []) (abs_fs (traced t s))"
      using absent by (simp add: step_unlink_bad)
    ultimately show ?thesis by blast
  next
    case (bound k)
    let ?s = "unlinked (tl path) k s"
    note U = unlinked_ok [OF wf bound(2)] and B = bound_facts [OF wf bound(2)]
    note R = reclaim_ok [OF U(1) U(2) B(2)]
    have "brackets Link_lock [] (unlink_trace (tl path) k ?s)"
      by (simp add: unlink_trace_def may_acquire_def less_lock_class_def less_eq_lock_class_def)
    then have "advances s (traced (unlink_trace (tl path) k ?s) (if reclaim k ?s then drop_inode k ?s else ?s))"
      using R U by (intro advancesI) simp_all
    moreover have "client_step (fs_params s) (abs_fs s) (Unlink path) (0, []) (collect k (abs_fs ?s))"
      using step_unlink [OF bound(1), of "abs_fs s" k] bound(2) U(3) by simp
    ultimately show ?thesis
      using tfs_unlink_eq [OF wf bound(1) p bound(2)] R(2) by auto
  qed
qed

section \<open>Link\<close>

definition linked :: "string \<Rightarrow> nat \<Rightarrow> fs_state \<Rightarrow> fs_state" where
  "linked name k s = set_links k (nlinks s k + 1) (bind_name name k s)"

lemma linked_ok:
  assumes wf: "fs_wf s" and k: "taken_inode s k" "k \<noteq> 0" "target_ok s k"
    and name: "is_cstring name" "can_bind (fs_params s) (abs_fs s) name"
  shows "fs_wf (linked name k s)"
    and "abs_fs (linked name k s) = (abs_fs s)\<lparr>names := (names_of (dents s))(name \<mapsto> k)\<rparr>"
    and "fs_params (linked name k s) = fs_params s" and "lock_trace (linked name k s) = lock_trace s"
proof -
  note B = bind_ok [OF wf wf_links_hold [OF wf] k(1,2) name]
  have tk: "taken_inode (bind_name name k s) k"
    using k(1) by simp
  note L = set_links_ok [OF B(1) tk k(2), of "nlinks s k + 1"]
  have "fs_wfx (insert k {}) (linked name k s)"
    using L(1) by (simp add: linked_def)
  then show "fs_wf (linked name k s)"
    by (rule wfx_settle) (use L B k(3) in \<open>simp add: linked_def\<close>)
  show "abs_fs (linked name k s) = (abs_fs s)\<lparr>names := (names_of (dents s))(name \<mapsto> k)\<rparr>"
    using L(2) B(4) by (simp add: linked_def)
qed (simp_all add: linked_def set_links_def)

text \<open>A link to a symbolic link is refused after its entry was stored: the entry is taken back.\<close>

lemma undone_link_ok:
  assumes wf: "fs_wf s" and k: "names_of (dents s) target = Some k"
    and name: "is_cstring name" "can_bind (fs_params s) (abs_fs s) name"
  defines "s' \<equiv> unbind_name name (bind_name name k s)"
  shows "fs_wf s'" and "abs_fs s' = abs_fs s"
    and "clear_dir_entry 0 name (traced t (bind_name name k s)) =
      Inr (0, traced (t @ dir_lock_trace name (Acquire_wr (Dir_lock, 0))) s')"
proof -
  note F = bound_facts [OF wf k]
  note B = bind_ok [OF wf wf_links_hold [OF wf] F(1,2) name]
  have k': "names_of (dents (bind_name name k s)) name = Some k"
    using B(4) by (simp add: abs_fs_def)
  have hold: "links_hold (bind_name name k s)"
    using wf_links_hold [OF wf] by (simp add: links_hold_def owns_def)
  note U = unbind_ok [OF B(1) hold k']
  have "fs_wfx (insert k {}) s'"
    using U(1) by (simp add: s'_def)
  then show "fs_wf s'"
    by (rule wfx_settle) (use U B F in \<open>simp add: s'_def\<close>)
  have "names_of (dents s) name = None"
    using name(2) by (simp add: can_bind_def)
  then show "abs_fs s' = abs_fs s"
    unfolding s'_def U(4) using B(4) by (simp add: abs_fs_def fun_upd_idem)
  show "clear_dir_entry 0 name (traced t (bind_name name k s)) =
      Inr (0, traced (t @ dir_lock_trace name (Acquire_wr (Dir_lock, 0))) s')"
    using clear_entry_eq [of "insert k {}" "traced t (bind_name name k s)" name k] B(1) k' name(1)
    by (simp add: s'_def)
qed

definition link_trace :: "string \<Rightarrow> string \<Rightarrow> lock_event list \<Rightarrow> lock_event list" where
  "link_trace target name t =
     [Acquire_rd link_lock] @ dir_lock_trace target (Acquire_rd (Dir_lock, 0)) @
     dir_lock_trace name (Acquire_wr (Dir_lock, 0)) @ t @ [Release link_lock]"

lemma tfs_link_eq:
  assumes wf: "fs_wf s" and p: "valid_pathname (Some target)" "is_cstring target"
      "valid_pathname (Some link)" "is_cstring link"
    and k: "names_of (dents s) (tl target) = Some k"
  defines "tr \<equiv> link_trace (tl target) (tl link)"
  shows "tfs_link (Some target) (Some link) s = Inr (
    if \<not> can_bind (fs_params s) (abs_fs s) (tl link) then (-1, traced (tr []) s)
    else if i_node_type (inode_table s ! k) = T_SYM_LINK then
      (-1, traced (tr (dir_lock_trace (tl link) (Acquire_wr (Dir_lock, 0))))
         (unbind_name (tl link) (bind_name (tl link) k s)))
    else (0, traced (tr [Acquire_wr (Inode_lock, k), Release (Inode_lock, k)]) (linked (tl link) k s)))"
proof -
  note F = bound_facts [OF wf k] and T = wfx_tables [OF wf]
  have look: "tfs_lookup (Some target) 0 (traced t s) =
      Inr (int k, traced (t @ dir_lock_trace (tl target) (Acquire_rd (Dir_lock, 0))) s)" for t
    using tfs_lookup_eq [of "{}" "traced t s" target] wf k p by simp
  have add: "add_dir_entry 0 (tl link) (int k) (traced t s) =
      (let t' = t @ dir_lock_trace (tl link) (Acquire_wr (Dir_lock, 0)) in
       Inr (if can_bind (fs_params s) (abs_fs s) (tl link) then (0, traced t' (bind_name (tl link) k s))
            else (-1, traced t' s)))" for t
    using add_entry_eq [of "{}" "traced t s" "tl link" k] wf F(4) cstring_tl [OF p(4)] by (simp add: Let_def)
  have upd: "inode_update (int k) (\<lambda>n. n\<lparr>i_hard_links := u64_inc (i_hard_links n)\<rparr>)
      (traced t (bind_name (tl link) k s)) = Inr (traced t (linked (tl link) k s))" for t
    using F by (simp add: inode_update_eq linked_def set_links_def set_node_def)
  have get: "inode_get (int k) (traced t (bind_name (tl link) k s)) = Inr (int k)"
      "inode_at (int k) (traced t (bind_name (tl link) k s)) = Inr (inode_table s ! k)" for t
    using F by (simp_all add: inode_get_eq inode_at_eq)
  show ?thesis
    using p root_get [of "traced _ s"] T look add upd get undone_link_ok(3) [OF wf k cstring_tl [OF p(4)]]
    by (simp add: tfs_link_def link_trace_def tr_def Let_def)
qed

lemma sim_link:
  assumes inv: "fs_inv s" and p: "is_cstring target" "is_cstring link"
  shows "\<exists>r s'. tfs_link (Some target) (Some link) s = Inr (r, s') \<and> advances s s' \<and>
    client_step (fs_params s) (abs_fs s) (Link target link) (r, []) (abs_fs s')"
proof -
  have wf: "fs_wf s" using inv by (simp add: fs_inv_def)
  note cs = cstring_tl [OF p(2)]
  have adv: "advances s (traced (link_trace a b t) s')"
    if "fs_wf s'" "fs_params s' = fs_params s" "lock_trace s' = lock_trace s"
      "t = [] \<or> t = dir_lock_trace b (Acquire_wr (Dir_lock, 0)) \<or> t = [Acquire_wr (Inode_lock, k), Release (Inode_lock, k)]"
    for s' a b t k
    using that by (intro advancesI) (auto simp: link_trace_def may_acquire_def less_lock_class_def less_eq_lock_class_def)
  consider (bad) "\<not> (valid_pathname (Some target) \<and> valid_pathname (Some link))"
    | (absent) "valid_pathname (Some target)" "valid_pathname (Some link)" "names_of (dents s) (tl target) = None"
    | (bound) k where "valid_pathname (Some target)" "valid_pathname (Some link)" "names_of (dents s) (tl target) = Some k"
    by blast
  then show ?thesis
  proof cases
    case bad
    then have "tfs_link (Some target) (Some link) s = Inr (-1, s)"
      by (auto simp: tfs_link_def)
    then show ?thesis
      using advances_refl [OF wf] step_link_bad bad by blast
  next
    case absent
    define t where "t = [Acquire_rd link_lock] @ dir_lock_trace (tl target) (Acquire_rd (Dir_lock, 0)) @ [Release link_lock]"
    have "tfs_link (Some target) (Some link) s = Inr (-1, traced t s)"
      using absent root_get [of "traced _ s"] wfx_tables [OF wf] tfs_lookup_eq [of "{}" "traced _ s" target] wf p
      by (simp add: tfs_link_def t_def Let_def)
    moreover have "advances s (traced t s)"
      using wf by (intro advancesI) (simp_all add: t_def may_acquire_def less_lock_class_def less_eq_lock_class_def)
    moreover have "client_step (fs_params s) (abs_fs s) (Link target link) (-1, []) (abs_fs (traced t s))"
      using absent by (simp add: step_link_bad)
    ultimately show ?thesis by blast
  next
    case (bound k)
    note E = tfs_link_eq [OF wf bound(1) p(1) bound(2) p(2) bound(3)] and F = bound_facts [OF wf bound(3)]
    consider (cannot) "\<not> can_bind (fs_params s) (abs_fs s) (tl link)"
      | (sym) "can_bind (fs_params s) (abs_fs s) (tl link)" "i_node_type (inode_table s ! k) = T_SYM_LINK"
      | (ok) "can_bind (fs_params s) (abs_fs s) (tl link)" "i_node_type (inode_table s ! k) = T_FILE"
      using F(5) inode_type.exhaust by blast
    then show ?thesis
    proof cases
      case cannot
      then show ?thesis
        using E adv [OF wf] step_link_bad [of target link "abs_fs s" "fs_params s"] by auto
    next
      case sym
      note U = undone_link_ok [OF wf bound(3) cs sym(1)]
      have "nodes_of s k = Some (ALink (cstr (block_of s (block_number s k))))"
        using F(1,2) sym(2) by (simp add: nodes_of_def node_view_def)
      then have "client_step (fs_params s) (abs_fs s) (Link target link) (-1, []) (abs_fs s)"
        using bound(3) by (intro step_link_bad) auto
      then show ?thesis
        using E sym adv [OF U(1)] U(2) by auto
    next
      case ok
      note L = linked_ok [OF wf F(1,2,9) cs ok(1)]
      have "nodes_of s k = Some (AFile (content s k))"
        using F(1,2) ok(2) by (simp add: nodes_of_def node_view_def)
      then have "client_step (fs_params s) (abs_fs s) (Link target link) (0, []) (abs_fs (linked (tl link) k s))"
        using step_link [OF bound(1,2), of "abs_fs s" k] bound(3) ok(1) L(2) by simp
      then show ?thesis
        using E ok adv [OF L(1,3,4)] by auto
    qed
  qed
qed

section \<open>Creating inodes\<close>

lemma claim_ok:
  assumes wf: "fs_wf s" and k: "first_free (freeinode_ts s) = Some k" and ty: "ty \<noteq> T_DIRECTORY"
  defines "s' \<equiv> claim_inode k ty s"
  shows "fs_wfx {k} s'" and "taken_inode s' k" and "k \<noteq> 0" and "k < max_inode_count (fs_params s)"
    and "k < length (inode_table s')" and "nlinks s' k = 0" and "\<not> has_handle s' k"
    and "inode_table s' ! k = \<lparr>i_node_type = ty, i_size = 0, i_data_block = -1, i_hard_links = 1\<rparr>"
    and "\<And>i. i \<noteq> k \<Longrightarrow> nodes_of s' i = nodes_of s i" and "nodes_of s k = None"
    and "\<And>i b. i \<noteq> k \<Longrightarrow> owns s' i b = owns s i b"
    and "\<And>i. i \<noteq> k \<Longrightarrow> taken_inode s' i = taken_inode s i \<and> inode_table s' ! i = inode_table s ! i"
proof -
  note T = tables_okD [OF wfx_tables [OF wf]] and K = fresh_inode_abs [OF wf k]
  show "k \<noteq> 0" "k < max_inode_count (fs_params s)"
    using K by simp_all
  show "fs_wfx {k} s'"
    unfolding s'_def claim_inode_def using wfx_alloc_inode [OF wf K(3,4)] ty by simp
  show "taken_inode s' k" "k < length (inode_table s')"
      "inode_table s' ! k = \<lparr>i_node_type = ty, i_size = 0, i_data_block = -1, i_hard_links = 1\<rparr>"
    using K T by (simp_all add: s'_def claim_inode_def taken_inode_def)
  have nk: "\<not> taken_inode s k"
    using K by (simp add: taken_inode_def)
  then show "nlinks s' k = 0" "\<not> has_handle s' k" "nodes_of s k = None"
    using nlinks_zero_unused [OF wf] no_handle_unused [OF wf]
    by (simp_all add: s'_def nlinks_def has_handle_def live_handle_def nodes_of_def)
  show "nodes_of s' i = nodes_of s i" if "i \<noteq> k" for i
    using nodes_claim_other [OF that] by (simp add: s'_def)
  show other: "taken_inode s' i = taken_inode s i \<and> inode_table s' ! i = inode_table s ! i" if "i \<noteq> k" for i
    using that by (simp add: taken_inode_def s'_def claim_inode_def)
  then show "owns s' i b = owns s i b" if "i \<noteq> k" for i b
    using that by (simp add: owns_def)
qed

text \<open>Giving a claimed inode back: the state is as before, but for a block it may have taken.\<close>

lemma give_back_ok:
  assumes wf: "fs_wfx {k} s'" and k: "taken_inode s' k" "k \<noteq> 0" "nlinks s' k = 0" "\<not> has_handle s' k"
    and size: "i_size (inode_table s' ! k) = 0"
    and same: "names_of (dents s') = names_of (dents s)" "handles_of s' = handles_of s"
      "\<And>i. i \<noteq> k \<Longrightarrow> nodes_of s' i = nodes_of s i" "nodes_of s k = None"
  shows "fs_wf (drop_inode k s')"
    and "abs_fs (drop_inode k s') = (abs_fs s)\<lparr>spare := count_list (free_blocks s') FREE\<rparr>"
proof -
  note D = drop_inode_ok [OF wf k]
  show "fs_wf (drop_inode k s')"
    using D(1) by simp
  have "(nodes_of s')(k := None) = nodes_of s"
    using same(3,4) by auto
  then show "abs_fs (drop_inode k s') = (abs_fs s)\<lparr>spare := count_list (free_blocks s') FREE\<rparr>"
    using D(2) size same blocks_held_abs [OF wf k(1,2)] by (simp add: abs_fs_def)
qed

section \<open>Symbolic links\<close>

definition sym_state :: "nat \<Rightarrow> nat \<Rightarrow> string \<Rightarrow> fs_state \<Rightarrow> fs_state" where
  "sym_state k b target s =
     (let s2 = set_block b TAKEN (claim_inode k T_SYM_LINK s) in
      put_bytes b 0 (target @ [NUL]) (set_node k ((inode_table s2 ! k)\<lparr>i_data_block := int b\<rparr>) s2))"

lemma sym_state_ok:
  assumes wf: "fs_wf s" and k: "first_free (freeinode_ts s) = Some k" and b: "first_free (free_blocks s) = Some b"
    and target: "is_cstring target" "length target < BLOCK_SIZE s" "valid_pathname (Some target)"
  defines "s' \<equiv> sym_state k b target s"
  shows "fs_wfx {k} s'" and "taken_inode s' k" and "nlinks s' k = 0" and "\<not> has_handle s' k"
    and "i_hard_links (inode_table s' ! k) = 1" and "i_size (inode_table s' ! k) = 0"
    and "target_ok s' k" and "links_hold s'"
    and "dents s' = dents s" and "handles_of s' = handles_of s"
    and "nodes_of s' = (nodes_of s)(k \<mapsto> ALink target)"
    and "count_list (free_blocks s') FREE = count_list (free_blocks s) FREE - 1"
    and "fs_params s' = fs_params s" and "lock_trace s' = lock_trace s"
proof -
  note C = claim_ok [OF wf k, of T_SYM_LINK, simplified]
  note T = tables_okD [OF wfx_tables [OF wf]]
  define s1 where "s1 = claim_inode k T_SYM_LINK s"
  define s2 where "s2 = set_block b TAKEN s1"
  define n where "n = \<lparr>i_node_type = T_SYM_LINK, i_size = 0, i_data_block = int b, i_hard_links = 1\<rparr>"
  define s3 where "s3 = set_node k n s2"
  have s': "s' = put_bytes b 0 (target @ [NUL]) s3"
    using C(8) by (simp add: s'_def sym_state_def s3_def s2_def s1_def n_def Let_def)
  have bb: "b < DATA_BLOCKS s" "free_blocks s1 ! b = FREE" "b < length (free_blocks s)"
    using b T by (simp_all add: first_free_Some s1_def)
  note A = wfx_alloc_block [OF C(1) [folded s1_def] bb(2), folded set_block_def, folded s2_def]
  have sel2: "inode_table s2 = inode_table s1" "taken_inode s2 = taken_inode s1" "owns s2 = owns s1"
      "free_blocks s2 = (free_blocks s)[b := TAKEN]" "fs_params s2 = fs_params s"
    by (auto simp: s2_def s1_def fun_eq_iff taken_inode_def owns_def)
  have b0: "b \<noteq> 0"
    using A(2) [of 0] owns_zero [OF A(1)] by metis
  have "fs_wfx (insert k {k}) s3"
    unfolding s3_def set_node_def
    using C(2,3,8) bb A(2) by (intro wfx_set_node [OF A(1)]) (auto simp: node_ok_def n_def sel2 s1_def)
  then have wf3: "fs_wfx {k} s3" by simp
  have sel3: "inode_table s3 ! k = n" "taken_inode s3 = taken_inode s1" "fs_params s3 = fs_params s"
      "\<And>i. i \<noteq> k \<Longrightarrow> inode_table s3 ! i = inode_table s1 ! i"
    using C(5) by (auto simp: s3_def sel2 s1_def fun_eq_iff taken_inode_def s2_def)
  have own3: "owns s3 i c \<longleftrightarrow> (if i = k then c = b else owns s i c)" for i c
    using sel3 C(2,11) by (auto simp: owns_def n_def s1_def)
  have free: "\<not> owns s i b" for i
    using owns_block(2) [OF wf, of i b] bb(2) by (auto simp: s1_def)
  have hold3: "links_hold s3"
    using wf_links_hold [OF wf] own3 C(12) sel3 unfolding links_hold_def s1_def by metis
  have fits: "0 + length (target @ [NUL]) \<le> BLOCK_SIZE s3"
    using target(2) sel3(3) by simp
  show wf': "fs_wfx {k} s'"
    unfolding s' put_bytes_def
    by (rule wfx_patch [OF wf3 _ b0 fits]) (use bb own3 free sel3(3) in auto)
  have sel': "inode_table s' = inode_table s3" "taken_inode s' = taken_inode s3" "owns s' = owns s3"
    by (auto simp: s' fun_eq_iff taken_inode_def owns_def)
  show "taken_inode s' k" "i_hard_links (inode_table s' ! k) = 1" "i_size (inode_table s' ! k) = 0"
    using C(2) sel3 by (simp_all add: sel' n_def s1_def)
  show dents: "dents s' = dents s"
    using dents_put_bytes [OF wfx_tables [OF wf3] _ b0 fits] bb by (simp add: s' sel3(3)) (simp add: s3_def s2_def s1_def)
  show "handles_of s' = handles_of s"
    by (simp add: s' s3_def s2_def s1_def)
  show "nlinks s' k = 0"
    using C(6) by (simp add: nlinks_def dents)
  show "\<not> has_handle s' k"
    using C(7) by (simp add: s' s3_def s2_def s1_def has_handle_def live_handle_def)
  have blk: "block_of s' b = patch (block_of s3 b) 0 (target @ [NUL])"
    using block_of_patch [OF wfx_tables [OF wf3] _ fits, of b b] bb by (simp add: s' put_bytes_def sel3(3))
  then have tgt: "cstr (block_of s' b) = target" "NUL \<in> set (block_of s' b)"
    using target(1) by (simp_all add: patch_def)
  show "target_ok s' k"
    using target(3) tgt own3 [of k b] by (auto simp: target_ok_def sel')
  show "links_hold s'"
    using hold3 by (simp add: links_hold_def sel')
  show "nodes_of s' = (nodes_of s)(k \<mapsto> ALink target)"
  proof
    fix i
    show "nodes_of s' i = ((nodes_of s)(k \<mapsto> ALink target)) i"
    proof (cases "i = k")
      case True
      then show ?thesis
        using C(2,3) sel3 tgt by (simp add: nodes_of_def node_view_def block_number_def sel' n_def s1_def)
    next
      case False
      then have "nodes_of s' i = nodes_of s3 i"
        using nodes_put_bytes [OF wf3 hold3 _ fits, of b i] bb(1) own3 free by (simp add: s' sel3(3))
      also have "\<dots> = nodes_of s i"
        using nodes_set_node [of s2 k n] C(2,3,5) C(9) [OF False] False
        by (simp add: s3_def sel2) (simp add: s2_def s1_def)
      finally show ?thesis using False by simp
    qed
  qed
  show "count_list (free_blocks s') FREE = count_list (free_blocks s) FREE - 1"
    using count_free_update(1) [OF bb(3)] bb(2) by (simp add: s' s3_def s2_def s1_def)
qed (simp_all add: s'_def sym_state_def Let_def)

definition sym_trace :: "lock_event list \<Rightarrow> lock_event list" where
  "sym_trace t = [Acquire_rd link_lock] @ freeinode_trace @ t @ [Release link_lock]"

lemma tfs_sym_link_eq:
  assumes wf: "fs_wf s" and p: "valid_pathname (Some target)" "is_cstring target"
      "valid_pathname (Some link)" "is_cstring link" "target \<noteq> link" "length target < BLOCK_SIZE s"
  shows "tfs_sym_link (Some target) (Some link) s = Inr (
    case first_free (freeinode_ts s) of
      None \<Rightarrow> (-1, traced (sym_trace []) s)
    | Some k \<Rightarrow> (case first_free (free_blocks s) of
        None \<Rightarrow> (-1, traced (sym_trace (blocks_trace @ delete_trace k (claim_inode k T_SYM_LINK s)))
          (drop_inode k (claim_inode k T_SYM_LINK s)))
      | Some b \<Rightarrow>
          (let s' = sym_state k b target s;
               t = blocks_trace @ dir_lock_trace (tl link) (Acquire_wr (Dir_lock, 0)) in
           if can_bind (fs_params s) (abs_fs s) (tl link)
           then (0, traced (sym_trace t) (bind_name (tl link) k s'))
           else (-1, traced (sym_trace (t @ delete_trace k s')) (drop_inode k s')))))"
proof (cases "first_free (freeinode_ts s)")
  case None
  then show ?thesis
    using p wfx_tables [OF wf] by (simp add: tfs_sym_link_def inode_create_eq sym_trace_def Let_def)
next
  case (Some k)
  note C = claim_ok [OF wf Some, of T_SYM_LINK, simplified]
  let ?s1 = "claim_inode k T_SYM_LINK s"
  have get: "inode_get (int k) (traced t ?s1) = Inr (int k)" for t
    using C(4) by (simp add: inode_get_eq)
  have alloc: "data_block_alloc (traced t ?s1) = Inr (case first_free (free_blocks s) of
      None \<Rightarrow> (-1, traced (t @ blocks_trace) ?s1)
    | Some b \<Rightarrow> (int b, traced (t @ blocks_trace) (set_block b TAKEN ?s1)))" for t
    using data_block_alloc_eq [of "traced t ?s1"] wfx_tables [OF C(1)]
    by (auto simp: set_block_def split: option.splits)
  show ?thesis
  proof (cases "first_free (free_blocks s)")
    case None
    have "inode_delete (int k) (traced t ?s1) = Inr (traced (t @ delete_trace k ?s1) (drop_inode k ?s1))" for t
      using inode_delete_eq [of "{k}" "traced t ?s1" k] C(1,2) by simp
    then show ?thesis
      using p wfx_tables [OF wf] Some None get alloc
      by (simp add: tfs_sym_link_def inode_create_eq sym_trace_def Let_def)
  next
    case b: (Some b)
    let ?s = "sym_state k b target s" and ?n = "inode_table (set_block b TAKEN ?s1) ! k"
    note S = sym_state_ok [OF wf Some b p(2,6,1)]
    have bb: "b < max_block_count (fs_params s)"
      using b tables_okD [OF wfx_tables [OF wf]] by (simp add: first_free_Some)
    have upd: "inode_update (int k) (\<lambda>n. n\<lparr>i_data_block := int b\<rparr>) (traced t (set_block b TAKEN ?s1)) =
        Inr (traced t (set_node k (?n\<lparr>i_data_block := int b\<rparr>) (set_block b TAKEN ?s1)))" for t
      using C(5) by (simp add: inode_update_eq set_node_def)
    have "b * block_size (fs_params s) + length (target @ [NUL]) \<le> length (fs_data s)"
      using block_end_le [OF wfx_tables [OF wf], of b] bb p(6) by simp
    then have wr: "mem_write (fs_data s) (b * block_size (fs_params s)) (target @ [NUL]) =
        Inr (patch (fs_data s) (b * block_size (fs_params s)) (target @ [NUL]))"
      by simp
    have put: "(set_node k n (set_block b TAKEN ?s1))\<lparr>fs_data := patch (fs_data s) (b * block_size (fs_params s)) (target @ [NUL])\<rparr> =
        put_bytes b 0 (target @ [NUL]) (set_node k n (set_block b TAKEN ?s1))" for n
      by (simp add: put_bytes_def)
    have add: "add_dir_entry 0 (tl link) (int k) (traced t ?s) =
      (let t' = t @ dir_lock_trace (tl link) (Acquire_wr (Dir_lock, 0)) in
       Inr (if can_bind (fs_params s) (abs_fs s) (tl link) then (0, traced t' (bind_name (tl link) k ?s))
            else (-1, traced t' ?s)))" for t
      using add_entry_eq [of "{k}" "traced t ?s" "tl link" k] S cstring_tl [OF p(4)] C(4)
      by (simp add: Let_def can_bind_def dir_full_def)
    have del: "inode_delete (int k) (traced t ?s) = Inr (traced (t @ delete_trace k ?s) (drop_inode k ?s))" for t
      using inode_delete_eq [of "{k}" "traced t ?s" k] S by simp
    have sym: "put_bytes b 0 (target @ [NUL]) (set_node k (?n\<lparr>i_data_block := int b\<rparr>) (set_block b TAKEN ?s1)) = ?s"
      by (simp add: sym_state_def Let_def)
    have root: "inode_get 0 (traced t ?s) = Inr 0" for t
      using root_get [of "traced t ?s"] wfx_tables [OF S(1)] by simp
    show ?thesis
      using p wfx_tables [OF wf] Some b get alloc upd wr put sym add del bb root
      by (simp add: tfs_sym_link_def inode_create_eq sym_trace_def Let_def data_block_get_eq)
  qed
qed

lemma brackets_sym:
  assumes "t = [] \<or> t = blocks_trace @ delete_trace k s1 \<or>
      t = blocks_trace @ dir_lock_trace name (Acquire_wr (Dir_lock, 0)) \<or>
      t = blocks_trace @ dir_lock_trace name (Acquire_wr (Dir_lock, 0)) @ delete_trace k s1"
  shows "brackets Link_lock [] (sym_trace t)"
  using assms by (auto simp: sym_trace_def may_acquire_def less_lock_class_def less_eq_lock_class_def)

lemma sim_sym_link:
  assumes inv: "fs_inv s" and p: "is_cstring target" "is_cstring link" "length target < BLOCK_SIZE s"
  shows "\<exists>r s'. tfs_sym_link (Some target) (Some link) s = Inr (r, s') \<and> advances s s' \<and>
    client_step (fs_params s) (abs_fs s) (Sym_link target link) (r, []) (abs_fs s')"
proof -
  have wf: "fs_wf s" using inv by (simp add: fs_inv_def)
  note cs = cstring_tl [OF p(2)]
  consider (bad) "\<not> (valid_pathname (Some target) \<and> valid_pathname (Some link) \<and> target \<noteq> link)"
    | (good) "valid_pathname (Some target)" "valid_pathname (Some link)" "target \<noteq> link"
    by blast
  then show ?thesis
  proof cases
    case bad
    then have "tfs_sym_link (Some target) (Some link) s = Inr (-1, s)"
      by (auto simp: tfs_sym_link_def)
    then show ?thesis
      using advances_refl [OF wf] step_sym_link_bad bad by blast
  next
    case good
    note E = tfs_sym_link_eq [OF wf good(1) p(1) good(2) p(2) good(3) p(3)]
    consider (no_inode) "first_free (freeinode_ts s) = None"
      | (no_block) k where "first_free (freeinode_ts s) = Some k" "first_free (free_blocks s) = None"
      | (room) k b where "first_free (freeinode_ts s) = Some k" "first_free (free_blocks s) = Some b"
      by fastforce
    then show ?thesis
    proof cases
      case no_inode
      then have "client_step (fs_params s) (abs_fs s) (Sym_link target link) (-1, []) (abs_fs s)"
        by (intro step_sym_link_bad) (simp add: inodes_full_abs [OF wf])
      then show ?thesis
        using E no_inode wf brackets_sym by (auto intro!: advancesI)
    next
      case (no_block k)
      let ?s = "claim_inode k T_SYM_LINK s"
      note C = claim_ok [OF wf no_block(1), of T_SYM_LINK, simplified]
      have "fs_wf (drop_inode k ?s)"
          "abs_fs (drop_inode k ?s) = (abs_fs s)\<lparr>spare := count_list (free_blocks ?s) FREE\<rparr>"
        using give_back_ok [OF C(1,2) fresh_inode_abs(2) [OF wf no_block(1)] C(6,7), of s] C(8,9,10) by auto
      then have G: "fs_wf (drop_inode k ?s)" "abs_fs (drop_inode k ?s) = abs_fs s"
        by (simp_all add: abs_fs_def)
      have "client_step (fs_params s) (abs_fs s) (Sym_link target link) (-1, []) (abs_fs s)"
        using no_block by (intro step_sym_link_bad) (simp add: count_free_zero)
      then show ?thesis
        using E no_block G brackets_sym by (auto intro!: advancesI)
    next
      case (room k b)
      let ?s = "sym_state k b target s"
      note S = sym_state_ok [OF wf room p(1,3) good(1)] and K = fresh_inode_abs [OF wf room(1)]
      have sp: "0 < spare (abs_fs s)"
        using room(2) count_free_zero [of "free_blocks s"] by auto
      show ?thesis
      proof (cases "can_bind (fs_params s) (abs_fs s) (tl link)")
        case True
        then have cb: "can_bind (fs_params ?s) (abs_fs ?s) (tl link)"
          using S by (simp add: can_bind_def dir_full_def)
        note B = bind_ok [OF S(1,8,2) K(2) cs cb]
        have "fs_wfx (insert k {}) (bind_name (tl link) k ?s)"
          using B(1) by simp
        then have wf': "fs_wf (bind_name (tl link) k ?s)"
          by (rule wfx_settle) (use B S in simp)
        have "client_step (fs_params s) (abs_fs s) (Sym_link target link) (0, []) (abs_fs (bind_name (tl link) k ?s))"
          using step_sym_link [OF good sp True K(1)] B(4) S by (simp add: abs_fs_def)
        then show ?thesis
          using E room True wf' S brackets_sym by (auto simp: Let_def intro!: advancesI)
      next
        case False
        have "fs_wf (drop_inode k ?s)"
            "abs_fs (drop_inode k ?s) = (abs_fs s)\<lparr>spare := count_list (free_blocks ?s) FREE\<rparr>"
          using give_back_ok [OF S(1,2) K(2) S(3,4,6), of s] S K(1) by (auto simp: fresh_inode_def)
        moreover have "client_step (fs_params s) (abs_fs s) (Sym_link target link) (-1, [])
            ((abs_fs s)\<lparr>spare := spare (abs_fs s) - 1\<rparr>)"
          using step_sym_link_clash [OF good(1,2) sp False] .
        ultimately show ?thesis
          using E room False S brackets_sym by (auto simp: Let_def intro!: advancesI)
      qed
    qed
  qed
qed

section \<open>Open\<close>

lemma link_target_read:
  assumes wf: "fs_wf s" and k: "names_of (dents s) name = Some k"
    and st: "i_node_type (inode_table s ! k) = T_SYM_LINK"
  shows "bindR (data_block_get (i_data_block (inode_table s ! k)) (traced t s)) (\<lambda>block. cstr_at (fs_data s) block) =
    Inr (cstr (block_of s (block_number s k)))"
proof -
  obtain b where b: "owns s k b" "NUL \<in> set (block_of s b)"
    using bound_facts(9) [OF wf k] st by (auto simp: target_ok_def)
  then show ?thesis
    using owned_block [OF wf b(1)] block_end_le [OF wfx_tables [OF wf], of b]
      cstr_at_slice [of "b * block_size (fs_params s)" "block_size (fs_params s)" "fs_data s"]
    by (simp add: data_block_get_eq block_of_def)
qed

lemma open_here_eq:
  assumes wf: "fs_wf s" and p: "valid_pathname (Some path)" "is_cstring path"
  shows "tfs_open (Some path) mode s =
    (let t = [Acquire_wr open_mutex] @ dir_lock_trace (tl path) (Acquire_rd (Dir_lock, 0)) in
     case names_of (dents s) (tl path) of
       Some k \<Rightarrow>
         (let t = t @ [Release open_mutex, Acquire_wr (Inode_lock, k)] in
          if i_node_type (inode_table s ! k) = T_SYM_LINK
          then tfs_open (Some (cstr (block_of s (block_number s k)))) mode (traced (t @ [Release (Inode_lock, k)]) s)
          else Some (bindR (open_existing (int k) mode (traced t s)) (\<lambda>(off, s).
                 add_to_open_file_table (int k) off (traced [Release (Inode_lock, k)] s))))
     | None \<Rightarrow>
         if has_flag mode TFS_O_CREAT then
           Some (bindR (inode_create T_FILE (traced t s)) (\<lambda>(inum, s).
                 if inum = -1 then Inr (-1, traced [Release open_mutex] s)
                 else
                   bindR (add_dir_entry 0 (tl path) inum s) (\<lambda>(r, s).
                   if r = -1 then
                     bindR (inode_delete inum (traced [Release open_mutex] s)) (\<lambda>s. Inr (-1, s))
                   else add_to_open_file_table inum 0 (traced [Release open_mutex] s))))
         else Some (Inr (-1, traced (t @ [Release open_mutex]) s)))"
proof (cases "names_of (dents s) (tl path)")
  case None
  then show ?thesis
    using p root_get wfx_tables [OF wf] tfs_lookup_eq [of "{}" "traced _ s" path] wf
    by (subst tfs_open.simps) (simp add: Let_def cong: if_branch_cong)
next
  case (Some k)
  note F = bound_facts [OF wf Some]
  have get: "bindR (inode_get (int k) (traced t s)) (\<lambda>p. inode_at p (traced t s)) = Inr (inode_table s ! k)" for t
    using F by (simp add: inode_get_eq inode_at_eq)
  note sym = link_target_read [OF wf Some]
  show ?thesis
    using p root_get wfx_tables [OF wf] tfs_lookup_eq [of "{}" "traced _ s" path] wf Some get sym F(5)
    by (subst tfs_open.simps) (simp add: Let_def cong: if_branch_cong)
qed

end
