(* ===== verification/FS_Open.thy ===== *)
theory FS_Open
  imports FS_Link
begin

text \<open>
  \<open>tfs_open\<close> against its specification. When the symbolic links on the path do not form a cycle the
  call returns; otherwise it does not.
\<close>

section \<open>Sequencing\<close>

lemma advances_trans: "advances s s1 \<Longrightarrow> advances s1 s2 \<Longrightarrow> advances s s2"
  unfolding advances_def by (metis append.assoc bracketed_append)

section \<open>Entering a file into the open file table\<close>

lemma attach_sim:
  assumes wf: "fs_wf s" and k: "taken_inode s k" "k \<noteq> 0" "i_node_type (inode_table s ! k) = T_FILE"
    and off: "off \<le> BLOCK_SIZE s"
  shows "\<exists>r s'. add_to_open_file_table (int k) off s = Inr (r, s') \<and> advances s s' \<and>
    attach (fs_params s) k off (abs_fs s) r (abs_fs s')"
proof (cases "first_free (free_open_file_entries s)")
  case None
  have "attach (fs_params s) k off (abs_fs s) (-1) (abs_fs s)"
    using None by (simp add: attach_def handles_full_abs [OF wf])
  moreover have "advances s (traced (add_trace None) s)"
    using wf by (intro advancesI)
      (simp_all add: add_trace_def may_acquire_def less_eq_lock_class_def)
  ultimately show ?thesis
    using add_to_open_file_table_eq [OF wfx_tables [OF wf] k(1), of off] None by (simp add: Let_def)
next
  case (Some f)
  let ?s = "set_handle f \<lparr>of_inumber = int k, of_offset = off\<rparr> TAKEN s"
  have f: "f < MAX_OPEN_FILES s" "free_open_file_entries s ! f = FREE"
    using Some tables_okD [OF wfx_tables [OF wf]] by (simp_all add: first_free_Some)
  have wf': "fs_wf ?s"
    using k off by (intro wfx_set_handle [OF wf]) (simp add: handle_ok_def)
  have "abs_fs ?s = (abs_fs s)\<lparr>handles := (handles_of s)(f \<mapsto> (k, off))\<rparr>"
    using handles_set_handle(1) [OF wfx_tables [OF wf] f(1)] by (intro abs_fs_eqI) simp_all
  moreover have "handles_of s f = None"
    using f(2) by (simp add: handles_of_def live_handle_def)
  ultimately have "attach (fs_params s) k off (abs_fs s) (int f) (abs_fs ?s)"
    using f(1) by (auto simp: attach_def)
  moreover have "advances s (traced (add_trace (Some f)) ?s)"
    using wf' by (intro advancesI)
      (simp_all add: add_trace_def may_acquire_def less_lock_class_def less_eq_lock_class_def)
  ultimately show ?thesis
    using add_to_open_file_table_eq [OF wfx_tables [OF wf] k(1), of off] Some by (simp add: Let_def)
qed

section \<open>An existing file\<close>

definition truncated :: "nat \<Rightarrow> fs_state \<Rightarrow> fs_state" where
  "truncated k s = (if 0 < i_size (inode_table s ! k)
     then set_node k ((inode_table s ! k)\<lparr>i_size := 0\<rparr>) (set_block (block_number s k) FREE s) else s)"

lemma truncated_ok:
  assumes wf: "fs_wf s" and k: "taken_inode s k" "k \<noteq> 0" "i_node_type (inode_table s ! k) = T_FILE"
  shows "fs_wf (truncated k s)" and "abs_fs (truncated k s) = truncate_node k (abs_fs s)"
    and "taken_inode (truncated k s) k" and "i_node_type (inode_table (truncated k s) ! k) = T_FILE"
    and "i_size (inode_table (truncated k s) ! k) = 0"
    and "fs_params (truncated k s) = fs_params s" and "lock_trace (truncated k s) = lock_trace s"
proof -
  have len: "k < length (inode_table s)"
    using taken_less [OF wfx_tables [OF wf] k(1)] .
  show "taken_inode (truncated k s) k" "i_node_type (inode_table (truncated k s) ! k) = T_FILE"
      "i_size (inode_table (truncated k s) ! k) = 0" "fs_params (truncated k s) = fs_params s"
      "lock_trace (truncated k s) = lock_trace s"
    using k len by (simp_all add: truncated_def taken_inode_def)
  have node: "nodes_of s k = Some (AFile (content s k))"
    using k by (simp add: nodes_of_def node_view_def)
  have "fs_wf (truncated k s) \<and> abs_fs (truncated k s) = truncate_node k (abs_fs s)"
  proof (cases "0 < i_size (inode_table s ! k)")
    case False
    then have "content s k = []" by (simp add: content_def)
    then show ?thesis
      using wf False node by (simp add: truncated_def truncate_node_def blocks_held_def fun_upd_idem abs_fs_def)
  next
    case True
    then obtain b where b: "owns s k b" using nonempty_file_owns [OF wf k(1)] by blast
    note B = owned_block [OF wf b] and O = owns_block [OF wf b]
    define n where "n = (inode_table s ! k)\<lparr>i_size := 0\<rparr>"
    define s1 where "s1 = set_node k n s"
    have tr: "truncated k s = set_block b FREE s1"
      using True B(2) by (simp add: truncated_def s1_def n_def change_defs)
    have "fs_wfx (insert k {}) s1"
      unfolding s1_def set_node_def using wfx_node [OF wf k(1,2)] k(3)
      by (intro wfx_set_node [OF wf k(1,2)]) (auto simp: n_def node_ok_def)
    then have wf1: "fs_wf s1"
      by (rule wfx_settle) (use wf k len in \<open>simp add: fs_wfx_def links_ok_def s1_def n_def nlinks_def target_ok_def\<close>)
    have "\<not> owns s1 i b" for i
    proof (cases "i = k")
      case False
      then have "owns s1 i b = owns s i b" by (simp add: s1_def owns_def taken_inode_def)
      then show ?thesis using owns_inj [OF wf b, of i] False by auto
    qed (use len k(3) in \<open>simp add: owns_def s1_def n_def\<close>)
    then have wf': "fs_wf (truncated k s)"
      unfolding tr set_block_def by (rule wfx_free_block [OF wf1])
    have "nodes_of s1 = (nodes_of s)(k \<mapsto> AFile [])"
      using nodes_set_node [OF k(1,2) len, of n] k(3) by (simp add: s1_def n_def)
    moreover have "count_list ((free_blocks s)[b := FREE]) FREE = count_list (free_blocks s) FREE + 1"
      using O tables_okD [OF wfx_tables [OF wf]] by (intro count_free_update(2)) simp_all
    moreover have "blocks_held (nodes_of s k) = 1"
      using blocks_held_abs [OF wf k(1,2)] True by simp
    ultimately have "abs_fs (truncated k s) = truncate_node k (abs_fs s)"
      unfolding tr by (intro abs_fs_eqI) (simp_all add: truncate_node_def s1_def)
    then show ?thesis using wf' by blast
  qed
  then show "fs_wf (truncated k s)" "abs_fs (truncated k s) = truncate_node k (abs_fs s)"
    by blast+
qed

lemma open_existing_eq:
  assumes wf: "fs_wf s" and k: "taken_inode s k" "k \<noteq> 0" "i_node_type (inode_table s ! k) = T_FILE"
  shows "open_existing (int k) mode (traced t s) = Inr (
    if has_flag mode TFS_O_TRUNC
    then (0, traced (t @ (if 0 < i_size (inode_table s ! k) then blocks_trace else [])) (truncated k s))
    else (if has_flag mode TFS_O_APPEND then length (content s k) else 0, traced t s))"
proof -
  have len: "k < length (inode_table s)"
    using taken_less [OF wfx_tables [OF wf] k(1)] .
  note C = content_length [OF wf k(1)]
  show ?thesis
  proof (cases "0 < i_size (inode_table s ! k)")
    case True
    then obtain b where b: "owns s k b" using nonempty_file_owns [OF wf k(1)] by blast
    then show ?thesis
      using owned_block [OF wf b] True len C wfx_tables [OF wf]
      by (simp add: open_existing_def inode_at_eq inode_update_eq data_block_free_eq truncated_def
          set_node_def set_block_def)
  next
    case False
    then show ?thesis
      using len C by (simp add: open_existing_def inode_at_eq truncated_def)
  qed
qed

lemma attach_after:
  assumes "fs_wf s1" and "taken_inode s1 k" and "k \<noteq> 0" and "i_node_type (inode_table s1 ! k) = T_FILE"
    and "off \<le> BLOCK_SIZE s1" and "fs_params s1 = fs_params s" and "lock_trace s1 = lock_trace s"
    and "brackets Link_lock [] t"
  shows "\<exists>r s'. add_to_open_file_table (int k) off (traced t s1) = Inr (r, s') \<and> advances s s' \<and>
    attach (fs_params s) k off (abs_fs s1) r (abs_fs s')"
proof -
  have adv: "advances s (traced t s1)"
    using assms by (intro advancesI) simp_all
  obtain r s' where "add_to_open_file_table (int k) off (traced t s1) = Inr (r, s')"
      "advances (traced t s1) s'" "attach (fs_params s) k off (abs_fs s1) r (abs_fs s')"
    using attach_sim [of "traced t s1" k off] assms by auto
  then show ?thesis
    using advances_trans [OF adv] by blast
qed

lemma sim_open_file:
  assumes wf: "fs_wf s" and p: "valid_pathname (Some path)" "is_cstring path"
    and k: "names_of (dents s) (tl path) = Some k" "i_node_type (inode_table s ! k) = T_FILE"
  shows "\<exists>r s'. tfs_open (Some path) mode s = Some (Inr (r, s')) \<and> advances s s' \<and>
    client_step (fs_params s) (abs_fs s) (Open path mode) (r, []) (abs_fs s')"
proof -
  note F = bound_facts [OF wf k(1)]
  define tr where "tr u = Acquire_wr open_mutex # dir_lock_trace (tl path) (Acquire_rd (Dir_lock, 0)) @
    [Release open_mutex, Acquire_wr (Inode_lock, k)] @ u @ [Release (Inode_lock, k)]" for u
  have br: "brackets Link_lock [] (tr u)" if "u = [] \<or> u = blocks_trace" for u
    using that by (auto simp: tr_def may_acquire_def less_lock_class_def less_eq_lock_class_def)
  have node: "nodes_of s k = Some (AFile (content s k))"
    using F(1,2) k(2) by (simp add: nodes_of_def node_view_def)
  have here: "resolves (abs_fs s) path path"
    using k(1) node by (intro resolves_here) auto
  note step = step_open_file [OF here p(1), of k "content s k" _ mode]
  note E = open_here_eq [OF wf p, of mode] and X = open_existing_eq [OF wf F(1,2) k(2)]
  have size: "length (content s k) \<le> BLOCK_SIZE s"
    using content_length [OF wf F(1)] wfx_node [OF wf F(1,2)] by (simp add: node_ok_def)
  show ?thesis
  proof (cases "has_flag mode TFS_O_TRUNC")
    case True
    define u where "u = (if 0 < i_size (inode_table s ! k) then blocks_trace else [])"
    then have u: "u = [] \<or> u = blocks_trace" by simp
    note T = truncated_ok [OF wf F(1,2) k(2)]
    obtain r s' where a: "add_to_open_file_table (int k) 0 (traced (tr u) (truncated k s)) = Inr (r, s')"
        "advances s s'" "attach (fs_params s) k 0 (truncate_node k (abs_fs s)) r (abs_fs s')"
      using attach_after [OF T(1,3) F(2) T(4) _ T(6,7) br [OF u], of 0] T(2) by auto
    then have "tfs_open (Some path) mode s = Some (Inr (r, s'))"
      using E X k True by (simp add: Let_def tr_def u_def)
    then show ?thesis
      using a step [of _ 0 "fs_params s" r "abs_fs s'"] k(1) node True by auto
  next
    case False
    define off where "off = (if has_flag mode TFS_O_APPEND then length (content s k) else 0)"
    then have off: "off \<le> BLOCK_SIZE s" using size by simp
    obtain r s' where a: "add_to_open_file_table (int k) off (traced (tr []) s) = Inr (r, s')"
        "advances s s'" "attach (fs_params s) k off (abs_fs s) r (abs_fs s')"
      using attach_after [OF wf F(1,2) k(2) off refl refl br, of "[]"] by auto
    then have "tfs_open (Some path) mode s = Some (Inr (r, s'))"
      using E X k False by (simp add: Let_def tr_def off_def)
    then show ?thesis
      using a step [of _ off "fs_params s" r "abs_fs s'"] k(1) node False by (auto simp: off_def)
  qed
qed

section \<open>A new file\<close>

lemma created_ok:
  assumes wf: "fs_wf s" and k: "first_free (freeinode_ts s) = Some k"
    and name: "is_cstring name" "can_bind (fs_params s) (abs_fs s) name"
  defines "s' \<equiv> bind_name name k (claim_inode k T_FILE s)"
  shows "fs_wf s'" and "taken_inode s' k" and "i_node_type (inode_table s' ! k) = T_FILE"
    and "abs_fs s' = (abs_fs s)\<lparr>names := (names_of (dents s))(name \<mapsto> k), nodes := (nodes_of s)(k \<mapsto> AFile [])\<rparr>"
    and "fs_params s' = fs_params s" and "lock_trace s' = lock_trace s"
proof -
  let ?s = "claim_inode k T_FILE s"
  note C = claim_ok [OF wf k, of T_FILE, simplified] and K = fresh_inode_abs [OF wf k]
  have hold: "links_hold ?s"
    using wf_links_hold [OF wf] C(8,11,12) unfolding links_hold_def
    by (metis inode_t.select_convs(1) inode_type.distinct(3))
  have cb: "can_bind (fs_params ?s) (abs_fs ?s) name"
    using name(2) by (simp add: can_bind_def dir_full_def)
  note B = bind_ok [OF C(1) hold C(2) K(2) name(1) cb]
  have "fs_wfx (insert k {}) s'"
    using B(1) by (simp add: s'_def)
  then show "fs_wf s'"
    by (rule wfx_settle) (use B C in \<open>simp add: s'_def target_ok_def\<close>)
  show "taken_inode s' k" "i_node_type (inode_table s' ! k) = T_FILE"
    using C(2,8) by (simp_all add: s'_def)
  show "abs_fs s' = (abs_fs s)\<lparr>names := (names_of (dents s))(name \<mapsto> k), nodes := (nodes_of s)(k \<mapsto> AFile [])\<rparr>"
    using B(4) nodes_claim_file [OF wfx_tables [OF wf] K(3,2)] by (simp add: s'_def abs_fs_def)
qed (simp_all add: s'_def)

lemma sim_open_create:
  assumes wf: "fs_wf s" and p: "valid_pathname (Some path)" "is_cstring path"
    and absent: "names_of (dents s) (tl path) = None"
  shows "\<exists>r s'. tfs_open (Some path) mode s = Some (Inr (r, s')) \<and> advances s s' \<and>
    client_step (fs_params s) (abs_fs s) (Open path mode) (r, []) (abs_fs s')"
proof -
  define t0 where "t0 = Acquire_wr open_mutex # dir_lock_trace (tl path) (Acquire_rd (Dir_lock, 0))"
  define dt where "dt = dir_lock_trace (tl path) (Acquire_wr (Dir_lock, 0))"
  note E = open_here_eq [OF wf p, of mode]
  note br = may_acquire_def less_lock_class_def less_eq_lock_class_def
  have here: "resolves (abs_fs s) path path"
    using absent by (intro resolves_here) auto
  have missing: "client_step (fs_params s) (abs_fs s) (Open path mode) (-1, []) (abs_fs s)"
    if "\<not> has_flag mode TFS_O_CREAT \<or> first_free (freeinode_ts s) = None \<or> \<not> can_bind (fs_params s) (abs_fs s) (tl path)"
    using step_open_missing [OF here p(1), of mode] that absent by (simp add: inodes_full_abs [OF wf])
  have create: "inode_create T_FILE (traced t s) = Inr (case first_free (freeinode_ts s) of
      None \<Rightarrow> (-1, traced (t @ freeinode_trace) s)
    | Some k \<Rightarrow> (int k, traced (t @ freeinode_trace) (claim_inode k T_FILE s)))" for t
    using inode_create_eq [of "traced t s" T_FILE] wfx_tables [OF wf] by (auto split: option.splits)
  consider (no) "\<not> has_flag mode TFS_O_CREAT"
    | (full) "has_flag mode TFS_O_CREAT" "first_free (freeinode_ts s) = None"
    | (room) k where "has_flag mode TFS_O_CREAT" "first_free (freeinode_ts s) = Some k"
    by blast
  then show ?thesis
  proof cases
    case no
    have "advances s (traced (t0 @ [Release open_mutex]) s)"
      using wf by (intro advancesI) (simp_all add: t0_def br)
    then show ?thesis
      using E absent no missing by (auto simp: Let_def t0_def)
  next
    case full
    have "advances s (traced (t0 @ freeinode_trace @ [Release open_mutex]) s)"
      using wf by (intro advancesI) (simp_all add: t0_def br)
    then show ?thesis
      using E absent full missing create by (auto simp: Let_def t0_def)
  next
    case (room k)
    let ?s = "claim_inode k T_FILE s"
    note C = claim_ok [OF wf room(2), of T_FILE, simplified] and K = fresh_inode_abs [OF wf room(2)]
    have add: "add_dir_entry 0 (tl path) (int k) (traced t ?s) =
       Inr (if can_bind (fs_params s) (abs_fs s) (tl path) then (0, traced (t @ dt) (bind_name (tl path) k ?s))
            else (-1, traced (t @ dt) ?s))" for t
      using add_entry_eq [of "{k}" "traced t ?s" "tl path" k] C(1) cstring_tl [OF p(2)] K(3)
      by (simp add: Let_def can_bind_def dir_full_def dt_def)
    show ?thesis
    proof (cases "can_bind (fs_params s) (abs_fs s) (tl path)")
      case False
      have del: "inode_delete (int k) (traced t ?s) = Inr (traced (t @ delete_trace k ?s) (drop_inode k ?s))" for t
        using inode_delete_eq [of "{k}" "traced t ?s" k] C(1,2) by simp
      have "fs_wf (drop_inode k ?s)" "abs_fs (drop_inode k ?s) = abs_fs s"
        using give_back_ok [OF C(1,2) K(2) C(6,7), of s] C(8,9,10) by (auto simp: abs_fs_def)
      moreover from this have "advances s (traced (t0 @ freeinode_trace @ dt @ [Release open_mutex] @ delete_trace k ?s @ [])
          (drop_inode k ?s))"
        by (intro advancesI) (simp_all add: t0_def dt_def br del: append_Nil2)
      ultimately show ?thesis
        using E absent room False missing create add del by (auto simp: Let_def t0_def)
    next
      case True
      let ?s' = "bind_name (tl path) k ?s"
      note N = created_ok [OF wf room(2) cstring_tl [OF p(2)] True]
      have b: "brackets Link_lock [] (t0 @ freeinode_trace @ dt @ [Release open_mutex])"
        by (simp add: t0_def dt_def br)
      obtain r s' where a: "add_to_open_file_table (int k) 0
            (traced (t0 @ freeinode_trace @ dt @ [Release open_mutex]) ?s') = Inr (r, s')"
          "advances s s'" "attach (fs_params s) k 0 (abs_fs ?s') r (abs_fs s')"
        using attach_after [OF N(1,2) K(2) N(3) _ N(5,6) b, of 0] by auto
      then have "tfs_open (Some path) mode s = Some (Inr (r, s'))"
        using E absent room True create add by (simp add: Let_def t0_def)
      moreover have "client_step (fs_params s) (abs_fs s) (Open path mode) (r, []) (abs_fs s')"
        using step_open_create [OF here p(1) room(1) True K(1), of "abs_fs ?s'" r "abs_fs s'"] a(3) N(4) by simp
      ultimately show ?thesis
        using a(2) by blast
    qed
  qed
qed

section \<open>Following symbolic links\<close>

lemma client_step_through_link:
  assumes "client_step p a (Open t mode) r a'" and "valid_pathname (Some path)"
    and "names a (tl path) = Some i" and "nodes a i = Some (ALink t)"
  shows "client_step p a (Open path mode) r a'"
  using assms(1)
  by (cases rule: client_step_OpenE)
    (auto intro: client_step.intros resolves_link [OF assms(2-4)])

lemma abs_link:
  assumes "fs_wf s" and "names_of (dents s) name = Some k"
  shows "nodes_of s k = Some (ALink t) \<longleftrightarrow>
    i_node_type (inode_table s ! k) = T_SYM_LINK \<and> t = cstr (block_of s (block_number s k))"
  using bound_facts(1,2) [OF assms] by (auto simp: nodes_of_def node_view_def)

text \<open>One link is followed: the call goes on with the target, in a state that differs in the lock trace.\<close>

lemma open_link_eq:
  assumes wf: "fs_wf s" and p: "valid_pathname (Some path)" "is_cstring path"
    and k: "names_of (dents s) (tl path) = Some k" "nodes_of s k = Some (ALink t)"
  obtains u where "tfs_open (Some path) mode s = tfs_open (Some t) mode (traced u s)"
    and "advances s (traced u s)" and "is_cstring t"
proof -
  define u where "u = Acquire_wr open_mutex # dir_lock_trace (tl path) (Acquire_rd (Dir_lock, 0)) @
    [Release open_mutex, Acquire_wr (Inode_lock, k), Release (Inode_lock, k)]"
  note L = abs_link [OF wf k(1), of t]
  have "tfs_open (Some path) mode s = tfs_open (Some t) mode (traced u s)"
    using open_here_eq [OF wf p, of mode] k L by (simp add: Let_def u_def)
  moreover have "advances s (traced u s)"
    using wf by (intro advancesI)
      (simp_all add: u_def may_acquire_def less_lock_class_def less_eq_lock_class_def)
  ultimately show ?thesis
    using that L k(2) by simp
qed

lemma sim_open:
  assumes "resolves a path q" and "abs_fs s = a" and "fs_wf s" and "is_cstring path"
  shows "\<exists>r s'. tfs_open (Some path) mode s = Some (Inr (r, s')) \<and> advances s s' \<and>
    client_step (fs_params s) a (Open path mode) (r, []) (abs_fs s')"
  using assms
proof (induction arbitrary: s rule: resolves.induct)
  case (resolves_here path)
  show ?case
  proof (cases "valid_pathname (Some path)")
    case False
    then have "tfs_open (Some path) mode s = Some (Inr (-1, s))"
      by (subst tfs_open.simps) simp
    moreover have "client_step (fs_params s) a (Open path mode) (-1, []) (abs_fs s)"
      using step_open_bad_path [OF resolves.resolves_here [OF resolves_here(1)] False] resolves_here(2) by simp
    ultimately show ?thesis
      using advances_refl [OF resolves_here(3)] by blast
  next
    case True
    show ?thesis
    proof (cases "names_of (dents s) (tl path)")
      case None
      then show ?thesis
        using sim_open_create [OF resolves_here(3) True resolves_here(4) None, of mode] resolves_here(2) by simp
    next
      case (Some k)
      have "i_node_type (inode_table s ! k) = T_FILE"
        using bound_facts(5) [OF resolves_here(3) Some] abs_link [OF resolves_here(3) Some]
          resolves_here(1,2) True Some
        by (cases "i_node_type (inode_table s ! k)") auto
      then show ?thesis
        using sim_open_file [OF resolves_here(3) True resolves_here(4) Some, of mode] resolves_here(2) by simp
    qed
  qed
next
  case (resolves_link path i t q)
  then have k: "names_of (dents s) (tl path) = Some i" "nodes_of s i = Some (ALink t)"
    by auto
  obtain u where u: "tfs_open (Some path) mode s = tfs_open (Some t) mode (traced u s)"
      "advances s (traced u s)" "is_cstring t"
    using open_link_eq [OF resolves_link.prems(2) resolves_link.hyps(1) resolves_link.prems(3) k] by blast
  obtain r s' where s': "tfs_open (Some t) mode (traced u s) = Some (Inr (r, s'))"
      "advances (traced u s) s'" "client_step (fs_params s) a (Open t mode) (r, []) (abs_fs s')"
    using resolves_link.IH [of "traced u s"] resolves_link.prems u(3) by auto
  then show ?case
    using u advances_trans client_step_through_link [OF s'(3) resolves_link.hyps(1-3)] by auto
qed

text \<open>A call that returns has resolved its path: on a cycle of links \<open>tfs_open\<close> does not return.\<close>

lemma open_returns_resolves:
  assumes "tfs_open (Some path) mode s = Some res" and "fs_wf s" and "is_cstring path"
  shows "\<exists>q. resolves (abs_fs s) path q"
proof -
  let ?P = "\<lambda>name (mode :: nat) s (res :: (int \<times> fs_state) res). fs_wf s \<longrightarrow>
    (\<forall>path. name = Some path \<longrightarrow> is_cstring path \<longrightarrow> (\<exists>q. resolves (abs_fs s) path q))"
  have "?P (Some path) mode s res"
  proof (rule tfs_open.raw_induct [where P = ?P, OF _ assms(1)], goal_cases)
    case (1 tfs_open' name mode s y)
    show ?case
    proof (intro impI allI)
      fix path
      assume wf: "fs_wf s" and name: "name = Some path" and cs: "is_cstring path"
      show "\<exists>q. resolves (abs_fs s) path q"
      proof (cases "\<exists>i t. valid_pathname (Some path) \<and> names (abs_fs s) (tl path) = Some i \<and>
          nodes (abs_fs s) i = Some (ALink t)")
        case True
        then obtain k t where v: "valid_pathname (Some path)" and k: "names_of (dents s) (tl path) = Some k"
          and t: "nodes_of s k = Some (ALink t)"
          by auto
        note F = bound_facts [OF wf k] and L = abs_link [OF wf k, of t]
        have get: "bindR (inode_get (int k) (traced u s)) (\<lambda>p. inode_at p (traced u s)) = Inr (inode_table s ! k)" for u
          using F by (simp add: inode_get_eq inode_at_eq)
        have "\<exists>u. tfs_open' (Some t) mode (traced u s) = Some y"
          using 1(2) name v k L t wf cs root_get wfx_tables [OF wf] tfs_lookup_eq [of "{}" "traced _ s" path]
            get link_target_read [OF wf k] by (auto simp: Let_def)
        then obtain u where "tfs_open' (Some t) mode (traced u s) = Some y" ..
        from 1(1) [OF this] obtain q where "resolves (abs_fs s) t q"
          using wf L t by auto
        then show ?thesis
          using resolves_link [OF v, of "abs_fs s" k t q] k t by auto
      qed (use resolves_here in blast)
    qed
  qed
  then show ?thesis using assms by blast
qed

end
