(* ===== verification/FS_Client.thy ===== *)
theory FS_Client
  imports FS_Open
begin

text \<open>
  The file system as its clients use it: sequences of calls. \<open>exec_call\<close> runs one call of
  \<^verbatim>\<open>operations.c\<close>; \<open>fs_run\<close> is what a sequence of calls can lead to.
\<close>

section \<open>Running a call\<close>

text \<open>
  The value a call returns and, for a read, the bytes it delivered. \<open>None\<close>: the call does not return.
  The buffer of a read is as large as the client asks for.
\<close>

definition exec_call :: "tfs_call \<Rightarrow> fs_state \<Rightarrow> ((int \<times> mem) \<times> fs_state) res option" where
  "exec_call c s =
     (let plain = (\<lambda>x. Some (bindR x (\<lambda>(r, s). Inr ((r, []), s)))) in
      case c of
        Open path mode \<Rightarrow>
          map_option (\<lambda>x. bindR x (\<lambda>(r, s). Inr ((r, []), s))) (tfs_open (Some path) mode s)
      | Close h \<Rightarrow> plain (tfs_close h s)
      | Write h buf \<Rightarrow> plain (tfs_write h (Some buf) (length buf) s)
      | Read h n \<Rightarrow>
          Some (bindR (tfs_read h (Some (replicate n NUL)) n s) (\<lambda>(r, buf, s). Inr ((r, take (nat r) (the buf)), s)))
      | Sym_link t l \<Rightarrow> plain (tfs_sym_link (Some t) (Some l) s)
      | Link t l \<Rightarrow> plain (tfs_link (Some t) (Some l) s)
      | Unlink t \<Rightarrow> plain (tfs_unlink (Some t) s))"

text \<open>What a caller has to respect: strings without inner terminators, targets that fit in a block.\<close>

fun call_ok :: "tfs_params \<Rightarrow> tfs_call \<Rightarrow> bool" where
  "call_ok p (Open path mode) \<longleftrightarrow> is_cstring path"
| "call_ok p (Close h) \<longleftrightarrow> True"
| "call_ok p (Write h buf) \<longleftrightarrow> length buf < 2 ^ 63"
| "call_ok p (Read h n) \<longleftrightarrow> True"
| "call_ok p (Sym_link t l) \<longleftrightarrow> is_cstring t \<and> is_cstring l \<and> length t < block_size p"
| "call_ok p (Link t l) \<longleftrightarrow> is_cstring t \<and> is_cstring l"
| "call_ok p (Unlink t) \<longleftrightarrow> is_cstring t"

definition resolvable :: "afs \<Rightarrow> tfs_call \<Rightarrow> bool" where
  "resolvable a c \<longleftrightarrow> (\<forall>path mode. c = Open path mode \<longrightarrow> (\<exists>q. resolves a path q))"

lemma exec_call_sim:
  assumes inv: "fs_inv s" and ok: "call_ok (fs_params s) c" and res: "resolvable (abs_fs s) c"
  shows "\<exists>r s'. exec_call c s = Some (Inr (r, s')) \<and> advances s s' \<and>
    client_step (fs_params s) (abs_fs s) c r (abs_fs s')"
proof (cases c)
  case (Open path mode)
  then obtain q where "resolves (abs_fs s) path q" using res by (auto simp: resolvable_def)
  then show ?thesis
    using sim_open [of "abs_fs s" path q s mode] inv ok Open by (auto simp: exec_call_def fs_inv_def)
next
  case (Read h n)
  then show ?thesis
    using sim_read [OF inv, of n "replicate n NUL" h] by (auto simp: exec_call_def)
next
  case (Close h)
  then show ?thesis
    using sim_close [OF inv, of h] by (auto simp: exec_call_def)
next
  case (Write h buf)
  then show ?thesis
    using sim_write [OF inv, of buf h] ok by (auto simp: exec_call_def)
next
  case (Sym_link t l)
  then show ?thesis
    using sim_sym_link [OF inv, of t l] ok by (auto simp: exec_call_def)
next
  case (Link t l)
  then show ?thesis
    using sim_link [OF inv, of t l] ok by (auto simp: exec_call_def)
next
  case (Unlink t)
  then show ?thesis
    using sim_unlink [OF inv, of t] ok by (auto simp: exec_call_def)
qed

lemma exec_call_diverges:
  assumes "fs_wf s" and "call_ok (fs_params s) c" and "\<not> resolvable (abs_fs s) c"
  shows "exec_call c s = None"
proof -
  obtain path mode where c: "c = Open path mode" and "\<nexists>q. resolves (abs_fs s) path q"
    using assms(3) by (auto simp: resolvable_def)
  then have "tfs_open (Some path) mode s = None"
    using open_returns_resolves [OF _ assms(1), of path mode] assms(2) by (cases "tfs_open (Some path) mode s") auto
  then show ?thesis
    by (simp add: exec_call_def c)
qed

section \<open>Sequences of calls\<close>

inductive fs_run :: "fs_state \<Rightarrow> (tfs_call \<times> int \<times> mem) list \<Rightarrow> fs_state \<Rightarrow> bool" where
  fs_run_nil: "fs_run s [] s"
| fs_run_call: "fs_run s cs s1 \<Longrightarrow> call_ok (fs_params s1) c \<Longrightarrow> exec_call c s1 = Some (Inr (r, s2)) \<Longrightarrow>
    fs_run s (cs @ [(c, r)]) s2"

inductive_simps fs_run_snoc: "fs_run s (cs @ [x]) s'"

inductive afs_run :: "tfs_params \<Rightarrow> afs \<Rightarrow> (tfs_call \<times> int \<times> mem) list \<Rightarrow> afs \<Rightarrow> bool" for p where
  afs_run_nil: "afs_run p a [] a"
| afs_run_call: "afs_run p a cs a1 \<Longrightarrow> client_step p a1 c r a2 \<Longrightarrow> afs_run p a (cs @ [(c, r)]) a2"

lemma exec_call_step:
  assumes "fs_inv s" and "call_ok (fs_params s) c" and "exec_call c s = Some (Inr (r, s'))"
  shows "advances s s'" and "client_step (fs_params s) (abs_fs s) c r (abs_fs s')" and "fs_inv s'"
proof -
  have "resolvable (abs_fs s) c"
    using exec_call_diverges assms by (fastforce simp: fs_inv_def)
  then show *: "advances s s'" "client_step (fs_params s) (abs_fs s) c r (abs_fs s')"
    using exec_call_sim [OF assms(1,2)] assms(3) by auto
  then show "fs_inv s'"
    using inv_step [OF assms(1)] by blast
qed

lemma fs_run_inv:
  assumes "fs_run s cs s'" and "fs_inv s"
  shows "fs_inv s' \<and> fs_params s' = fs_params s \<and> afs_run (fs_params s) (abs_fs s) cs (abs_fs s') \<and>
    (\<exists>t. bracketed Link_lock t \<and> lock_trace s' = lock_trace s @ t)"
  using assms
proof (induction rule: fs_run.induct)
  case (fs_run_nil s)
  then show ?case by (auto intro: afs_run_nil)
next
  case (fs_run_call s cs s1 c r s2)
  then have inv: "fs_inv s1" "fs_params s1 = fs_params s" "afs_run (fs_params s) (abs_fs s) cs (abs_fs s1)"
    and lt: "\<exists>t. bracketed Link_lock t \<and> lock_trace s1 = lock_trace s @ t"
    by auto
  note E = exec_call_step [OF inv(1) fs_run_call.hyps(2,3)]
  have "\<exists>t. bracketed Link_lock t \<and> lock_trace s2 = lock_trace s @ t"
    using lt E(1) bracketed_append unfolding advances_def by (metis append.assoc)
  then show ?case
    using E inv afs_run_call [OF inv(3)] by (auto simp: advances_def)
qed

end
