(* ===== verification/FS_Init.thy ===== *)
theory FS_Init
  imports FS_Client
begin

text \<open>
  \<open>tfs_init\<close>: when the allocations succeed it returns 0 and the file system is consistent and empty.

  The contents of what \<^verbatim>\<open>malloc\<close> returns are arbitrary: the name fields of the root directory's block
  in particular, which \<open>inode_create\<close> does not write.
\<close>

definition all_mallocs_ok :: "malloc_env \<Rightarrow> bool" where
  "all_mallocs_ok env \<longleftrightarrow> (\<forall>k<8. malloc_ok env k)"

section \<open>Labelling the entries\<close>

lemma label_entries_ok:
  assumes "44 * n \<le> length m"
  shows "\<exists>m'. label_entries_empty 0 n m = Inr m' \<and> length m' = length m \<and>
    (\<forall>j<n. slice m' (44 * j + 40) 4 = int32_bytes (-1))"
  using assms
proof (induction n)
  case 0
  then show ?case by simp
next
  case (Suc n)
  then obtain m1 where m1: "label_entries_empty 0 n m = Inr m1" "length m1 = length m"
      "\<forall>j<n. slice m1 (44 * j + 40) 4 = int32_bytes (-1)"
    by auto
  let ?m = "patch m1 (44 * n + 40) (int32_bytes (-1))"
  have fits: "44 * n + 44 \<le> length m1"
    using Suc.prems m1(2) by simp
  have "slice ?m (44 * j + 40) 4 = int32_bytes (-1)" if "j < Suc n" for j
  proof (cases "j = n")
    case True
    then show ?thesis
      using slice_patch_same [of "44 * n + 40" "int32_bytes (-1)" m1] fits by simp
  next
    case False
    then have "44 * j + 44 \<le> 44 * n" using that by simp
    then show ?thesis
      using m1(3) False that fits by (subst slice_patch_disjoint) auto
  qed
  moreover have "label_entries_empty 0 (Suc n) m = Inr ?m"
    using m1(1) fits by (simp add: entry_layout)
  moreover have "length ?m = length m"
    using fits m1(2) by simp
  ultimately show ?case by blast
qed

section \<open>The initial state\<close>

definition fresh_fs :: "malloc_env \<Rightarrow> tfs_params \<Rightarrow> fs_state \<Rightarrow> fs_state" where
  "fresh_fs env p s = snd (state_init env p s)"

lemma state_init_eq:
  assumes "all_mallocs_ok env" and "\<not> inode_table_set s"
  shows "state_init env p s = (0, fresh_fs env p s)"
    and "fs_params (fresh_fs env p s) = p" and "inode_table_set (fresh_fs env p s)"
    and "length (inode_table (fresh_fs env p s)) = max_inode_count p"
    and "freeinode_ts (fresh_fs env p s) = replicate (max_inode_count p) FREE"
    and "free_blocks (fresh_fs env p s) = replicate (max_block_count p) FREE"
    and "fs_data (fresh_fs env p s) = map (garbage_bytes env) [0..<max_block_count p * block_size p]"
    and "free_open_file_entries (fresh_fs env p s) = replicate (max_open_files_count p) FREE"
    and "length (open_file_table (fresh_fs env p s)) = max_open_files_count p"
    and "lock_trace (fresh_fs env p s) = lock_trace s"
  using assms by (auto simp: fresh_fs_def state_init_def Let_def malloc_array_def all_mallocs_ok_def)

lemma fresh_fs_tables: "all_mallocs_ok env \<Longrightarrow> \<not> inode_table_set s \<Longrightarrow> params_ok p \<Longrightarrow> tables_ok (fresh_fs env p s)"
  using state_init_eq [of env s p] by (simp add: tables_ok_def)

lemma first_free_replicate: "0 < n \<Longrightarrow> first_free (replicate n FREE) = Some 0"
  by (simp add: first_free_Some)

definition root_inode :: "tfs_params \<Rightarrow> inode_t" where
  "root_inode p = \<lparr>i_node_type = T_DIRECTORY, i_size = block_size p, i_data_block = 0, i_hard_links = 1\<rparr>"

lemma create_root_eq:
  assumes ok: "all_mallocs_ok env" "\<not> inode_table_set s" "params_ok p"
    and m: "label_entries_empty 0 (block_size p div 44) (fs_data (fresh_fs env p s)) = Inr m"
  defines "s0 \<equiv> fresh_fs env p s"
  shows "inode_create T_DIRECTORY s0 = Inr (0, traced (freeinode_trace @ blocks_trace)
    (s0\<lparr>freeinode_ts := (freeinode_ts s0)[0 := TAKEN], inode_table := (inode_table s0)[0 := root_inode p],
        free_blocks := (free_blocks s0)[0 := TAKEN], fs_data := m\<rparr>))"
proof -
  note I = state_init_eq [OF ok(1,2), of p, folded s0_def] and T = fresh_fs_tables [OF ok, folded s0_def]
  note P = tables_okD [OF T, unfolded I]
  have root: "n\<lparr>i_node_type := T_DIRECTORY, i_size := block_size p, i_data_block := 0, i_hard_links := Suc 0\<rparr> = root_inode p" for n
    by (simp add: root_inode_def)
  have alloc: "inode_alloc s0 = Inr (0, traced freeinode_trace (s0\<lparr>freeinode_ts := (freeinode_ts s0)[0 := TAKEN]\<rparr>))"
    using inode_alloc_eq [OF T] P by (simp add: I first_free_replicate)
  have upd: "inode_update 0 f s = Inr (s\<lparr>inode_table := (inode_table s)[0 := f (inode_table s ! 0)]\<rparr>)"
    if "inode_table s \<noteq> []" for f s
    using inode_update_eq [of 0 s f] that by simp
  have ne: "inode_table s0 \<noteq> []"
    using P by (simp add: I(4) flip: length_greater_0_conv)
  define s1 where "s1 = s0\<lparr>freeinode_ts := (freeinode_ts s0)[0 := TAKEN],
    inode_table := (inode_table s0)[0 := (inode_table s0 ! 0)\<lparr>i_node_type := T_DIRECTORY\<rparr>]\<rparr>"
  have "tables_ok (traced freeinode_trace s1)"
    using T by (simp add: tables_ok_def s1_def)
  then have blk: "data_block_alloc (traced freeinode_trace s1) =
      Inr (0, traced (freeinode_trace @ blocks_trace) (s1\<lparr>free_blocks := (free_blocks s0)[0 := TAKEN]\<rparr>))"
    using P by (simp add: data_block_alloc_eq s1_def I(6) first_free_replicate)
  have get: "data_block_get 0 s = Inr 0" if "fs_params s = p" for s
    using data_block_get_eq [of 0 s] that P by simp
  have len: "0 < length (inode_table s0)"
    using ne by simp
  show ?thesis
    using ne len m alloc blk
    by (simp add: inode_create_def upd s1_def get I MAX_DIR_ENTRIES_def sizeof_dir_entry_def root s0_def [symmetric]
        del: length_greater_0_conv)
qed

text \<open>A file system with the root directory only, all of whose entries are free.\<close>

lemma empty_fs_inv:
  assumes T: "tables_ok s" and params: "p = fs_params s"
    and inodes: "freeinode_ts s = (replicate (max_inode_count p) FREE)[0 := TAKEN]" "inode_table s ! 0 = root_inode p"
    and blocks: "free_blocks s = (replicate (max_block_count p) FREE)[0 := TAKEN]"
    and handles: "free_open_file_entries s = replicate (max_open_files_count p) FREE"
    and dir: "\<And>j. j < MAX_DIR_ENTRIES s \<Longrightarrow> snd (dents s ! j) = -1"
  shows "fs_inv s"
    and "abs_fs s = \<lparr>names = Map.empty, nodes = Map.empty, handles = Map.empty, spare = max_block_count p - 1\<rparr>"
proof -
  note P = tables_okD [OF T, folded params]
  have tk: "taken_inode s i \<longleftrightarrow> i = 0" for i
    using P inodes params by (cases "i = 0") (auto simp: taken_inode_def)
  have own: "owns s i b \<longleftrightarrow> i = 0 \<and> b = 0" for i b
    using P inodes(2) by (auto simp: owns_def tk root_inode_def)
  have nh: "\<not> live_handle s f" for f
    using handles params by (auto simp: live_handle_def)
  have "distinct_names (dents s)" "stale_ok (dents s)"
    using dir by (simp_all add: distinct_names_def stale_ok_def)
  then have "dir_ok s"
    using dir by (simp add: dir_ok_def entry_ok_def)
  then have "fs_wf s"
    using T P inodes(2) blocks
    by (simp add: fs_wfx_def root_ok_def tk root_dir_def root_inode_def blocks_ok_def own nodes_ok_def
        handles_ok_def nh links_ok_def params)
  then show "fs_inv s"
    by (simp add: fs_inv_def no_orphans_def tk)
  have "live_index (dents s) name = None" for name
    using dir by (simp add: live_index_None)
  then have "names_of (dents s) = Map.empty"
    by (simp add: fun_eq_iff names_of_None)
  moreover have "count_list (replicate n FREE) FREE = n" for n
    by (induction n) simp_all
  then have "count_list (free_blocks s) FREE = max_block_count p - 1"
    using count_free_update(1) [of 0 "replicate (max_block_count p) FREE"] P blocks by simp
  ultimately show "abs_fs s = \<lparr>names = Map.empty, nodes = Map.empty, handles = Map.empty, spare = max_block_count p - 1\<rparr>"
    by (intro abs_fs_eqI) (auto simp: fun_eq_iff nodes_of_def tk handles_of_def nh)
qed

lemma tfs_init_ok:
  assumes ok: "all_mallocs_ok env" "\<not> inode_table_set s" "params_ok p"
  shows "\<exists>s'. tfs_init env (Some p) s = Inr (0, s') \<and> fs_inv s' \<and> fs_params s' = p \<and>
    abs_fs s' = \<lparr>names = Map.empty, nodes = Map.empty, handles = Map.empty, spare = max_block_count p - 1\<rparr>"
proof -
  let ?s0 = "fresh_fs env p s" and ?n = "block_size p div 44"
  note I = state_init_eq [OF ok(1,2), of p] and T = fresh_fs_tables [OF ok]
  note P = tables_okD [OF T, unfolded I]
  have bs: "block_size p \<le> length (fs_data ?s0)"
    using root_block_end [OF T] I(2) by simp
  have n44: "44 * ?n \<le> block_size p"
    by simp
  then have fits: "44 * ?n \<le> length (fs_data ?s0)"
    using bs by linarith
  then obtain m where m: "label_entries_empty 0 ?n (fs_data ?s0) = Inr m" "length m = length (fs_data ?s0)"
      "\<forall>j<?n. slice m (44 * j + 40) 4 = int32_bytes (-1)"
    using label_entries_ok by blast
  define s1 where "s1 = ?s0\<lparr>freeinode_ts := (freeinode_ts ?s0)[0 := TAKEN], inode_table := (inode_table ?s0)[0 := root_inode p],
        free_blocks := (free_blocks ?s0)[0 := TAKEN], fs_data := m\<rparr>"
  have sel: "fs_params s1 = p" "fs_data s1 = m"
    using I(2) by (simp_all add: s1_def)
  have T1: "tables_ok s1"
    using T m(2) by (simp add: tables_ok_def s1_def)
  have dir: "snd (dents s1 ! j) = -1" if "j < MAX_DIR_ENTRIES s1" for j
  proof -
    have j: "j < ?n"
      using that by (simp add: MAX_DIR_ENTRIES_def sel sizeof_dir_entry_def)
    then have "44 * j + 44 \<le> block_size p"
      using n44 by linarith
    then show ?thesis
      using m(3) j that by (simp add: dents_def nth_dir_of block_of_def sel slice_slice entry_layout)
  qed
  note E = empty_fs_inv [OF T1, of p]
  have "fs_inv s1" "abs_fs s1 = \<lparr>names = Map.empty, nodes = Map.empty, handles = Map.empty, spare = max_block_count p - 1\<rparr>"
    using E dir sel(1) P(7) I
    by (simp_all add: s1_def)
  moreover have "tfs_init env (Some p) s = Inr (0, traced (freeinode_trace @ blocks_trace) s1)"
    using create_root_eq [OF ok m(1)] I(1) by (simp add: tfs_init_def s1_def)
  ultimately show ?thesis
    using sel(1) by auto
qed

end
