(* ===== verification/FS_Props.thy ===== *)
theory FS_Props
  imports FS_Init
begin

text \<open>
  The properties of TecnicoFS as a client sees them, and a small concrete file system on which each
  of them is exercised: two data blocks, three inodes, two handles, freshly initialised from memory
  full of garbage.
\<close>

section \<open>A concrete file system\<close>

definition demo_env :: malloc_env where
  "demo_env = \<lparr>malloc_ok = \<lambda>_. True,
     garbage_inodes = \<lambda>_. \<lparr>i_node_type = T_FILE, i_size = 7, i_data_block = 7, i_hard_links = 7\<rparr>,
     garbage_states = \<lambda>_. FREE, garbage_bytes = \<lambda>_. CHR ''x'',
     garbage_entries = \<lambda>_. \<lparr>of_inumber = 5, of_offset = 5\<rparr>\<rparr>"

definition demo_params :: tfs_params where
  "demo_params = \<lparr>max_inode_count = 3, max_block_count = 3, max_open_files_count = 2, block_size = 88\<rparr>"

definition off_fs :: fs_state where
  "off_fs = \<lparr>fs_params = demo_params, inode_table_set = False, inode_table = [], inode_locks = 0,
     freeinode_ts = [], fs_data = [], dir_locks = 0, free_blocks = [], open_file_table = [],
     free_open_file_entries = [], lock_trace = []\<rparr>"

definition state_after :: "(int \<times> fs_state) res \<Rightarrow> fs_state" where
  "state_after x = (case x of Inr (_, s) \<Rightarrow> s | Inl _ \<Rightarrow> off_fs)"

definition after :: "tfs_call \<Rightarrow> fs_state \<Rightarrow> fs_state" where
  "after c s = (case exec_call c s of Some (Inr (_, s')) \<Rightarrow> s' | _ \<Rightarrow> s)"

definition demo_fs :: fs_state where
  "demo_fs = state_after (tfs_init demo_env (Some demo_params) off_fs)"

abbreviation empty_afs :: "nat \<Rightarrow> afs" where
  "empty_afs n \<equiv> \<lparr>names = Map.empty, nodes = Map.empty, handles = Map.empty, spare = n\<rparr>"

lemma demo_hyps: "all_mallocs_ok demo_env" "\<not> inode_table_set off_fs" "params_ok demo_params"
  by (simp_all add: all_mallocs_ok_def demo_env_def off_fs_def params_ok_def demo_params_def)

lemma demo_fs_ok:
  shows "tfs_init demo_env (Some demo_params) off_fs = Inr (0, demo_fs)" and "fs_inv demo_fs"
    and "fs_params demo_fs = demo_params" and "abs_fs demo_fs = empty_afs 2"
  using tfs_init_ok [OF demo_hyps] by (auto simp: demo_fs_def state_after_def demo_params_def)

text \<open>A call that resolves and respects \<open>call_ok\<close> leads to a state with the specified view.\<close>

lemma after_ok:
  assumes "fs_inv s" and "call_ok (fs_params s) c" and "resolvable (abs_fs s) c"
  shows "fs_inv (after c s)" and "fs_params (after c s) = fs_params s"
    and "\<exists>r. exec_call c s = Some (Inr (r, after c s)) \<and> client_step (fs_params s) (abs_fs s) c r (abs_fs (after c s))"
proof -
  obtain r s' where s': "exec_call c s = Some (Inr (r, s'))" "advances s s'"
      "client_step (fs_params s) (abs_fs s) c r (abs_fs s')"
    using exec_call_sim [OF assms] by blast
  then have "after c s = s'" by (simp add: after_def)
  then show "fs_inv (after c s)" "fs_params (after c s) = fs_params s"
      "\<exists>r. exec_call c s = Some (Inr (r, after c s)) \<and> client_step (fs_params s) (abs_fs s) c r (abs_fs (after c s))"
    using s' inv_step [OF assms(1) s'(2,3)] by (auto simp: advances_def)
qed

text \<open>With \<open>/a\<close> created and open.\<close>

definition demo_open :: fs_state where
  "demo_open = after (Open ''/a'' TFS_O_CREAT) demo_fs"

lemma demo_open_ok:
  shows "fs_inv demo_open" and "fs_params demo_open = demo_params"
    and "\<exists>i f. 0 < i \<and> i < 3 \<and> f < 2 \<and> abs_fs demo_open =
      \<lparr>names = [''a'' \<mapsto> i], nodes = [i \<mapsto> AFile []], handles = [f \<mapsto> (i, 0)], spare = 2\<rparr>"
proof -
  have plain: "resolves (empty_afs 2) path q \<longleftrightarrow> q = path" for path q
    by (rule resolves_plain) simp
  have ok: "call_ok (fs_params demo_fs) (Open ''/a'' TFS_O_CREAT)" "resolvable (abs_fs demo_fs) (Open ''/a'' TFS_O_CREAT)"
    by (simp_all add: is_cstring_def resolvable_def demo_fs_ok plain)
  note A = after_ok [OF demo_fs_ok(2) ok, folded demo_open_def]
  show "fs_inv demo_open" "fs_params demo_open = demo_params"
    using A(1,2) demo_fs_ok(3) by simp_all
  obtain r x where r: "client_step demo_params (empty_afs 2) (Open ''/a'' TFS_O_CREAT) (r, x) (abs_fs demo_open)"
    using A(3) demo_fs_ok(3,4) by auto
  have room: "\<not> inodes_full demo_params (empty_afs 2)"
    by (auto simp: inodes_full_def demo_params_def intro: exI [of _ 1])
  have bind: "can_bind demo_params (empty_afs 2) (tl ''/a'')"
    by (simp add: can_bind_def invalid_sub_name_def MAX_FILE_NAME_def dir_full_def demo_params_def sizeof_dir_entry_def)
  have here: "resolves (empty_afs 2) ''/a'' ''/a''"
    by (simp add: plain)
  obtain i where i: "fresh_inode demo_params (empty_afs 2) i"
    and at: "attach demo_params i 0 \<lparr>names = [''a'' \<mapsto> i], nodes = [i \<mapsto> AFile []], handles = Map.empty, spare = 2\<rparr>
      r (abs_fs demo_open)"
    by (rule open_step_create [OF r here _ _ bind room]) simp_all
  have "0 < i \<and> i < 3"
    using i by (auto simp: fresh_inode_def demo_params_def)
  moreover have "\<not> handles_full demo_params (\<lparr>names = n, nodes = m, handles = Map.empty, spare = k\<rparr>)" for n m k
    by (auto simp: handles_full_def demo_params_def intro: exI [of _ 0])
  then have "\<exists>f < 2. abs_fs demo_open =
      \<lparr>names = [''a'' \<mapsto> i], nodes = [i \<mapsto> AFile []], handles = [f \<mapsto> (i, 0)], spare = 2\<rparr>"
    using at by (auto simp: attach_def demo_params_def)
  ultimately show "\<exists>i f. 0 < i \<and> i < 3 \<and> f < 2 \<and> abs_fs demo_open =
      \<lparr>names = [''a'' \<mapsto> i], nodes = [i \<mapsto> AFile []], handles = [f \<mapsto> (i, 0)], spare = 2\<rparr>"
    by blast
qed

text \<open>With \<open>/a\<close> open twice.\<close>

definition demo_two :: fs_state where
  "demo_two = after (Open ''/a'' 0) demo_open"

lemma demo_two_ok:
  shows "fs_inv demo_two" and "fs_params demo_two = demo_params"
    and "\<exists>i f g. f \<noteq> g \<and> abs_fs demo_two = \<lparr>names = [''a'' \<mapsto> i], nodes = [i \<mapsto> AFile []],
      handles = [f \<mapsto> (i, 0), g \<mapsto> (i, 0)], spare = 2\<rparr>"
proof -
  obtain i f where f: "f < 2" and abs: "abs_fs demo_open =
      \<lparr>names = [''a'' \<mapsto> i], nodes = [i \<mapsto> AFile []], handles = [f \<mapsto> (i, 0)], spare = 2\<rparr>"
    using demo_open_ok(3) by blast
  have plain: "resolves (abs_fs demo_open) path q \<longleftrightarrow> q = path" for path q
    by (rule resolves_plain) (simp add: abs del: abs_fs_select)
  have ok: "call_ok (fs_params demo_open) (Open ''/a'' 0)" "resolvable (abs_fs demo_open) (Open ''/a'' 0)"
    by (simp_all add: is_cstring_def resolvable_def plain)
  note A = after_ok [OF demo_open_ok(1) ok, folded demo_two_def]
  show "fs_inv demo_two" "fs_params demo_two = demo_params"
    using A(1,2) demo_open_ok(2) by simp_all
  obtain r x where r: "client_step demo_params (abs_fs demo_open) (Open ''/a'' 0) (r, x) (abs_fs demo_two)"
    using A(3) demo_open_ok(2) by auto
  have at: "attach demo_params i 0 (abs_fs demo_open) r (abs_fs demo_two)"
    using open_step_file [OF r, of "''/a''" i "[]"] plain by (simp add: abs del: abs_fs_select)
  have "handles (abs_fs demo_open) (if f = 0 then 1 else 0) = None" "(if f = 0 then 1 else 0) < max_open_files_count demo_params"
    using f by (auto simp: abs demo_params_def simp del: abs_fs_select)
  then have "\<not> handles_full demo_params (abs_fs demo_open)"
    unfolding handles_full_def by blast
  then obtain g where "handles (abs_fs demo_open) g = None"
      "abs_fs demo_two = (abs_fs demo_open)\<lparr>handles := (handles (abs_fs demo_open))(g \<mapsto> (i, 0))\<rparr>"
    using attach_room [OF at] by blast
  then have "f \<noteq> g \<and> abs_fs demo_two = \<lparr>names = [''a'' \<mapsto> i], nodes = [i \<mapsto> AFile []],
      handles = [f \<mapsto> (i, 0), g \<mapsto> (i, 0)], spare = 2\<rparr>"
    by (auto simp: abs simp del: abs_fs_select)
  then show "\<exists>i f g. f \<noteq> g \<and> abs_fs demo_two = \<lparr>names = [''a'' \<mapsto> i], nodes = [i \<mapsto> AFile []],
      handles = [f \<mapsto> (i, 0), g \<mapsto> (i, 0)], spare = 2\<rparr>"
    by blast
qed

text \<open>With two symbolic links that point to each other.\<close>

inductive_cases client_step_Sym_linkE: "client_step p a (Sym_link t l) r a'"

lemma sym_link_created:
  assumes "client_step p a (Sym_link t l) r a'" and "valid_pathname (Some t)" and "valid_pathname (Some l)"
    and "t \<noteq> l" and "\<not> inodes_full p a" and "0 < spare a" and "can_bind p a (tl l)"
  obtains i where "fresh_inode p a i"
    and "a' = a\<lparr>names := (names a)(tl l \<mapsto> i), nodes := (nodes a)(i \<mapsto> ALink t), spare := spare a - 1\<rparr>"
  using assms by (auto elim!: client_step_Sym_linkE)

definition demo_sym :: fs_state where
  "demo_sym = after (Sym_link ''/b'' ''/a'') demo_fs"

lemma demo_sym_ok:
  shows "fs_inv demo_sym" and "fs_params demo_sym = demo_params"
    and "\<exists>i. 0 < i \<and> i < 3 \<and> abs_fs demo_sym =
      \<lparr>names = [''a'' \<mapsto> i], nodes = [i \<mapsto> ALink ''/b''], handles = Map.empty, spare = 1\<rparr>"
proof -
  have ok: "call_ok (fs_params demo_fs) (Sym_link ''/b'' ''/a'')" "resolvable (abs_fs demo_fs) (Sym_link ''/b'' ''/a'')"
    by (simp_all add: is_cstring_def resolvable_def demo_fs_ok demo_params_def)
  note A = after_ok [OF demo_fs_ok(2) ok, folded demo_sym_def]
  show "fs_inv demo_sym" "fs_params demo_sym = demo_params"
    using A(1,2) demo_fs_ok(3) by simp_all
  obtain r where r: "client_step demo_params (empty_afs 2) (Sym_link ''/b'' ''/a'') r (abs_fs demo_sym)"
    using A(3) demo_fs_ok(3,4) by auto
  have "\<not> inodes_full demo_params (empty_afs 2)"
    by (auto simp: inodes_full_def demo_params_def intro: exI [of _ 1])
  moreover have "can_bind demo_params (empty_afs 2) ''a''"
    by (simp add: can_bind_def invalid_sub_name_def MAX_FILE_NAME_def dir_full_def demo_params_def sizeof_dir_entry_def)
  ultimately show "\<exists>i. 0 < i \<and> i < 3 \<and> abs_fs demo_sym =
      \<lparr>names = [''a'' \<mapsto> i], nodes = [i \<mapsto> ALink ''/b''], handles = Map.empty, spare = 1\<rparr>"
    using r by (elim sym_link_created) (auto simp: fresh_inode_def demo_params_def intro!: exI)
qed

definition demo_cycle :: fs_state where
  "demo_cycle = after (Sym_link ''/a'' ''/b'') demo_sym"

lemma demo_cycle_ok:
  shows "fs_inv demo_cycle" and "fs_params demo_cycle = demo_params"
    and "\<exists>i j. i \<noteq> j \<and> abs_fs demo_cycle = \<lparr>names = [''a'' \<mapsto> i, ''b'' \<mapsto> j],
      nodes = [i \<mapsto> ALink ''/b'', j \<mapsto> ALink ''/a''], handles = Map.empty, spare = 0\<rparr>"
proof -
  have ok: "call_ok (fs_params demo_sym) (Sym_link ''/a'' ''/b'')" "resolvable (abs_fs demo_sym) (Sym_link ''/a'' ''/b'')"
    by (simp_all add: is_cstring_def resolvable_def demo_sym_ok(2) demo_params_def)
  note A = after_ok [OF demo_sym_ok(1) ok, folded demo_cycle_def]
  show "fs_inv demo_cycle" "fs_params demo_cycle = demo_params"
    using A(1,2) demo_sym_ok(2) by simp_all
  obtain i where i: "0 < i" "i < 3"
    and abs: "abs_fs demo_sym = \<lparr>names = [''a'' \<mapsto> i], nodes = [i \<mapsto> ALink ''/b''], handles = Map.empty, spare = 1\<rparr>"
    using demo_sym_ok(3) by blast
  obtain r where r: "client_step demo_params (abs_fs demo_sym) (Sym_link ''/a'' ''/b'') r (abs_fs demo_cycle)"
    using A(3) demo_sym_ok(2) by auto
  have "0 < 3 - i" "3 - i < 3" "3 - i \<noteq> i"
    using i by presburger+
  then have "\<not> inodes_full demo_params (abs_fs demo_sym)"
    by (simp add: inodes_full_def demo_params_def abs) (rule exI [of _ "3 - i"], simp)
  moreover have "can_bind demo_params (abs_fs demo_sym) ''b''"
    by (simp add: abs can_bind_def invalid_sub_name_def MAX_FILE_NAME_def dir_full_def demo_params_def sizeof_dir_entry_def)
  ultimately obtain j where "fresh_inode demo_params (abs_fs demo_sym) j"
    and "abs_fs demo_cycle = (abs_fs demo_sym)\<lparr>names := (names (abs_fs demo_sym))(''b'' \<mapsto> j),
      nodes := (nodes (abs_fs demo_sym))(j \<mapsto> ALink ''/a''), spare := spare (abs_fs demo_sym) - 1\<rparr>"
    using r by (elim sym_link_created) (auto simp: abs)
  then have "i \<noteq> j" "abs_fs demo_cycle = \<lparr>names = [''a'' \<mapsto> i, ''b'' \<mapsto> j],
      nodes = [i \<mapsto> ALink ''/b'', j \<mapsto> ALink ''/a''], handles = Map.empty, spare = 0\<rparr>"
    using abs by (auto simp: fresh_inode_def)
  then show "\<exists>i j. i \<noteq> j \<and> abs_fs demo_cycle = \<lparr>names = [''a'' \<mapsto> i, ''b'' \<mapsto> j],
      nodes = [i \<mapsto> ALink ''/b'', j \<mapsto> ALink ''/a''], handles = Map.empty, spare = 0\<rparr>"
    by blast
qed

section \<open>Consistency and refinement\<close>





text \<open>C3. \<open>tfs_open\<close> returns exactly when the symbolic links on the path lead somewhere.\<close>

theorem tfs_open_returns_iff:
  assumes "fs_inv s" and "is_cstring path"
  shows "(\<exists>res. tfs_open (Some path) mode s = Some res) \<longleftrightarrow> (\<exists>q. resolves (abs_fs s) path q)"
  using open_returns_resolves [OF _ _ assms(2)] sim_open [OF _ refl _ assms(2)] assms(1)
  by (fastforce simp: fs_inv_def)

theorem tfs_open_returns_iff_witness: "\<exists>res. tfs_open (Some ''/a'') TFS_O_TRUNC demo_open = Some res"
proof -
  obtain i where "nodes (abs_fs demo_open) = [i \<mapsto> AFile []]"
    using demo_open_ok(3) by (metis afs.select_convs(2))
  then have "resolves (abs_fs demo_open) ''/a'' ''/a''"
    using resolves_plain [of "abs_fs demo_open" "''/a''"] by (auto simp: fun_upd_def)
  then show ?thesis
    using tfs_open_returns_iff [OF demo_open_ok(1), of "''/a''" TFS_O_TRUNC] by (auto simp: is_cstring_def)
qed

lemma no_resolution:
  assumes "resolves a path q" and "path \<in> {p1, p2}"
    and "valid_pathname (Some p1)" and "names a (tl p1) = Some i" and "nodes a i = Some (ALink p2)"
    and "valid_pathname (Some p2)" and "names a (tl p2) = Some j" and "nodes a j = Some (ALink p1)"
  shows False
  using assms by (induction rule: resolves.induct) auto

text \<open>
  Two symbolic links that point to each other make \<open>tfs_open\<close> recurse for ever: nothing bounds the
  number of links it follows.
\<close>

theorem tfs_open_link_cycle_diverges:
  assumes "fs_inv s" and "is_cstring p1"
    and "valid_pathname (Some p1)" and "names (abs_fs s) (tl p1) = Some i" and "nodes (abs_fs s) i = Some (ALink p2)"
    and "valid_pathname (Some p2)" and "names (abs_fs s) (tl p2) = Some j" and "nodes (abs_fs s) j = Some (ALink p1)"
  shows "tfs_open (Some p1) mode s = None"
proof (rule ccontr)
  assume "tfs_open (Some p1) mode s \<noteq> None"
  then obtain q where "resolves (abs_fs s) p1 q"
    using open_returns_resolves [OF _ _ assms(2)] assms(1) by (fastforce simp: fs_inv_def)
  then show False
    using no_resolution [of "abs_fs s" p1 q p1 p2] assms by blast
qed

theorem tfs_open_link_cycle_diverges_witness: "fs_inv demo_cycle \<and> tfs_open (Some ''/a'') 0 demo_cycle = None"
proof -
  obtain i j where "i \<noteq> j" "abs_fs demo_cycle = \<lparr>names = [''a'' \<mapsto> i, ''b'' \<mapsto> j],
      nodes = [i \<mapsto> ALink ''/b'', j \<mapsto> ALink ''/a''], handles = Map.empty, spare = 0\<rparr>"
    using demo_cycle_ok(3) by blast
  then show ?thesis
    using tfs_open_link_cycle_diverges [OF demo_cycle_ok(1), of "''/a''" i "''/b''" j 0] demo_cycle_ok(1)
    by (simp add: is_cstring_def abs_fs_def)
qed

section \<open>Files\<close>

text \<open>A write that returns a count, on the abstract state.\<close>

lemma tfs_write_abs:
  assumes inv: "fs_inv s" and h: "open_handle (abs_fs s) h = Some (f, i, off)"
    and c: "nodes (abs_fs s) i = Some (AFile c)" and buf: "length buf < 2 ^ 63"
    and w: "tfs_write h (Some buf) (length buf) s = Inr (n, s1)" "0 \<le> n"
  defines "bs \<equiv> take (BLOCK_SIZE s - min off (length c)) buf"
  shows "fs_inv s1" and "n = int (length bs)"
    and "nodes (abs_fs s1) = (nodes (abs_fs s))(i \<mapsto> AFile (take (min off (length c)) c @ bs @ drop (min off (length c) + length bs) c))"
    and "handles (abs_fs s1) = (handles (abs_fs s))(f \<mapsto> (i, min off (length c) + length bs))"
    and "names (abs_fs s1) = names (abs_fs s)"
proof -
  have st: "client_step (fs_params s) (abs_fs s) (Write h buf) (n, []) (abs_fs s1)" and adv: "advances s s1"
    using sim_write [OF inv buf, of h] w(1) by auto
  show "fs_inv s1"
    using inv_step [OF inv adv st] .
  note W = write_step [OF st h c w(2) refl refl, folded BLOCK_SIZE_def, folded bs_def, THEN conjunct1]
    write_step [OF st h c w(2) refl refl, folded BLOCK_SIZE_def, folded bs_def, THEN conjunct2]
  show "n = int (length bs)"
    using W(1) .
  show "nodes (abs_fs s1) = (nodes (abs_fs s))(i \<mapsto> AFile (take (min off (length c)) c @ bs @ drop (min off (length c) + length bs) c))"
    "handles (abs_fs s1) = (handles (abs_fs s))(f \<mapsto> (i, min off (length c) + length bs))"
    "names (abs_fs s1) = names (abs_fs s)"
    unfolding W(2) by simp_all
qed

text \<open>
  C4. What is written through one handle is read back through another handle on the same file that
  stands at the position of the write.
\<close>

theorem tfs_write_then_read:
  assumes inv: "fs_inv s" and h: "open_handle (abs_fs s) h = Some (f, i, off)"
    and h': "open_handle (abs_fs s) h' = Some (f', i, off')" and ne: "f \<noteq> f'"
    and c: "nodes (abs_fs s) i = Some (AFile c)" and pos: "off' = min off (length c)"
    and buf: "length buf < 2 ^ 63" and w: "tfs_write h (Some buf) (length buf) s = Inr (n, s1)" "0 \<le> n"
    and rbuf: "length rbuf = nat n"
  shows "\<exists>s2. tfs_read h' (Some rbuf) (nat n) s1 = Inr (n, Some (take (nat n) buf), s2)"
proof -
  note W = tfs_write_abs [OF inv h c buf w]
  define bs where "bs = take (BLOCK_SIZE s - min off (length c)) buf"
  obtain r buf' s2 where r: "tfs_read h' (Some rbuf) (nat n) s1 = Inr (r, Some buf', s2)"
      "length buf' = length rbuf" "client_step (fs_params s1) (abs_fs s1) (Read h' (nat n)) (r, take (nat r) buf') (abs_fs s2)"
    using sim_read [OF W(1), of "nat n" rbuf h'] rbuf by auto
  have oh: "open_handle (abs_fs s1) h' = Some (f', i, off')"
    using h' ne unfolding open_handle_Some W(4) by auto
  let ?c = "take off' c @ bs @ drop (off' + length bs) c"
  have node: "nodes (abs_fs s1) i = Some (AFile ?c)"
    unfolding W(3) pos by (simp add: bs_def)
  have n: "nat n = length bs" "take (length bs) buf = bs"
    using W(2) by (simp_all add: bs_def min_def)
  have off': "off' = min off' (length ?c)" and rd: "take (nat n) (drop off' ?c) = bs"
    using pos n(1) by simp_all
  have "r = int (length bs)" "take (nat r) buf' = bs"
    using read_step [OF r(3) oh node off' rd [symmetric]] by blast+
  moreover have "n = int (length bs)"
    using W(2) by (simp add: bs_def)
  ultimately show ?thesis
    using r(1,2) rbuf n(2) by simp
qed

theorem tfs_write_then_read_witness:
  "\<exists>h h' s1 s2. tfs_write h (Some ''hello'') 5 demo_two = Inr (5, s1) \<and>
    tfs_read h' (Some ''.....'') 5 s1 = Inr (5, Some ''hello'', s2)"
proof -
  obtain i f g where ne: "f \<noteq> g" and abs: "abs_fs demo_two = \<lparr>names = [''a'' \<mapsto> i], nodes = [i \<mapsto> AFile []],
      handles = [f \<mapsto> (i, 0), g \<mapsto> (i, 0)], spare = 2\<rparr>"
    using demo_two_ok(3) by blast
  have h: "open_handle (abs_fs demo_two) (int f) = Some (f, i, 0)" "open_handle (abs_fs demo_two) (int g) = Some (g, i, 0)"
      "nodes (abs_fs demo_two) i = Some (AFile [])"
    using ne by (simp_all add: open_handle_Some abs del: abs_fs_select)
  obtain r s1 where w: "tfs_write (int f) (Some ''hello'') (length ''hello'') demo_two = Inr (r, s1)"
      "client_step demo_params (abs_fs demo_two) (Write (int f) ''hello'') (r, []) (abs_fs s1)"
    using sim_write [OF demo_two_ok(1), of "''hello''" "int f"] demo_two_ok(2) by auto
  have "0 \<le> r"
    using w(2) h by (auto elim!: client_step_WriteE simp: abs simp del: abs_fs_select)
  then have r: "r = 5"
    using write_step [OF w(2) h(1,3) _ refl refl] by (simp add: demo_params_def)
  have len: "length ''hello'' < 2 ^ 63" "length ''.....'' = nat r"
    using r by simp_all
  obtain s2 where "tfs_read (int g) (Some ''.....'') (nat r) s1 = Inr (r, Some (take (nat r) ''hello''), s2)"
    using tfs_write_then_read [OF demo_two_ok(1) h(1,2) ne h(3) _ len(1) w(1) _ len(2)] r by auto
  moreover have "length ''hello'' = 5" "nat r = 5" "take 5 ''hello'' = ''hello''"
    using r by simp_all
  ultimately show ?thesis
    using w(1) r by metis
qed

end
