(* ===== verification/File_Store.thy ===== *)
theory File_Store
  imports FS_Client
begin

text \<open>
  The file system as the server relies on it. The locale \<open>file_store\<close> is the contract: every call
  that respects \<open>call_ok\<close> and does not run into a cycle of links returns, and does to the view of the
  store what the specification says; a name in the directory leads to a node. TecnicoFS is an
  interpretation. The lemmas of the locale are about stores without symbolic links (\<open>plain\<close>), which
  is all a client gets that never creates one.
\<close>

definition plain :: "afs \<Rightarrow> bool" where
  "plain a \<longleftrightarrow> (\<forall>i t. nodes a i \<noteq> Some (ALink t))"

lemma plain_resolves: "plain a \<Longrightarrow> resolves a path q \<longleftrightarrow> q = path"
  by (rule resolves_plain) (simp add: plain_def)

locale file_store =
  fixes inv :: "'s \<Rightarrow> bool"
    and view :: "'s \<Rightarrow> afs"
    and params :: "'s \<Rightarrow> tfs_params"
    and trace :: "'s \<Rightarrow> lock_event list"
    and exec :: "tfs_call \<Rightarrow> 's \<Rightarrow> ((int \<times> mem) \<times> 's) res option"
  assumes call_returns: "inv s \<Longrightarrow> call_ok (params s) c \<Longrightarrow> resolvable (view s) c \<Longrightarrow>
      \<exists>r s'. exec c s = Some (Inr (r, s')) \<and> inv s' \<and> params s' = params s \<and>
        (\<exists>t. bracketed Link_lock t \<and> trace s' = trace s @ t) \<and> client_step (params s) (view s) c r (view s')"
    and name_bound: "inv s \<Longrightarrow> names (view s) n = Some i \<Longrightarrow>
      0 < i \<and> i < max_inode_count (params s) \<and> nodes (view s) i \<noteq> None \<and> \<not> invalid_sub_name n"
    and handle_bound: "inv s \<Longrightarrow> handles (view s) f = Some (i, off) \<Longrightarrow>
      nodes (view s) i \<noteq> None \<and> f < max_open_files_count (params s)"
    and size_bound: "inv s \<Longrightarrow> nodes (view s) i = Some (AFile bs) \<Longrightarrow> length bs \<le> block_size (params s) \<and> block_size (params s) < 2 ^ 63"
begin

text \<open>A call with its result and the new state.\<close>

definition does :: "tfs_call \<Rightarrow> 's \<Rightarrow> int \<times> mem \<Rightarrow> 's \<Rightarrow> bool" where
  "does c s r s' \<longleftrightarrow> exec c s = Some (Inr (r, s')) \<and> inv s' \<and> params s' = params s \<and>
     (\<exists>t. bracketed Link_lock t \<and> trace s' = trace s @ t)"

lemma some_result:
  assumes "inv s" and "plain (view s)" and "call_ok (params s) c"
  obtains r x s' where "does c s (r, x) s'" and "client_step (params s) (view s) c (r, x) (view s')"
proof -
  have "resolvable (view s) c"
    using assms(2) by (auto simp: resolvable_def plain_resolves)
  with assms that show thesis
    using call_returns [of s c] by (auto simp: does_def)
qed

lemma file_bound:
  assumes "inv s" and "plain (view s)" and "names (view s) n = Some i"
  obtains c where "nodes (view s) i = Some (AFile c)"
proof -
  obtain nd where nd: "nodes (view s) i = Some nd"
    using name_bound [OF assms(1,3)] by blast
  with assms(2) that show thesis
    by (cases nd) (auto simp: plain_def)
qed

lemma open_bad_path:
  assumes "inv s" and "plain (view s)" and "is_cstring q" and "\<not> valid_pathname (Some q)"
  obtains s' where "does (Open q mode) s (-1, []) s'" and "view s' = view s"
proof -
  obtain r x s' where D: "does (Open q mode) s (r, x) s'" "client_step (params s) (view s) (Open q mode) (r, x) (view s')"
    using some_result [OF assms(1,2), of "Open q mode"] assms(3) by auto
  from D(2) have "(r, x) = (-1, []) \<and> view s' = view s"
    by (cases rule: client_step_OpenE) (use assms(4) plain_resolves [OF assms(2)] in auto)
  with D(1) that show thesis by auto
qed

lemma open_missing:
  assumes "inv s" and "plain (view s)" and "is_cstring q" and "names (view s) (tl q) = None"
    and "\<not> has_flag mode TFS_O_CREAT \<or> inodes_full (params s) (view s) \<or> \<not> can_bind (params s) (view s) (tl q)"
  obtains s' where "does (Open q mode) s (-1, []) s'" and "view s' = view s"
proof -
  obtain r x s' where D: "does (Open q mode) s (r, x) s'" "client_step (params s) (view s) (Open q mode) (r, x) (view s')"
    using some_result [OF assms(1,2), of "Open q mode"] assms(3) by auto
  have full: "\<not> fresh_inode p a i" if "inodes_full p a" for p a i
    using that unfolding inodes_full_def fresh_inode_def by metis
  from D(2) have "(r, x) = (-1, []) \<and> view s' = view s"
    by (cases rule: client_step_OpenE) (use assms(4,5) plain_resolves [OF assms(2)] full in auto)
  with D(1) that show thesis by auto
qed

lemma open_attach:
  assumes "inv s" and "plain (view s)" and "is_cstring q" and "valid_pathname (Some q)"
    and "names (view s) (tl q) = Some i" and "nodes (view s) i = Some (AFile c)"
    and "\<not> has_flag mode TFS_O_TRUNC"
  obtains r s' where "does (Open q mode) s (r, []) s'"
    and "attach (params s) i (if has_flag mode TFS_O_APPEND then length c else 0) (view s) r (view s')"
proof -
  obtain r x s' where D: "does (Open q mode) s (r, x) s'" "client_step (params s) (view s) (Open q mode) (r, x) (view s')"
    using some_result [OF assms(1,2), of "Open q mode"] assms(3) by auto
  have q: "resolves (view s) q q"
    using plain_resolves [OF assms(2)] by simp
  have "x = []"
    using D(2) by (cases rule: client_step_OpenE) auto
  with D(1) show thesis
    using open_step_file [OF D(2) q assms(4-6)] assms(7) that by simp
qed

lemma open_file:
  assumes "inv s" and "plain (view s)" and "is_cstring q" and "valid_pathname (Some q)"
    and "names (view s) (tl q) = Some i" and "nodes (view s) i = Some (AFile c)"
    and "\<not> has_flag mode TFS_O_TRUNC" and "\<not> handles_full (params s) (view s)"
  obtains f s' where "does (Open q mode) s (int f, []) s'" and "f < max_open_files_count (params s)"
    and "handles (view s) f = None"
    and "view s' = (view s)\<lparr>handles := (handles (view s))(f \<mapsto> (i, if has_flag mode TFS_O_APPEND then length c else 0))\<rparr>"
  using open_attach [OF assms(1-7)] attach_room [OF _ assms(8)] by metis

lemma open_no_handle:
  assumes "inv s" and "plain (view s)" and "is_cstring q" and "valid_pathname (Some q)"
    and "names (view s) (tl q) = Some i" and "nodes (view s) i = Some (AFile c)"
    and "\<not> has_flag mode TFS_O_TRUNC" and "handles_full (params s) (view s)"
  obtains s' where "does (Open q mode) s (-1, []) s'" and "view s' = view s"
  by (rule open_attach [OF assms(1-7)]) (use assms(8) that in \<open>auto simp: attach_def handles_full_def\<close>)

lemma open_create:
  assumes "inv s" and "plain (view s)" and "is_cstring q" and "valid_pathname (Some q)"
    and "can_bind (params s) (view s) (tl q)" and "\<not> inodes_full (params s) (view s)"
    and "\<not> handles_full (params s) (view s)"
  obtains f i s' where "does (Open q TFS_O_CREAT) s (int f, []) s'" and "fresh_inode (params s) (view s) i"
    and "handles (view s) f = None"
    and "view s' = (view s)\<lparr>names := (names (view s))(tl q \<mapsto> i), nodes := (nodes (view s))(i \<mapsto> AFile []),
           handles := (handles (view s))(f \<mapsto> (i, 0))\<rparr>"
proof -
  obtain r x s' where D: "does (Open q TFS_O_CREAT) s (r, x) s'"
      "client_step (params s) (view s) (Open q TFS_O_CREAT) (r, x) (view s')"
    using some_result [OF assms(1,2), of "Open q TFS_O_CREAT"] assms(3) by auto
  have q: "resolves (view s) q q"
    using plain_resolves [OF assms(2)] by simp
  obtain i where i: "fresh_inode (params s) (view s) i" and at: "attach (params s) i 0
      ((view s)\<lparr>names := (names (view s))(tl q \<mapsto> i), nodes := (nodes (view s))(i \<mapsto> AFile [])\<rparr>) r (view s')"
    by (rule open_step_create [OF D(2) q assms(4) _ assms(5,6)]) simp_all
  have "x = []"
    using D(2) by (cases rule: client_step_OpenE) auto
  moreover obtain f where "handles (view s) f = None" "r = int f"
      "view s' = (view s)\<lparr>names := (names (view s))(tl q \<mapsto> i), nodes := (nodes (view s))(i \<mapsto> AFile []),
        handles := (handles (view s))(f \<mapsto> (i, 0))\<rparr>"
    using attach_room [OF at] assms(7) by (auto simp: handles_full_def)
  ultimately show thesis
    using D(1) i that by blast
qed

lemma close_bad:
  assumes "inv s" and "plain (view s)" and "h < 0"
  obtains s' where "does (Close h) s (-1, []) s'" and "view s' = view s"
proof -
  obtain r x s' where D: "does (Close h) s (r, x) s'" "client_step (params s) (view s) (Close h) (r, x) (view s')"
    using some_result [OF assms(1,2), of "Close h"] by auto
  from D(2) have "(r, x) = (-1, []) \<and> view s' = view s"
    by (cases rule: client_step_CloseE) (use assms(3) in \<open>auto simp: open_handle_def\<close>)
  with D(1) that show thesis by auto
qed

lemma close_handle:
  assumes "inv s" and "plain (view s)" and "handles (view s) f = Some (i, off)"
  obtains s' where "does (Close (int f)) s (0, []) s'"
    and "view s' = collect i ((view s)\<lparr>handles := (handles (view s))(f := None)\<rparr>)"
proof -
  obtain r x s' where D: "does (Close (int f)) s (r, x) s'" "client_step (params s) (view s) (Close (int f)) (r, x) (view s')"
    using some_result [OF assms(1,2), of "Close (int f)"] by auto
  have h: "open_handle (view s) (int f) = Some (f, i, off)"
    using assms(3) by (simp add: open_handle_Some)
  have "x = []"
    using D(2) by (cases rule: client_step_CloseE) auto
  with D(1) close_step [OF D(2) h] that show thesis by auto
qed

lemma unlink_name:
  assumes "inv s" and "plain (view s)" and "is_cstring q" and "valid_pathname (Some q)" and "names (view s) (tl q) = Some i"
  obtains s' where "does (Unlink q) s (0, []) s'"
    and "view s' = collect i ((view s)\<lparr>names := (names (view s))(tl q := None)\<rparr>)"
proof -
  obtain r x s' where D: "does (Unlink q) s (r, x) s'" "client_step (params s) (view s) (Unlink q) (r, x) (view s')"
    using some_result [OF assms(1,2), of "Unlink q"] assms(3) by auto
  have "x = []"
    using D(2) by (cases rule: client_step_UnlinkE) auto
  with D(1) unlink_step [OF D(2) assms(4,5)] that show thesis by auto
qed

lemma read_handle:
  assumes "inv s" and "plain (view s)" and "handles (view s) f = Some (i, off)" and "nodes (view s) i = Some (AFile c)"
    and "off \<le> length c"
  obtains s' where "does (Read (int f) n) s (int (length (take n (drop off c))), take n (drop off c)) s'"
    and "view s' = (view s)\<lparr>handles := (handles (view s))(f \<mapsto> (i, off + length (take n (drop off c))))\<rparr>"
proof -
  obtain r x s' where D: "does (Read (int f) n) s (r, x) s'" "client_step (params s) (view s) (Read (int f) n) (r, x) (view s')"
    using some_result [OF assms(1,2), of "Read (int f) n"] by auto
  have h: "open_handle (view s) (int f) = Some (f, i, off)"
    using assms(3) by (simp add: open_handle_Some)
  have off: "off = min off (length c)"
    using assms(5) by simp
  show thesis
    using read_step [OF D(2) h assms(4) off refl] D(1) that by blast
qed

lemma write_end:
  assumes "inv s" and "plain (view s)" and "handles (view s) f = Some (i, length c)" and "nodes (view s) i = Some (AFile c)"
    and "length c + length buf \<le> block_size (params s)" and "c \<noteq> [] \<or> 0 < spare (view s)" and "length buf < 2 ^ 63"
  obtains s' where "does (Write (int f) buf) s (int (length buf), []) s'"
    and "view s' = (view s)\<lparr>nodes := (nodes (view s))(i \<mapsto> AFile (c @ buf)),
      handles := (handles (view s))(f \<mapsto> (i, length c + length buf)),
      spare := spare (view s) - (if c = [] \<and> buf \<noteq> [] then 1 else 0)\<rparr>"
proof -
  obtain r x s' where D: "does (Write (int f) buf) s (r, x) s'" "client_step (params s) (view s) (Write (int f) buf) (r, x) (view s')"
    using some_result [OF assms(1,2), of "Write (int f) buf"] assms(7) by auto
  have h: "open_handle (view s) (int f) = Some (f, i, length c)"
    using assms(3) by (simp add: open_handle_Some)
  have "0 \<le> r" and x: "x = []"
    using D(2) h assms(4,6) by (auto elim!: client_step_WriteE)
  moreover have "take (block_size (params s) - length c) buf = buf"
    using assms(5) by simp
  ultimately show thesis
    using write_step [OF D(2) h assms(4) _ refl refl] D(1) that x by auto
qed

end

section \<open>TecnicoFS keeps the contract\<close>

interpretation tfs: file_store fs_inv abs_fs fs_params lock_trace exec_call
proof
  fix s c
  assume "fs_inv s" and "call_ok (fs_params s) c" and "resolvable (abs_fs s) c"
  then show "\<exists>r s'. exec_call c s = Some (Inr (r, s')) \<and> fs_inv s' \<and> fs_params s' = fs_params s \<and>
      (\<exists>t. bracketed Link_lock t \<and> lock_trace s' = lock_trace s @ t) \<and> client_step (fs_params s) (abs_fs s) c r (abs_fs s')"
    using exec_call_sim [of s c] inv_step [of s] unfolding advances_def by metis
next
  fix s n i
  assume inv: "fs_inv s" and n: "names (abs_fs s) n = Some i"
  then have wf: "fs_wf s" and n: "names_of (dents s) n = Some i"
    by (simp_all add: fs_inv_def abs_fs_def)
  show "0 < i \<and> i < max_inode_count (fs_params s) \<and> nodes (abs_fs s) i \<noteq> None \<and> \<not> invalid_sub_name n"
    using bound_facts [OF wf n] names_valid [OF wf n] by (simp add: abs_fs_def nodes_of_def)
next
  fix s f i off
  assume "fs_inv s" and "handles (abs_fs s) f = Some (i, off)"
  then show "nodes (abs_fs s) i \<noteq> None \<and> f < max_open_files_count (fs_params s)"
    using wfx_handle [of "{}" s f] tables_okD [OF wfx_tables, of "{}" s]
    by (auto simp: fs_inv_def live_handle_def abs_fs_def handles_of_def nodes_of_def handle_inode_def handle_ok_def split: if_splits)
next
  fix s i c
  assume "fs_inv s" and "nodes (abs_fs s) i = Some (AFile c)"
  then show "length c \<le> block_size (fs_params s) \<and> block_size (fs_params s) < 2 ^ 63"
    using tables_okD [OF wfx_tables, of "{}" s] content_length [of "{}" s i] wfx_node [of "{}" s i]
    by (auto simp: fs_inv_def abs_fs_def nodes_of_def node_view_def node_ok_def split: if_splits)
qed

end
