(* ===== verification/FS_Results.thy ===== *)
theory FS_Results
  imports FS_Props File_Store
begin

text \<open>
  More of what a client of TecnicoFS can rely on: the range of every result, what \<^verbatim>\<open>tfs_copy_from_external_fs\<close> copies;
  and what it cannot: the block of a symbolic link never comes back.
\<close>

declare abs_fs_select [simp del]

section \<open>The range of results\<close>

text \<open>
  What a caller may expect of the value \<open>r\<close> of a call, declared \<^verbatim>\<open>int\<close> or \<^verbatim>\<open>ssize_t\<close> in
  \<^verbatim>\<open>operations.h\<close>, and of the bytes \<open>x\<close> that a read delivers.
\<close>

fun result_ok :: "tfs_params \<Rightarrow> tfs_call \<Rightarrow> int \<Rightarrow> mem \<Rightarrow> bool" where
  "result_ok p (Open path mode) r x \<longleftrightarrow> x = [] \<and> (r = -1 \<or> 0 \<le> r \<and> r < int (max_open_files_count p))"
| "result_ok p (Read h n) r x \<longleftrightarrow> r = -1 \<and> x = [] \<or> r = int (length x) \<and> length x \<le> n \<and> length x \<le> block_size p"
| "result_ok p (Write h buf) r x \<longleftrightarrow> x = [] \<and> (r = -1 \<or> 0 \<le> r \<and> r \<le> int (length buf) \<and> r \<le> int (block_size p))"
| "result_ok p _ r x \<longleftrightarrow> x = [] \<and> (r = -1 \<or> r = 0)"

lemma client_step_result:
  assumes "client_step p a c (r, x) a'" and "\<And>i bs. nodes a i = Some (AFile bs) \<Longrightarrow> length bs \<le> block_size p"
  shows "result_ok p c r x"
  using assms(1)
proof (cases rule: client_step.cases)
  case step_read
  then show ?thesis
    using assms(2) by (fastforce simp: min_def)
qed (auto simp: attach_def)

lemma open_files_int: "fs_inv s \<Longrightarrow> max_open_files_count (fs_params s) < 2 ^ 31 \<and> block_size (fs_params s) < 2 ^ 63"
  using tables_okD [OF wfx_tables, of "{}" s] by (auto simp: fs_inv_def)

text \<open>
  C12. Every call of a client returns a value in the range its declaration promises: \<open>tfs_open\<close> a handle of the table or -1, the
  calls on names and \<open>tfs_close\<close> 0 or -1, \<open>tfs_read\<close> and \<open>tfs_write\<close> -1 or a number of bytes that is at most what
  was asked for and at most a block. So no result is cut when it is returned as an \<^verbatim>\<open>int\<close> or a
  \<^verbatim>\<open>ssize_t\<close>.
\<close>

theorem tfs_results_in_range:
  assumes "fs_inv s" and "call_ok (fs_params s) c" and "exec_call c s = Some (Inr ((r, x), s'))"
  shows "result_ok (fs_params s) c r x \<and> (case c of Read h n \<Rightarrow> r < 2 ^ 63 | Write h buf \<Rightarrow> r < 2 ^ 63 | _ \<Rightarrow> r < 2 ^ 31) \<and> -1 \<le> r"
proof -
  have "result_ok (fs_params s) c r x"
    by (rule client_step_result [OF exec_call_step(2) [OF assms]]) (use tfs.size_bound [OF assms(1)] in blast)
  then show ?thesis
    using open_files_int [OF assms(1)] by (cases c) auto
qed

theorem tfs_results_in_range_witness:
  "\<exists>r s'. exec_call (Write 0 ''hello'') demo_open = Some (Inr ((r, []), s')) \<and> -1 \<le> r \<and> r \<le> 5"
proof -
  have ok: "call_ok (fs_params demo_open) (Write 0 ''hello'')" "resolvable (abs_fs demo_open) (Write 0 ''hello'')"
    by (simp_all add: resolvable_def)
  obtain r x where E: "exec_call (Write 0 ''hello'') demo_open = Some (Inr ((r, x), after (Write 0 ''hello'') demo_open))"
    using after_ok(3) [OF demo_open_ok(1) ok] by auto
  from tfs_results_in_range [OF demo_open_ok(1) ok(1) E] E show ?thesis
    by auto
qed

section \<open>Symbolic links\<close>

lemma sym_link_step:
  assumes "client_step p a (Sym_link t l) r a'" and "valid_pathname (Some t)" and "valid_pathname (Some l)" and "t \<noteq> l"
    and "can_bind p a (tl l)" and "\<not> inodes_full p a" and "0 < spare a"
  obtains i where "r = (0, [])" and "fresh_inode p a i"
    and "a' = a\<lparr>names := (names a)(tl l \<mapsto> i), nodes := (nodes a)(i \<mapsto> ALink t), spare := spare a - 1\<rparr>"
  using assms(1) by (cases rule: client_step.cases) (use assms(2-) that in auto)

text \<open>Every name and handle leads to a node, so a fresh inode is not referred to.\<close>

lemma fresh_unreferenced:
  assumes "fs_inv s" and "fresh_inode (fs_params s) (abs_fs s) i"
  shows "unreferenced (abs_fs s) i"
  using tfs.name_bound [OF assms(1)] tfs.handle_bound [OF assms(1)] assms(2)
  by (fastforce simp: unreferenced_def fresh_inode_def ran_def)

lemma sym_link_round:
  assumes inv: "fs_inv s" and t: "is_cstring t" "valid_pathname (Some t)" "length t < block_size (fs_params s)"
    and l: "is_cstring l" "valid_pathname (Some l)" "t \<noteq> l"
    and room: "can_bind (fs_params s) (abs_fs s) (tl l)" "\<not> inodes_full (fs_params s) (abs_fs s)" "0 < spare (abs_fs s)"
  obtains s1 s2 where "exec_call (Sym_link t l) s = Some (Inr ((0, []), s1))" and "exec_call (Unlink l) s1 = Some (Inr ((0, []), s2))"
    and "fs_inv s2" and "fs_params s2 = fs_params s" and "fs_params s1 = fs_params s" and "abs_fs s2 = (abs_fs s)\<lparr>spare := spare (abs_fs s) - 1\<rparr>"
proof -
  let ?a = "abs_fs s"
  have ok: "call_ok (fs_params s) (Sym_link t l)" "resolvable (abs_fs s) (Sym_link t l)"
    using t l by (simp_all add: resolvable_def)
  obtain r s1 where S: "exec_call (Sym_link t l) s = Some (Inr (r, s1))" "fs_inv s1" "fs_params s1 = fs_params s"
      "client_step (fs_params s) ?a (Sym_link t l) r (abs_fs s1)"
    using tfs.call_returns [OF inv ok] by metis
  from S(4) t(2) l(2,3) room obtain i where i: "r = (0, [])" "fresh_inode (fs_params s) ?a i"
      "abs_fs s1 = ?a\<lparr>names := (names ?a)(tl l \<mapsto> i), nodes := (nodes ?a)(i \<mapsto> ALink t), spare := spare ?a - 1\<rparr>"
    by (rule sym_link_step)
  have ok1: "call_ok (fs_params s1) (Unlink l)" "resolvable (abs_fs s1) (Unlink l)"
    using l by (simp_all add: resolvable_def)
  obtain r' x' s2 where U: "exec_call (Unlink l) s1 = Some (Inr ((r', x'), s2))" "fs_inv s2" "fs_params s2 = fs_params s1"
      "client_step (fs_params s1) (abs_fs s1) (Unlink l) (r', x') (abs_fs s2)"
    using tfs.call_returns [OF S(2) ok1] by (metis surj_pair)
  have "x' = []"
    using U(4) by (cases rule: client_step_UnlinkE) auto
  moreover have u: "r' = 0 \<and> abs_fs s2 = collect i ((abs_fs s1)\<lparr>names := (names (abs_fs s1))(tl l := None)\<rparr>)"
    by (rule unlink_step [OF U(4) l(2)]) (simp add: i(3))
  moreover have "abs_fs s2 = ?a\<lparr>spare := spare ?a - 1\<rparr>"
  proof -
    have gone: "(names ?a)(tl l := None) = names ?a" "(nodes ?a)(i := None) = nodes ?a"
      using room(1) i(2) by (auto simp: can_bind_def fresh_inode_def)
    have "(abs_fs s1)\<lparr>names := (names (abs_fs s1))(tl l := None)\<rparr> = ?a\<lparr>nodes := (nodes ?a)(i \<mapsto> ALink t), spare := spare ?a - 1\<rparr>"
      by (simp add: i(3) gone)
    moreover have "unreferenced (?a\<lparr>nodes := n, spare := k\<rparr>) i" for n k
      using fresh_unreferenced [OF inv i(2)] by simp
    ultimately show ?thesis
      using u by (simp add: collect_def blocks_held_def gone)
  qed
  ultimately show thesis
    using S(1,3) U(1-3) i(1) by (intro that [of s1 s2]) simp_all
qed

lemma concat_replicate_snoc: "concat (replicate (Suc k) xs) = concat (replicate k xs) @ xs"
  by (induction k) simp_all

text \<open>
  C39. Symbolic links use up the disk: their data block is not freed when they are removed, since \<open>inode_delete\<close> frees a block
  only when the size of the file is positive, and the size of a symbolic link stays 0. A client that
  creates a symbolic link and removes it again, as often as there are free blocks, has them all
  gone, and the file system is otherwise as it was.
\<close>

theorem sym_links_exhaust_blocks:
  assumes "fs_inv s" and "is_cstring t" and "valid_pathname (Some t)" and "length t < block_size (fs_params s)"
    and "is_cstring l" and "valid_pathname (Some l)" and "t \<noteq> l"
    and "can_bind (fs_params s) (abs_fs s) (tl l)" and "\<not> inodes_full (fs_params s) (abs_fs s)"
  shows "\<exists>s'. fs_run s (concat (replicate (spare (abs_fs s)) [(Sym_link t l, 0, []), (Unlink l, 0, [])])) s' \<and>
    abs_fs s' = (abs_fs s)\<lparr>spare := 0\<rparr>"
proof -
  let ?cs = "[(Sym_link t l, 0, []), (Unlink l, 0, [])] :: (tfs_call \<times> int \<times> mem) list"
  have "k \<le> spare (abs_fs s) \<Longrightarrow> \<exists>s'. fs_run s (concat (replicate k ?cs)) s' \<and> fs_inv s' \<and> fs_params s' = fs_params s \<and>
      abs_fs s' = (abs_fs s)\<lparr>spare := spare (abs_fs s) - k\<rparr>" for k
  proof (induction k)
    case 0
    then show ?case
      using assms(1) by (auto intro: fs_run_nil)
  next
    case (Suc k)
    then obtain s0 where R: "fs_run s (concat (replicate k ?cs)) s0" "fs_inv s0" "fs_params s0 = fs_params s"
        "abs_fs s0 = (abs_fs s)\<lparr>spare := spare (abs_fs s) - k\<rparr>"
      by auto
    have same: "can_bind (fs_params s0) (abs_fs s0) (tl l)" "\<not> inodes_full (fs_params s0) (abs_fs s0)" "0 < spare (abs_fs s0)"
      using assms(8,9) Suc.prems by (simp_all add: R(3,4) can_bind_def dir_full_def inodes_full_def)
    have "length t < block_size (fs_params s0)"
      using assms(4) R(3) by simp
    from R(2) assms(2,3) this assms(5-7) same obtain s1 s2 where L: "exec_call (Sym_link t l) s0 = Some (Inr ((0, []), s1))"
        "exec_call (Unlink l) s1 = Some (Inr ((0, []), s2))" "fs_inv s2" "fs_params s2 = fs_params s0" "fs_params s1 = fs_params s0"
        "abs_fs s2 = (abs_fs s0)\<lparr>spare := spare (abs_fs s0) - 1\<rparr>"
      by (rule sym_link_round)
    have "fs_run s ((concat (replicate k ?cs) @ [(Sym_link t l, 0, [])]) @ [(Unlink l, 0, [])]) s2"
      by (intro fs_run_call [OF fs_run_call [OF R(1) _ L(1)] _ L(2)]) (use assms L(5) R(3) in simp_all)
    moreover have "concat (replicate (Suc k) ?cs) = (concat (replicate k ?cs) @ [(Sym_link t l, 0, [])]) @ [(Unlink l, 0, [])]"
      by (simp only: concat_replicate_snoc append_assoc append.simps)
    ultimately have "fs_run s (concat (replicate (Suc k) ?cs)) s2"
      by (simp only:)
    moreover have "abs_fs s2 = (abs_fs s)\<lparr>spare := spare (abs_fs s) - Suc k\<rparr>"
      by (simp add: L(6) R(4))
    ultimately show ?case
      using L(3,4) R(3) by metis
  qed
  from this [of "spare (abs_fs s)"] show ?thesis
    by auto
qed

theorem sym_links_exhaust_blocks_witness:
  "\<exists>s'. fs_run demo_fs [(Sym_link ''/x'' ''/y'', 0, []), (Unlink ''/y'', 0, []), (Sym_link ''/x'' ''/y'', 0, []), (Unlink ''/y'', 0, [])] s' \<and>
    abs_fs s' = empty_afs 0"
proof -
  have "can_bind demo_params (empty_afs 2) (tl ''/y'')" "\<not> inodes_full demo_params (empty_afs 2)"
    by (auto simp: can_bind_def invalid_sub_name_def MAX_FILE_NAME_def dir_full_def sizeof_dir_entry_def inodes_full_def demo_params_def intro: exI [of _ 1])
  with sym_links_exhaust_blocks [OF demo_fs_ok(2), of "''/x''" "''/y''"] show ?thesis
    by (simp add: demo_fs_ok(3,4) is_cstring_def demo_params_def numeral_2_eq_2)
qed

section \<open>Copying a file in\<close>

lemma copy_flags [simp]: "has_flag (TFS_O_CREAT OR TFS_O_TRUNC) TFS_O_CREAT" "has_flag (TFS_O_CREAT OR TFS_O_TRUNC) TFS_O_TRUNC"
    "\<not> has_flag (TFS_O_CREAT OR TFS_O_TRUNC) TFS_O_APPEND"
  by (simp_all add: has_flag_def TFS_O_CREAT_def TFS_O_TRUNC_def TFS_O_APPEND_def)

lemma fs_calls_do:
  "tfs.does (Open q mode) s (r, x) s' \<Longrightarrow> tfs_open (Some q) mode s = Some (Inr (r, s'))"
  "tfs.does (Write h buf) s (r, x) s' \<Longrightarrow> tfs_write h (Some buf) (length buf) s = Inr (r, s')"
  "tfs.does (Close h) s (r, x) s' \<Longrightarrow> tfs_close h s = Inr (r, s')"
  unfolding tfs.does_def exec_call_def by (auto simp: bindR_eq_Inr split: prod.splits)

lemma write_nonneg:
  assumes "client_step p a (Write h buf) (r, x) a'" and "open_handle a h = Some (f, i, off)" and "nodes a i = Some (AFile c)" and "c \<noteq> []"
  shows "0 \<le> r"
  using assms(1)
proof (cases rule: client_step.cases)
  case step_write_bad
  with assms(2) show ?thesis by simp
next
  case step_write_no_space
  with assms(2-4) show ?thesis by simp
qed simp_all

text \<open>What a copy leaves in the destination \<open>i\<close>, which is open as \<open>f\<close> and empty: as much as fits in a block.\<close>

lemma copy_loop_content:
  assumes inv: "fs_inv s" "plain (abs_fs s)" and f: "handles (abs_fs s) f = Some (i, 0)" and i: "nodes (abs_fs s) i = Some (AFile [])"
    and room: "rest = [] \<or> 0 < spare (abs_fs s)"
  obtains s' where "copy_loop (int f) rest s = Inr (length rest \<le> block_size (fs_params s), s')" and "fs_inv s'" and "plain (abs_fs s')"
    and "names (abs_fs s') = names (abs_fs s)" and "nodes (abs_fs s') = (nodes (abs_fs s))(i \<mapsto> AFile (take (block_size (fs_params s)) rest))"
    and "handles (abs_fs s') = (handles (abs_fs s))(f \<mapsto> (i, length (take (block_size (fs_params s)) rest)))"
proof (cases "rest = []")
  case True
  then show thesis
    using inv f i by (intro that [of s]) (simp_all add: copy_loop.simps fun_upd_idem)
next
  case False
  let ?a = "abs_fs s" and ?n = "block_size (fs_params s)"
  let ?bs = "take ?n rest"
  have n: "0 < ?n" "?n < 2 ^ 63" "state_block_size s = ?n"
    using tables_okD(12,13) [OF wfx_tables, of "{}" s] inv(1) by (simp_all add: fs_inv_def state_block_size_def BLOCK_SIZE_def)
  obtain s1 where W: "tfs.does (Write (int f) ?bs) s (int (length ?bs), []) s1"
      "abs_fs s1 = ?a\<lparr>nodes := (nodes ?a)(i \<mapsto> AFile ([] @ ?bs)), handles := (handles ?a)(f \<mapsto> (i, length [] + length ?bs)),
        spare := spare ?a - (if [] = [] \<and> ?bs \<noteq> [] then 1 else 0)\<rparr>"
    by (rule tfs.write_end [of s f i "[]" ?bs]) (use inv f i room False n in simp_all)
  have s1: "fs_inv s1" "fs_params s1 = fs_params s" "plain (abs_fs s1)"
    using W inv(2) by (auto simp: tfs.does_def plain_def)
  have step: "copy_loop (int f) rest s = copy_loop (int f) (drop (length ?bs) rest) s1"
    using fs_calls_do(2) [OF W(1)] n False by (simp add: copy_loop.simps [of _ rest] Let_def)
  have w: "names (abs_fs s1) = names ?a" "nodes (abs_fs s1) = (nodes ?a)(i \<mapsto> AFile ?bs)" "handles (abs_fs s1) = (handles ?a)(f \<mapsto> (i, length ?bs))"
    unfolding W(2) by simp_all
  show thesis
  proof (cases "length rest \<le> ?n")
    case True
    then have "copy_loop (int f) rest s = Inr (length rest \<le> ?n, s1)"
      by (simp add: step copy_loop.simps [of _ "[]"])
    then show thesis
      using s1(1,3) w by (rule that)
  next
    case False
    let ?cs = "take ?n (drop ?n rest)"
    have full: "length ?bs = ?n" "?cs \<noteq> []"
      using False n by simp_all
    have h: "open_handle (abs_fs s1) (int f) = Some (f, i, ?n)" "nodes (abs_fs s1) i = Some (AFile ?bs)"
      using w full(1) by (simp_all add: open_handle_Some)
    have "call_ok (fs_params s1) (Write (int f) ?cs)"
      using n(2) by (simp add: min_def)
    then obtain r x s2 where D: "tfs.does (Write (int f) ?cs) s1 (r, x) s2" "client_step (fs_params s1) (abs_fs s1) (Write (int f) ?cs) (r, x) (abs_fs s2)"
      using tfs.some_result [OF s1(1,3)] by blast
    have "?bs \<noteq> []"
      using full(1) n(1) by force
    with write_nonneg [OF D(2) h] have "0 \<le> r"
      by simp
    have same: "(nodes (abs_fs s1))(i \<mapsto> AFile ?bs) = nodes (abs_fs s1)" "(handles (abs_fs s1))(f \<mapsto> (i, ?n)) = handles (abs_fs s1)"
      using h(2) w full(1) by (simp_all add: fun_upd_idem)
    have "r = 0 \<and> abs_fs s2 = abs_fs s1"
      using write_step [OF D(2) h \<open>0 \<le> r\<close> refl refl] full(1) by (simp add: s1(2) same)
    then have "copy_loop (int f) (drop ?n rest) s1 = Inr (False, s2)"
      using fs_calls_do(2) [OF D(1)] full n s1(2) by (simp add: copy_loop.simps [of _ "drop ?n rest"] Let_def state_block_size_def BLOCK_SIZE_def)
    then have "copy_loop (int f) rest s = Inr (length rest \<le> ?n, s2)"
      using step full(1) False by simp
    moreover have "fs_inv s2"
      using D(1) by (simp add: tfs.does_def)
    ultimately show thesis
      using s1(3) w \<open>r = 0 \<and> abs_fs s2 = abs_fs s1\<close> by (intro that [of s2]) (simp_all only:)
  qed
qed

text \<open>The destination when the copy starts: it exists, or it can be created, and there is a block for it.\<close>

definition copy_dest_ok :: "fs_state \<Rightarrow> string \<Rightarrow> mem \<Rightarrow> bool" where
  "copy_dest_ok s q bs \<longleftrightarrow>
     (let a = abs_fs s in
      case names a (tl q) of
        Some i \<Rightarrow> bs = [] \<or> 0 < spare a \<or> nodes a i \<noteq> Some (AFile [])
      | None \<Rightarrow> can_bind (fs_params s) a (tl q) \<and> \<not> inodes_full (fs_params s) a \<and> (bs = [] \<or> 0 < spare a))"

lemma copy_open:
  assumes inv: "fs_inv s" "plain (abs_fs s)" and q: "is_cstring q" "valid_pathname (Some q)"
    and dest: "copy_dest_ok s q bs" and room: "\<not> handles_full (fs_params s) (abs_fs s)"
  obtains f i s' where "tfs.does (Open q (TFS_O_CREAT OR TFS_O_TRUNC)) s (int f, []) s'" and "plain (abs_fs s')"
    and "handles (abs_fs s) f = None" and "handles (abs_fs s') = (handles (abs_fs s))(f \<mapsto> (i, 0))"
    and "names (abs_fs s') = (names (abs_fs s))(tl q \<mapsto> i)" and "nodes (abs_fs s') = (nodes (abs_fs s))(i \<mapsto> AFile [])"
    and "bs = [] \<or> 0 < spare (abs_fs s')" and "names (abs_fs s) (tl q) = Some i \<or> names (abs_fs s) (tl q) = None \<and> nodes (abs_fs s) i = None"
proof -
  let ?a = "abs_fs s" and ?m = "TFS_O_CREAT OR TFS_O_TRUNC"
  obtain r x s' where D: "tfs.does (Open q ?m) s (r, x) s'" "client_step (fs_params s) ?a (Open q ?m) (r, x) (abs_fs s')"
    using tfs.some_result [OF inv, of "Open q ?m"] q by auto
  have here: "resolves ?a q q"
    using plain_resolves [OF inv(2)] by simp
  have x: "x = []"
    using D(2) by (cases rule: client_step_OpenE) auto
  show thesis
  proof (cases "names ?a (tl q)")
    case (Some i)
    obtain c where c: "nodes ?a i = Some (AFile c)"
      by (rule tfs.file_bound [OF inv Some])
    have at: "attach (fs_params s) i 0 (truncate_node i ?a) r (abs_fs s')"
      using open_step_file [OF D(2) here q(2) Some c] by simp
    have "\<not> handles_full (fs_params s) (truncate_node i ?a)"
      using room by (simp add: handles_full_def truncate_node_def)
    from attach_room [OF at this] obtain f where f: "handles ?a f = None" "r = int f"
        "abs_fs s' = (truncate_node i ?a)\<lparr>handles := (handles ?a)(f \<mapsto> (i, 0))\<rparr>"
      by (auto simp: truncate_node_def)
    show thesis
      by (rule that [of f s' i]) (use D(1) x f Some c inv(2) dest in
        \<open>auto simp: truncate_node_def plain_def copy_dest_ok_def blocks_held_def fun_upd_idem\<close>)
  next
    case None
    then have ok: "can_bind (fs_params s) ?a (tl q)" "\<not> inodes_full (fs_params s) ?a" "bs = [] \<or> 0 < spare ?a"
      using dest by (simp_all add: copy_dest_ok_def Let_def)
    obtain i where i: "fresh_inode (fs_params s) ?a i"
        "attach (fs_params s) i 0 (?a\<lparr>names := (names ?a)(tl q \<mapsto> i), nodes := (nodes ?a)(i \<mapsto> AFile [])\<rparr>) r (abs_fs s')"
      by (rule open_step_create [OF D(2) here q(2) _ ok(1,2)]) simp_all
    from attach_room [OF i(2)] room obtain f where f: "handles ?a f = None" "r = int f"
        "abs_fs s' = ?a\<lparr>names := (names ?a)(tl q \<mapsto> i), nodes := (nodes ?a)(i \<mapsto> AFile []), handles := (handles ?a)(f \<mapsto> (i, 0))\<rparr>"
      by (auto simp: handles_full_def)
    show thesis
      by (rule that [of f s' i]) (use D(1) x f None i(1) ok(3) inv(2) in \<open>auto simp: plain_def fresh_inode_def\<close>)
  qed
qed

text \<open>
  C10. A copy from the external file system puts the bytes of the source into the destination, as many as fit in a block,
  whether the destination existed (with what content ever) or is created; no other file, no other name and
  no handle changes. It returns 0 exactly when the whole source fits and could be closed, and -1
  otherwise.
\<close>

theorem tfs_copy_copies:
  assumes "fs_inv s" and "plain (abs_fs s)" and "is_cstring q" and "valid_pathname (Some q)"
    and "ext src = Some file" and "copy_dest_ok s q (ext_bytes file)" and "\<not> handles_full (fs_params s) (abs_fs s)"
  shows "\<exists>s' i. tfs_copy_from_external_fs ext (Some src) (Some q) s =
      Some (Inr (if length (ext_bytes file) \<le> block_size (fs_params s) \<and> fclose_ok file then 0 else -1, s')) \<and> fs_inv s' \<and>
    names (abs_fs s') = (names (abs_fs s))(tl q \<mapsto> i) \<and>
    nodes (abs_fs s') = (nodes (abs_fs s))(i \<mapsto> AFile (take (block_size (fs_params s)) (ext_bytes file))) \<and>
    handles (abs_fs s') = handles (abs_fs s) \<and>
    (names (abs_fs s) (tl q) = Some i \<or> names (abs_fs s) (tl q) = None \<and> nodes (abs_fs s) i = None)"
proof -
  obtain f i s1 where O: "tfs.does (Open q (TFS_O_CREAT OR TFS_O_TRUNC)) s (int f, []) s1" "plain (abs_fs s1)"
      "handles (abs_fs s) f = None" "handles (abs_fs s1) = (handles (abs_fs s))(f \<mapsto> (i, 0))"
      "names (abs_fs s1) = (names (abs_fs s))(tl q \<mapsto> i)" "nodes (abs_fs s1) = (nodes (abs_fs s))(i \<mapsto> AFile [])"
      "ext_bytes file = [] \<or> 0 < spare (abs_fs s1)" "names (abs_fs s) (tl q) = Some i \<or> names (abs_fs s) (tl q) = None \<and> nodes (abs_fs s) i = None"
    by (rule copy_open [OF assms(1-4,6,7)])
  then have s1: "fs_inv s1" "fs_params s1 = fs_params s"
    by (simp_all add: tfs.does_def)
  obtain s2 where L: "copy_loop (int f) (ext_bytes file) s1 = Inr (length (ext_bytes file) \<le> block_size (fs_params s), s2)" "fs_inv s2" "plain (abs_fs s2)"
      "names (abs_fs s2) = names (abs_fs s1)" "nodes (abs_fs s2) = (nodes (abs_fs s1))(i \<mapsto> AFile (take (block_size (fs_params s)) (ext_bytes file)))"
      "handles (abs_fs s2) = (handles (abs_fs s1))(f \<mapsto> (i, length (take (block_size (fs_params s)) (ext_bytes file))))"
    by (rule copy_loop_content [of s1 f i "ext_bytes file", OF s1(1) O(2) _ _ O(7)]) (use O(4,6) s1(2) in simp_all)
  obtain s3 where C: "tfs.does (Close (int f)) s2 (0, []) s3" "abs_fs s3 = collect i ((abs_fs s2)\<lparr>handles := (handles (abs_fs s2))(f := None)\<rparr>)"
    by (rule tfs.close_handle [of s2 f i "length (take (block_size (fs_params s)) (ext_bytes file))", OF L(2,3)]) (use L(6) in simp_all)
  have named: "\<not> unreferenced ((abs_fs s2)\<lparr>handles := h\<rparr>) i" for h
    using L(4) O(5) by (auto simp: unreferenced_def ran_def)
  have "tfs_copy_from_external_fs ext (Some src) (Some q) s =
      Some (Inr (if length (ext_bytes file) \<le> block_size (fs_params s) \<and> fclose_ok file then 0 else -1, s3))"
    using assms(4,5) fs_calls_do(1) [OF O(1)] fs_calls_do(3) [OF C(1)] L(1) by (simp add: tfs_copy_from_external_fs_def)
  moreover have "fs_inv s3"
    using C(1) by (simp add: tfs.does_def)
  moreover have "handles (abs_fs s3) = handles (abs_fs s)"
    using C(2) named L(6) O(3,4) by (simp add: collect_def fun_upd_idem)
  ultimately show ?thesis
    using C(2) named L(4,5) O(5,6,8) by (intro exI [of _ s3] exI [of _ i]) (simp add: collect_def)
qed

theorem tfs_copy_copies_witness:
  "\<exists>s' i. tfs_copy_from_external_fs (\<lambda>_. Some \<lparr>ext_bytes = ''hello'', fclose_ok = True\<rparr>) (Some ''in'') (Some ''/b'') demo_fs = Some (Inr (0, s')) \<and>
    names (abs_fs s') = [''b'' \<mapsto> i] \<and> nodes (abs_fs s') = [i \<mapsto> AFile ''hello'']"
proof -
  have "plain (empty_afs 2)" "\<not> handles_full demo_params (empty_afs 2)" "\<not> inodes_full demo_params (empty_afs 2)"
      "can_bind demo_params (empty_afs 2) ''b''"
    by (auto simp: plain_def handles_full_def can_bind_def invalid_sub_name_def MAX_FILE_NAME_def dir_full_def sizeof_dir_entry_def
        inodes_full_def demo_params_def intro: exI [of _ 1])
  with tfs_copy_copies [OF demo_fs_ok(2), of "''/b''" "\<lambda>_. Some \<lparr>ext_bytes = ''hello'', fclose_ok = True\<rparr>" "''in''"]
  show ?thesis
    by (auto simp: demo_fs_ok(3,4) is_cstring_def copy_dest_ok_def demo_params_def)
qed

section \<open>Removing an open file\<close>

text \<open>
  C11. A file that is removed while it is open stays readable through the handle, with its content unchanged, although
  its name is gone; when the handle is closed the file goes away and its block is free again.
\<close>

theorem removed_file_stays_readable:
  assumes "fs_inv s" and "plain (abs_fs s)" and "is_cstring q" and "valid_pathname (Some q)"
    and "names (abs_fs s) (tl q) = Some i" and "nodes (abs_fs s) i = Some (AFile c)"
    and "handles (abs_fs s) f = Some (i, off)" and "off \<le> length c"
    and "\<And>n. names (abs_fs s) n = Some i \<Longrightarrow> n = tl q" and "\<And>g k. handles (abs_fs s) g = Some (i, k) \<Longrightarrow> g = f"
  shows "\<exists>s1 s2 s3. exec_call (Unlink q) s = Some (Inr ((0, []), s1)) \<and>
    exec_call (Read (int f) n) s1 = Some (Inr ((int (length (take n (drop off c))), take n (drop off c)), s2)) \<and>
    exec_call (Close (int f)) s2 = Some (Inr ((0, []), s3)) \<and>
    names (abs_fs s3) = (names (abs_fs s))(tl q := None) \<and> nodes (abs_fs s3) = (nodes (abs_fs s))(i := None) \<and>
    handles (abs_fs s3) = (handles (abs_fs s))(f := None) \<and> spare (abs_fs s3) = spare (abs_fs s) + (if c = [] then 0 else 1)"
proof -
  let ?a = "abs_fs s" and ?bs = "take n (drop off c)"
  obtain s1 where U: "tfs.does (Unlink q) s (0, []) s1" "abs_fs s1 = collect i (?a\<lparr>names := (names ?a)(tl q := None)\<rparr>)"
    by (rule tfs.unlink_name [OF assms(1-5)])
  have s1: "abs_fs s1 = ?a\<lparr>names := (names ?a)(tl q := None)\<rparr>" "fs_inv s1" "plain (abs_fs s1)"
    using U assms(2,7) by (auto simp: collect_def unreferenced_def tfs.does_def plain_def)
  obtain s2 where R: "tfs.does (Read (int f) n) s1 (int (length ?bs), ?bs) s2"
      "abs_fs s2 = (abs_fs s1)\<lparr>handles := (handles (abs_fs s1))(f \<mapsto> (i, off + length ?bs))\<rparr>"
    by (rule tfs.read_handle [of s1 f i off c n]) (use s1 assms(6-8) in simp_all)
  have s2: "fs_inv s2" "plain (abs_fs s2)"
    using R s1(3) by (auto simp: tfs.does_def plain_def)
  obtain s3 where C: "tfs.does (Close (int f)) s2 (0, []) s3" "abs_fs s3 = collect i ((abs_fs s2)\<lparr>handles := (handles (abs_fs s2))(f := None)\<rparr>)"
    by (rule tfs.close_handle [of s2 f i "off + length ?bs", OF s2]) (use R(2) in simp_all)
  have "unreferenced ((abs_fs s2)\<lparr>handles := (handles (abs_fs s2))(f := None)\<rparr>) i"
    using assms(9,10) R(2) s1(1) by (auto simp: unreferenced_def ran_def)
  then have "names (abs_fs s3) = (names ?a)(tl q := None)" "nodes (abs_fs s3) = (nodes ?a)(i := None)"
      "handles (abs_fs s3) = (handles ?a)(f := None)" "spare (abs_fs s3) = spare ?a + (if c = [] then 0 else 1)"
    using C(2) R(2) s1(1) assms(6) by (simp_all add: collect_def blocks_held_def)
  with U(1) R(1) C(1) show ?thesis
    unfolding tfs.does_def by blast
qed

theorem removed_file_stays_readable_witness:
  "\<exists>f s1 s2 s3. exec_call (Unlink ''/a'') demo_open = Some (Inr ((0, []), s1)) \<and> exec_call (Read (int f) 5) s1 = Some (Inr ((0, []), s2)) \<and>
    exec_call (Close (int f)) s2 = Some (Inr ((0, []), s3)) \<and> nodes (abs_fs s3) = Map.empty"
proof -
  obtain i f where D: "abs_fs demo_open = \<lparr>names = [''a'' \<mapsto> i], nodes = [i \<mapsto> AFile []], handles = [f \<mapsto> (i, 0)], spare = 2\<rparr>"
    using demo_open_ok(3) by blast
  have hyps: "plain (abs_fs demo_open)" "is_cstring ''/a''" "valid_pathname (Some ''/a'')" "names (abs_fs demo_open) (tl ''/a'') = Some i"
      "nodes (abs_fs demo_open) i = Some (AFile [])" "handles (abs_fs demo_open) f = Some (i, 0)" "0 \<le> length []"
      "names (abs_fs demo_open) n = Some i \<Longrightarrow> n = tl ''/a''" "handles (abs_fs demo_open) g = Some (i, k) \<Longrightarrow> g = f" for n g k
    by (simp_all add: D plain_def is_cstring_def split: if_splits)
  have gone: "(nodes (abs_fs demo_open))(i := None) = Map.empty"
    by (simp add: D)
  have "\<exists>s1 s2 s3. exec_call (Unlink ''/a'') demo_open = Some (Inr ((0, []), s1)) \<and>
      exec_call (Read (int f) 5) s1 = Some (Inr ((int (length (take 5 (drop 0 ([] :: mem)))), take 5 (drop 0 [])), s2)) \<and>
      exec_call (Close (int f)) s2 = Some (Inr ((0, []), s3)) \<and>
      names (abs_fs s3) = (names (abs_fs demo_open))(tl ''/a'' := None) \<and> nodes (abs_fs s3) = (nodes (abs_fs demo_open))(i := None) \<and>
      handles (abs_fs s3) = (handles (abs_fs demo_open))(f := None) \<and> spare (abs_fs s3) = spare (abs_fs demo_open) + (if ([] :: mem) = [] then 0 else 1)"
    by (rule removed_file_stays_readable [OF demo_open_ok(1) hyps(1-7)]) (rule hyps(8,9), assumption)+
  then show ?thesis
    unfolding gone drop_Nil take_Nil list.size(3) of_nat_0 by blast
qed

end
