(* ===== verification/PC_Queue.thy ===== *)
theory PC_Queue
  imports CMemory
begin

text \<open>
  The bounded queue of \<^verbatim>\<open>producer-consumer/producer-consumer.c\<close>, as data.

  The fields of \<^verbatim>\<open>pc_queue_t\<close> that are not locks are the record \<open>pc_queue_t\<close>; \<open>pcq_buffer\<close> is \<open>None\<close>
  while the pointer is \<^verbatim>\<open>NULL\<close>. The assignments of the critical sections of \<^verbatim>\<open>pcq_enqueue\<close> and
  \<^verbatim>\<open>pcq_dequeue\<close> are one function each (\<open>store_elem\<close>, \<open>advance_tail\<close>, \<open>incr_size\<close>; \<open>load_elem\<close>,
  \<open>advance_head\<close>, \<open>decr_size\<close>); theory \<open>PC_Threads\<close> interleaves them. \<open>pcq_put\<close> and \<open>pcq_take\<close> are
  the critical sections run without interruption.

  The locale \<open>bounded_queue\<close> is the contract of a bounded first-in first-out queue: what \<open>put\<close> and
  \<open>take\<close> do to the sequence of elements. The ring buffer is an interpretation of it, and whoever
  uses the queue relies on the contract only.
\<close>

section \<open>The contract of a bounded queue\<close>

locale bounded_queue =
  fixes wf :: "'q \<Rightarrow> bool"
    and content :: "'q \<Rightarrow> 'a list"
    and bound :: "'q \<Rightarrow> nat"
    and full :: "'q \<Rightarrow> bool"
    and void :: "'q \<Rightarrow> bool"
    and put :: "'a \<Rightarrow> 'q \<Rightarrow> 'q"
    and take_out :: "'q \<Rightarrow> 'a \<times> 'q"
  assumes content_bound: "wf q \<Longrightarrow> length (content q) \<le> bound q"
    and full_iff: "wf q \<Longrightarrow> full q \<longleftrightarrow> length (content q) = bound q"
    and void_iff: "wf q \<Longrightarrow> void q \<longleftrightarrow> content q = []"
    and wf_put: "wf q \<Longrightarrow> \<not> full q \<Longrightarrow> wf (put x q)"
    and content_put: "wf q \<Longrightarrow> \<not> full q \<Longrightarrow> content (put x q) = content q @ [x]"
    and bound_put: "wf q \<Longrightarrow> \<not> full q \<Longrightarrow> bound (put x q) = bound q"
    and wf_take: "wf q \<Longrightarrow> \<not> void q \<Longrightarrow> take_out q = (x, q') \<Longrightarrow> wf q'"
    and content_take: "wf q \<Longrightarrow> \<not> void q \<Longrightarrow> take_out q = (x, q') \<Longrightarrow> content q = x # content q'"
    and bound_take: "wf q \<Longrightarrow> \<not> void q \<Longrightarrow> take_out q = (x, q') \<Longrightarrow> bound q' = bound q"
begin

text \<open>
  A history of the queue: \<open>Some x\<close> puts \<open>x\<close>, \<open>None\<close> takes an element. An operation that would have
  to wait ends the history.
\<close>

fun history :: "'q \<Rightarrow> 'a option list \<Rightarrow> ('a list \<times> 'q) option" where
  "history q [] = Some ([], q)"
| "history q (Some x # ops) = (if full q then None else history (put x q) ops)"
| "history q (None # ops) =
     (if void q then None
      else case take_out q of (x, q') \<Rightarrow> map_option (\<lambda>(out, q). (x # out, q)) (history q' ops))"

lemma history_fifo:
  assumes "wf q" and "history q ops = Some (out, q')"
  shows "wf q' \<and> bound q' = bound q \<and> out @ content q' = content q @ List.map_filter id ops"
  using assms
proof (induction q ops arbitrary: out rule: history.induct)
  case (2 q x ops)
  then show ?case
    by (auto simp: wf_put content_put bound_put map_filter_simps split: if_splits)
next
  case (3 q ops)
  obtain x r where x: "take_out q = (x, r)"
    by (cases "take_out q")
  with "3.prems" obtain out' where "\<not> void q" and "history r ops = Some (out', q')" and "out = x # out'"
    by (auto split: if_splits)
  with 3 x show ?case
    by (auto simp: wf_take content_take bound_take map_filter_simps)
qed (auto simp: map_filter_simps)

end

section \<open>The structure and its operations\<close>

record 'a pc_queue_t =
  pcq_buffer :: "'a list option"
  pcq_capacity :: nat
  pcq_current_size :: nat
  pcq_head :: nat
  pcq_tail :: nat

text \<open>
  The first argument is what \<^verbatim>\<open>malloc\<close> returns: \<open>None\<close> for \<^verbatim>\<open>NULL\<close>, else the indeterminate contents
  of the new array. The result is not tested in the code.
\<close>

definition pcq_create ::
  "(nat \<Rightarrow> 'a) option \<Rightarrow> 'a pc_queue_t option \<Rightarrow> nat \<Rightarrow> int \<times> 'a pc_queue_t option" where
  "pcq_create malloc queue capacity =
     (case queue of
        None \<Rightarrow> (-1, None)
      | Some q \<Rightarrow>
          if capacity \<le> 0 then (-1, Some q)
          else
            (0, Some (q\<lparr>pcq_current_size := 0, pcq_head := 0, pcq_tail := 0,
                        pcq_capacity := capacity,
                        pcq_buffer := map_option (\<lambda>g. map g [0..<capacity]) malloc\<rparr>)))"

definition pcq_destroy :: "'a pc_queue_t option \<Rightarrow> int \<times> 'a pc_queue_t option" where
  "pcq_destroy queue =
     (case queue of
        None \<Rightarrow> (-1, None)
      | Some q \<Rightarrow>
          if pcq_buffer q = None then (-1, Some q) else (0, Some (q\<lparr>pcq_buffer := None\<rparr>)))"

definition store_elem :: "'a \<Rightarrow> 'a pc_queue_t \<Rightarrow> 'a pc_queue_t" where
  "store_elem elem q = q\<lparr>pcq_buffer := map_option (\<lambda>b. b[pcq_tail q := elem]) (pcq_buffer q)\<rparr>"

definition advance_tail :: "'a pc_queue_t \<Rightarrow> 'a pc_queue_t" where
  "advance_tail q = q\<lparr>pcq_tail := (pcq_tail q + 1) mod pcq_capacity q\<rparr>"

definition incr_size :: "'a pc_queue_t \<Rightarrow> 'a pc_queue_t" where
  "incr_size q = q\<lparr>pcq_current_size := pcq_current_size q + 1\<rparr>"

definition load_elem :: "'a pc_queue_t \<Rightarrow> 'a" where
  "load_elem q = the (pcq_buffer q) ! pcq_head q"

definition advance_head :: "'a pc_queue_t \<Rightarrow> 'a pc_queue_t" where
  "advance_head q = q\<lparr>pcq_head := (pcq_head q + 1) mod pcq_capacity q\<rparr>"

definition decr_size :: "'a pc_queue_t \<Rightarrow> 'a pc_queue_t" where
  "decr_size q = q\<lparr>pcq_current_size := pcq_current_size q - 1\<rparr>"

definition pcq_full :: "'a pc_queue_t \<Rightarrow> bool" where
  "pcq_full q \<longleftrightarrow> pcq_current_size q = pcq_capacity q"

definition pcq_empty :: "'a pc_queue_t \<Rightarrow> bool" where
  "pcq_empty q \<longleftrightarrow> pcq_current_size q = 0"

definition pcq_put :: "'a \<Rightarrow> 'a pc_queue_t \<Rightarrow> 'a pc_queue_t" where
  "pcq_put elem q = incr_size (advance_tail (store_elem elem q))"

definition pcq_take :: "'a pc_queue_t \<Rightarrow> 'a \<times> 'a pc_queue_t" where
  "pcq_take q = (load_elem q, decr_size (advance_head q))"

lemmas pcq_ops = store_elem_def advance_tail_def incr_size_def load_elem_def advance_head_def
  decr_size_def

section \<open>The ring\<close>

text \<open>The elements, oldest first, and when the indices agree with the number of elements.\<close>

definition ring :: "'a pc_queue_t \<Rightarrow> 'a list" where
  "ring q = map (\<lambda>i. the (pcq_buffer q) ! ((pcq_head q + i) mod pcq_capacity q)) [0..<pcq_current_size q]"

definition pcq_wf :: "'a pc_queue_t \<Rightarrow> bool" where
  "pcq_wf q \<longleftrightarrow>
     (\<exists>b. pcq_buffer q = Some b \<and> length b = pcq_capacity q) \<and>
     0 < pcq_capacity q \<and> pcq_head q < pcq_capacity q \<and> pcq_current_size q \<le> pcq_capacity q \<and>
     pcq_tail q = (pcq_head q + pcq_current_size q) mod pcq_capacity q"

lemma length_ring [simp]: "length (ring q) = pcq_current_size q"
  by (simp add: ring_def)

lemma ring_slot_inj:
  assumes "(h + i) mod c = (h + j) mod c" and "i < c" and "j < (c :: nat)"
  shows "i = j"
proof -
  have "i mod c = j mod c"
    using assms(1) by (simp add: nat_mod_eq_iff)
  with assms(2,3) show ?thesis by simp
qed

lemma ring_put:
  assumes "pcq_wf q" and "pcq_current_size q < pcq_capacity q"
  shows "ring (pcq_put x q) = ring q @ [x]"
proof -
  obtain b where b: "pcq_buffer q = Some b" "length b = pcq_capacity q"
    using assms(1) by (auto simp: pcq_wf_def)
  have "b[(pcq_head q + pcq_current_size q) mod pcq_capacity q := x] ! ((pcq_head q + i) mod pcq_capacity q) =
      b ! ((pcq_head q + i) mod pcq_capacity q)" if "i < pcq_current_size q" for i
    using ring_slot_inj [of "pcq_head q" "pcq_current_size q" "pcq_capacity q" i] that assms(2)
    by (intro nth_list_update_neq) auto
  moreover have "(pcq_head q + pcq_current_size q) mod pcq_capacity q < length b"
    using assms b by (simp add: pcq_wf_def)
  ultimately show ?thesis
    using assms b by (simp add: pcq_wf_def pcq_put_def pcq_ops ring_def)
qed

lemma ring_take:
  assumes "pcq_wf q" and "0 < pcq_current_size q" and "pcq_take q = (x, q')"
  shows "ring q = x # ring q'"
proof -
  obtain n where n: "pcq_current_size q = Suc n"
    using assms(2) by (cases "pcq_current_size q") auto
  show ?thesis
    using assms(1,3) unfolding n
    by (auto simp: ring_def n pcq_take_def pcq_ops pcq_wf_def upt_conv_Cons mod_add_left_eq
        simp flip: map_Suc_upt simp del: upt_Suc)
qed

lemma pcq_wf_put:
  assumes "pcq_wf q" and "pcq_current_size q < pcq_capacity q"
  shows "pcq_wf (pcq_put x q)"
  using assms by (auto simp: pcq_wf_def pcq_put_def pcq_ops mod_Suc_eq)

lemma pcq_wf_take:
  assumes "pcq_wf q" and "0 < pcq_current_size q" and "pcq_take q = (x, q')"
  shows "pcq_wf q'"
proof -
  obtain n where "pcq_current_size q = Suc n"
    using assms(2) by (cases "pcq_current_size q") auto
  with assms show ?thesis
    by (auto simp: pcq_wf_def pcq_take_def pcq_ops mod_add_left_eq)
qed

interpretation ring: bounded_queue pcq_wf ring pcq_capacity pcq_full pcq_empty pcq_put pcq_take
proof
  fix q q' :: "'a pc_queue_t" and x
  assume wf: "pcq_wf q"
  show "length (ring q) \<le> pcq_capacity q" "pcq_full q \<longleftrightarrow> length (ring q) = pcq_capacity q"
      "pcq_empty q \<longleftrightarrow> ring q = []"
    using wf by (simp_all add: pcq_wf_def pcq_full_def pcq_empty_def flip: length_0_conv)
  show "pcq_wf (pcq_put x q)" "ring (pcq_put x q) = ring q @ [x]" if "\<not> pcq_full q"
    using that wf pcq_wf_put [of q x] ring_put [of q x] by (auto simp: pcq_full_def pcq_wf_def)
  show "pcq_wf q'" "ring q = x # ring q'" if "\<not> pcq_empty q" "pcq_take q = (x, q')"
    using that wf pcq_wf_take [of q x q'] ring_take [of q x q'] by (auto simp: pcq_empty_def)
  show "pcq_capacity (pcq_put x q) = pcq_capacity q" if "\<not> pcq_full q"
    by (simp add: pcq_put_def pcq_ops)
  show "pcq_capacity q' = pcq_capacity q" if "\<not> pcq_empty q" "pcq_take q = (x, q')"
    using that(2) by (auto simp: pcq_take_def pcq_ops)
qed

lemma pcq_create_wf:
  assumes "0 < capacity"
  shows "\<exists>q'. pcq_create (Some g) (Some q) capacity = (0, Some q') \<and> pcq_wf q' \<and> ring q' = [] \<and>
    pcq_capacity q' = capacity"
  using assms by (simp add: pcq_create_def pcq_wf_def ring_def)

end
