(* ===== verification/PC_Threads.thy ===== *)
theory PC_Threads
  imports PC_Queue
begin

text \<open>
  \<^verbatim>\<open>pcq_enqueue\<close> and \<^verbatim>\<open>pcq_dequeue\<close> as they are run by several threads at once.

  Each of the two functions is a list of instructions, one per statement of the C code, in the
  order of the code; the \<^verbatim>\<open>while\<close> loop is a test that leaves the loop and a jump back to it. A thread
  is idle or executes one of the two functions; a step of the system (\<open>pcq_step\<close>) is one instruction
  of one thread. Mutexes have an owner. \<^verbatim>\<open>pthread_cond_wait\<close> releases its mutex and sleeps in one
  step, and before it returns acquires the mutex again; \<^verbatim>\<open>pthread_cond_signal\<close> wakes one of the
  threads that sleep on the condition variable, if there is any; a thread may also wake without a
  signal, as POSIX permits. \<open>added\<close> and \<open>removed\<close> record what has been counted in and out so far.
\<close>

section \<open>Programs\<close>

datatype pcq_mutex =
    Pcq_current_size_lock
  | Pcq_head_lock
  | Pcq_tail_lock
  | Pcq_pusher_condvar_lock
  | Pcq_popper_condvar_lock

datatype pcq_cond = Pcq_pusher_condvar | Pcq_popper_condvar

datatype 'a instr =
    Return_if_null
  | Lock pcq_mutex
  | Unlock pcq_mutex
  | While_full nat
  | While_empty nat
  | Goto nat
  | Cond_wait pcq_cond pcq_mutex
  | Cond_signal pcq_cond
  | Store 'a
  | Advance_tail
  | Incr_size
  | Load
  | Advance_head
  | Decr_size
  | Return

definition pcq_enqueue :: "'a \<Rightarrow> 'a instr list" where
  "pcq_enqueue elem =
     [Return_if_null,
      Lock Pcq_pusher_condvar_lock,
      Lock Pcq_current_size_lock,
      While_full 8,
        Unlock Pcq_current_size_lock,
        Cond_wait Pcq_pusher_condvar Pcq_pusher_condvar_lock,
        Lock Pcq_current_size_lock,
      Goto 3,
      Lock Pcq_tail_lock,
      Store elem,
      Advance_tail,
      Unlock Pcq_tail_lock,
      Incr_size,
      Unlock Pcq_current_size_lock,
      Unlock Pcq_pusher_condvar_lock,
      Lock Pcq_popper_condvar_lock,
      Cond_signal Pcq_popper_condvar,
      Unlock Pcq_popper_condvar_lock,
      Return]"

definition pcq_dequeue :: "'a instr list" where
  "pcq_dequeue =
     [Return_if_null,
      Lock Pcq_popper_condvar_lock,
      Lock Pcq_current_size_lock,
      While_empty 8,
        Unlock Pcq_current_size_lock,
        Cond_wait Pcq_popper_condvar Pcq_popper_condvar_lock,
        Lock Pcq_current_size_lock,
      Goto 3,
      Lock Pcq_head_lock,
      Load,
      Advance_head,
      Unlock Pcq_head_lock,
      Decr_size,
      Unlock Pcq_current_size_lock,
      Unlock Pcq_popper_condvar_lock,
      Lock Pcq_pusher_condvar_lock,
      Cond_signal Pcq_pusher_condvar,
      Unlock Pcq_pusher_condvar_lock,
      Return]"

datatype 'a pcq_call = Enqueue 'a | Dequeue

fun program :: "'a pcq_call \<Rightarrow> 'a instr list" where
  "program (Enqueue x) = pcq_enqueue x"
| "program Dequeue = pcq_dequeue"

definition next_instr :: "'a pcq_call \<Rightarrow> nat \<Rightarrow> 'a instr option" where
  "next_instr call pc = (if pc < length (program call) then Some (program call ! pc) else None)"

section \<open>Threads and steps\<close>

datatype mode = Awake | Asleep | Woken

text \<open>
  A running call: its program, the next instruction, whether the thread sleeps in it, and the local
  variable \<^verbatim>\<open>elem\<close> of \<^verbatim>\<open>pcq_dequeue\<close>.
\<close>

datatype 'a thread = Idle | Thread "'a pcq_call" nat mode "'a option"

record ('t, 'a) pcq_system =
  queue :: "'a pc_queue_t"
  owner :: "pcq_mutex \<Rightarrow> 't option"
  thread :: "'t \<Rightarrow> 'a thread"
  added :: "'a list"
  removed :: "'a list"

definition set_thread :: "'t \<Rightarrow> 'a thread \<Rightarrow> ('t, 'a) pcq_system \<Rightarrow> ('t, 'a) pcq_system" where
  "set_thread t th s = s\<lparr>thread := (thread s)(t := th)\<rparr>"

definition set_owner :: "pcq_mutex \<Rightarrow> 't option \<Rightarrow> ('t, 'a) pcq_system \<Rightarrow> ('t, 'a) pcq_system" where
  "set_owner m u s = s\<lparr>owner := (owner s)(m := u)\<rparr>"

lemma set_thread_simps [simp]:
  "queue (set_thread t th s) = queue s" "owner (set_thread t th s) = owner s"
  "thread (set_thread t th s) = (thread s)(t := th)"
  "added (set_thread t th s) = added s" "removed (set_thread t th s) = removed s"
  by (simp_all add: set_thread_def)

lemma set_owner_simps [simp]:
  "queue (set_owner m u s) = queue s" "owner (set_owner m u s) = (owner s)(m := u)"
  "thread (set_owner m u s) = thread s"
  "added (set_owner m u s) = added s" "removed (set_owner m u s) = removed s"
  by (simp_all add: set_owner_def)

definition sleeps_on :: "pcq_cond \<Rightarrow> 'a thread \<Rightarrow> bool" where
  "sleeps_on c th \<longleftrightarrow>
     (case th of
        Thread call pc Asleep e \<Rightarrow> (case next_instr call pc of Some (Cond_wait c' m) \<Rightarrow> c' = c | _ \<Rightarrow> False)
      | _ \<Rightarrow> False)"

fun wake :: "'a thread \<Rightarrow> 'a thread" where
  "wake (Thread call pc Asleep e) = Thread call pc Woken e"
| "wake th = th"

inductive pcq_step :: "('t, 'a) pcq_system \<Rightarrow> ('t, 'a) pcq_system \<Rightarrow> bool" where
  step_call: "thread s t = Idle \<Longrightarrow> pcq_step s (set_thread t (Thread call 0 Awake None) s)"
| step_null: "thread s t = Thread call pc Awake e \<Longrightarrow> next_instr call pc = Some Return_if_null \<Longrightarrow>
    pcq_buffer (queue s) = None \<Longrightarrow> pcq_step s (set_thread t Idle s)"
| step_not_null: "thread s t = Thread call pc Awake e \<Longrightarrow> next_instr call pc = Some Return_if_null \<Longrightarrow>
    pcq_buffer (queue s) \<noteq> None \<Longrightarrow> pcq_step s (set_thread t (Thread call (Suc pc) Awake e) s)"
| step_lock: "thread s t = Thread call pc Awake e \<Longrightarrow> next_instr call pc = Some (Lock m) \<Longrightarrow> owner s m = None \<Longrightarrow>
    pcq_step s (set_owner m (Some t) (set_thread t (Thread call (Suc pc) Awake e) s))"
| step_unlock: "thread s t = Thread call pc Awake e \<Longrightarrow> next_instr call pc = Some (Unlock m) \<Longrightarrow>
    pcq_step s (set_owner m None (set_thread t (Thread call (Suc pc) Awake e) s))"
| step_while_full: "thread s t = Thread call pc Awake e \<Longrightarrow> next_instr call pc = Some (While_full k) \<Longrightarrow>
    pcq_step s (set_thread t (Thread call (if pcq_full (queue s) then Suc pc else k) Awake e) s)"
| step_while_empty: "thread s t = Thread call pc Awake e \<Longrightarrow> next_instr call pc = Some (While_empty k) \<Longrightarrow>
    pcq_step s (set_thread t (Thread call (if pcq_empty (queue s) then Suc pc else k) Awake e) s)"
| step_goto: "thread s t = Thread call pc Awake e \<Longrightarrow> next_instr call pc = Some (Goto k) \<Longrightarrow>
    pcq_step s (set_thread t (Thread call k Awake e) s)"
| step_wait: "thread s t = Thread call pc Awake e \<Longrightarrow> next_instr call pc = Some (Cond_wait c m) \<Longrightarrow>
    pcq_step s (set_owner m None (set_thread t (Thread call pc Asleep e) s))"
| step_spurious: "thread s t = Thread call pc Asleep e \<Longrightarrow>
    pcq_step s (set_thread t (Thread call pc Woken e) s)"
| step_rewait: "thread s t = Thread call pc Woken e \<Longrightarrow> next_instr call pc = Some (Cond_wait c m) \<Longrightarrow>
    owner s m = None \<Longrightarrow>
    pcq_step s (set_owner m (Some t) (set_thread t (Thread call (Suc pc) Awake e) s))"
| step_signal: "thread s t = Thread call pc Awake e \<Longrightarrow> next_instr call pc = Some (Cond_signal c) \<Longrightarrow>
    sleeps_on c (thread s u) \<Longrightarrow>
    pcq_step s (set_thread u (wake (thread s u)) (set_thread t (Thread call (Suc pc) Awake e) s))"
| step_signal_nobody: "thread s t = Thread call pc Awake e \<Longrightarrow> next_instr call pc = Some (Cond_signal c) \<Longrightarrow>
    \<not> (\<exists>u. sleeps_on c (thread s u)) \<Longrightarrow> pcq_step s (set_thread t (Thread call (Suc pc) Awake e) s)"
| step_store: "thread s t = Thread call pc Awake e \<Longrightarrow> next_instr call pc = Some (Store x) \<Longrightarrow>
    pcq_step s (set_thread t (Thread call (Suc pc) Awake e) (s\<lparr>queue := store_elem x (queue s)\<rparr>))"
| step_advance_tail: "thread s t = Thread call pc Awake e \<Longrightarrow> next_instr call pc = Some Advance_tail \<Longrightarrow>
    pcq_step s (set_thread t (Thread call (Suc pc) Awake e) (s\<lparr>queue := advance_tail (queue s)\<rparr>))"
| step_incr: "thread s t = Thread (Enqueue x) pc Awake e \<Longrightarrow> next_instr (Enqueue x) pc = Some Incr_size \<Longrightarrow>
    pcq_step s (set_thread t (Thread (Enqueue x) (Suc pc) Awake e)
      (s\<lparr>queue := incr_size (queue s), added := added s @ [x]\<rparr>))"
| step_load: "thread s t = Thread call pc Awake e \<Longrightarrow> next_instr call pc = Some Load \<Longrightarrow>
    pcq_step s (set_thread t (Thread call (Suc pc) Awake (Some (load_elem (queue s)))) s)"
| step_advance_head: "thread s t = Thread call pc Awake e \<Longrightarrow> next_instr call pc = Some Advance_head \<Longrightarrow>
    pcq_step s (set_thread t (Thread call (Suc pc) Awake e) (s\<lparr>queue := advance_head (queue s)\<rparr>))"
| step_decr: "thread s t = Thread call pc Awake (Some x) \<Longrightarrow> next_instr call pc = Some Decr_size \<Longrightarrow>
    pcq_step s (set_thread t (Thread call (Suc pc) Awake (Some x))
      (s\<lparr>queue := decr_size (queue s), removed := removed s @ [x]\<rparr>))"
| step_return: "thread s t = Thread call pc Awake e \<Longrightarrow> next_instr call pc = Some Return \<Longrightarrow>
    pcq_step s (set_thread t Idle s)"

section \<open>Where the instructions are\<close>

fun own_lock :: "'a pcq_call \<Rightarrow> pcq_mutex" where
  "own_lock (Enqueue x) = Pcq_pusher_condvar_lock"
| "own_lock Dequeue = Pcq_popper_condvar_lock"

fun peer_lock :: "'a pcq_call \<Rightarrow> pcq_mutex" where
  "peer_lock (Enqueue x) = Pcq_popper_condvar_lock"
| "peer_lock Dequeue = Pcq_pusher_condvar_lock"

fun end_lock :: "'a pcq_call \<Rightarrow> pcq_mutex" where
  "end_lock (Enqueue x) = Pcq_tail_lock"
| "end_lock Dequeue = Pcq_head_lock"

fun own_cond :: "'a pcq_call \<Rightarrow> pcq_cond" where
  "own_cond (Enqueue x) = Pcq_pusher_condvar"
| "own_cond Dequeue = Pcq_popper_condvar"

fun peer_cond :: "'a pcq_call \<Rightarrow> pcq_cond" where
  "peer_cond (Enqueue x) = Pcq_popper_condvar"
| "peer_cond Dequeue = Pcq_pusher_condvar"

text \<open>The two programs side by side.\<close>

definition skeleton :: "'a pcq_call \<Rightarrow> 'a instr list" where
  "skeleton call =
     [Return_if_null, Lock (own_lock call), Lock Pcq_current_size_lock,
      (case call of Enqueue x \<Rightarrow> While_full 8 | Dequeue \<Rightarrow> While_empty 8),
      Unlock Pcq_current_size_lock, Cond_wait (own_cond call) (own_lock call),
      Lock Pcq_current_size_lock, Goto 3, Lock (end_lock call),
      (case call of Enqueue x \<Rightarrow> Store x | Dequeue \<Rightarrow> Load),
      (case call of Enqueue x \<Rightarrow> Advance_tail | Dequeue \<Rightarrow> Advance_head),
      Unlock (end_lock call),
      (case call of Enqueue x \<Rightarrow> Incr_size | Dequeue \<Rightarrow> Decr_size),
      Unlock Pcq_current_size_lock, Unlock (own_lock call), Lock (peer_lock call),
      Cond_signal (peer_cond call), Unlock (peer_lock call), Return]"

lemma program_skeleton: "program call = skeleton call"
  by (cases call) (simp_all add: skeleton_def pcq_enqueue_def pcq_dequeue_def)

lemma pc_cases: "pc < 19 \<longleftrightarrow> pc \<in> {0,1,2,3,4,5,6,7,8,9,10,11,12,13,14,15,16,17,18::nat}"
  by (auto simp: eval_nat_numeral less_Suc_eq)

lemma next_instr_iff:
  "next_instr call pc = Some i \<longleftrightarrow>
    pc = 0 \<and> i = Return_if_null \<or> pc = 1 \<and> i = Lock (own_lock call) \<or>
    pc = 2 \<and> i = Lock Pcq_current_size_lock \<or>
    pc = 3 \<and> i = (case call of Enqueue x \<Rightarrow> While_full 8 | Dequeue \<Rightarrow> While_empty 8) \<or>
    pc = 4 \<and> i = Unlock Pcq_current_size_lock \<or> pc = 5 \<and> i = Cond_wait (own_cond call) (own_lock call) \<or>
    pc = 6 \<and> i = Lock Pcq_current_size_lock \<or> pc = 7 \<and> i = Goto 3 \<or> pc = 8 \<and> i = Lock (end_lock call) \<or>
    pc = 9 \<and> i = (case call of Enqueue x \<Rightarrow> Store x | Dequeue \<Rightarrow> Load) \<or>
    pc = 10 \<and> i = (case call of Enqueue x \<Rightarrow> Advance_tail | Dequeue \<Rightarrow> Advance_head) \<or>
    pc = 11 \<and> i = Unlock (end_lock call) \<or>
    pc = 12 \<and> i = (case call of Enqueue x \<Rightarrow> Incr_size | Dequeue \<Rightarrow> Decr_size) \<or>
    pc = 13 \<and> i = Unlock Pcq_current_size_lock \<or> pc = 14 \<and> i = Unlock (own_lock call) \<or>
    pc = 15 \<and> i = Lock (peer_lock call) \<or> pc = 16 \<and> i = Cond_signal (peer_cond call) \<or>
    pc = 17 \<and> i = Unlock (peer_lock call) \<or> pc = 18 \<and> i = Return"
    (is "_ \<longleftrightarrow> ?place")
proof
  assume "next_instr call pc = Some i"
  then have "pc < 19" and "skeleton call ! pc = i"
    by (simp_all add: next_instr_def program_skeleton skeleton_def split: if_splits)
  then show ?place
    unfolding pc_cases skeleton_def by (elim insertE) simp_all
next
  assume ?place
  then show "next_instr call pc = Some i"
    unfolding next_instr_def program_skeleton skeleton_def by (elim disjE conjE) simp_all
qed

text \<open>Read the other way round: where an instruction can be.\<close>

lemma instr_at:
  "next_instr call pc = Some (Lock m) \<longleftrightarrow>
    pc = 1 \<and> m = own_lock call \<or> pc = 2 \<and> m = Pcq_current_size_lock \<or> pc = 6 \<and> m = Pcq_current_size_lock \<or>
    pc = 8 \<and> m = end_lock call \<or> pc = 15 \<and> m = peer_lock call"
  "next_instr call pc = Some (Unlock m) \<longleftrightarrow>
    pc = 4 \<and> m = Pcq_current_size_lock \<or> pc = 11 \<and> m = end_lock call \<or> pc = 13 \<and> m = Pcq_current_size_lock \<or>
    pc = 14 \<and> m = own_lock call \<or> pc = 17 \<and> m = peer_lock call"
  "next_instr call pc = Some (While_full k) \<longleftrightarrow> pc = 3 \<and> k = 8 \<and> (\<exists>x. call = Enqueue x)"
  "next_instr call pc = Some (While_empty k) \<longleftrightarrow> pc = 3 \<and> k = 8 \<and> call = Dequeue"
  "next_instr call pc = Some (Cond_wait c m) \<longleftrightarrow> pc = 5 \<and> c = own_cond call \<and> m = own_lock call"
  "next_instr call pc = Some (Cond_signal c) \<longleftrightarrow> pc = 16 \<and> c = peer_cond call"
  "next_instr call pc = Some Return_if_null \<longleftrightarrow> pc = 0"
  "next_instr call pc = Some (Goto k) \<longleftrightarrow> pc = 7 \<and> k = 3"
  "next_instr call pc = Some (Store x) \<longleftrightarrow> pc = 9 \<and> call = Enqueue x"
  "next_instr call pc = Some Advance_tail \<longleftrightarrow> pc = 10 \<and> (\<exists>x. call = Enqueue x)"
  "next_instr call pc = Some Incr_size \<longleftrightarrow> pc = 12 \<and> (\<exists>x. call = Enqueue x)"
  "next_instr call pc = Some Load \<longleftrightarrow> pc = 9 \<and> call = Dequeue"
  "next_instr call pc = Some Advance_head \<longleftrightarrow> pc = 10 \<and> call = Dequeue"
  "next_instr call pc = Some Decr_size \<longleftrightarrow> pc = 12 \<and> call = Dequeue"
  "next_instr call pc = Some Return \<longleftrightarrow> pc = 18"
  unfolding next_instr_iff by (auto split: pcq_call.splits)

lemma next_instr_exists: "(\<exists>i. next_instr call pc = Some i) \<longleftrightarrow> pc < 19"
  by (simp add: next_instr_def program_skeleton skeleton_def)

section \<open>Mutual exclusion\<close>

text \<open>What a thread holds, read off its program counter.\<close>

fun holds :: "'a thread \<Rightarrow> pcq_mutex \<Rightarrow> bool" where
  "holds Idle m \<longleftrightarrow> False"
| "holds (Thread call pc md e) m \<longleftrightarrow>
     md = Awake \<and>
     (m = own_lock call \<and> 2 \<le> pc \<and> pc \<le> 14 \<or>
      m = Pcq_current_size_lock \<and> (pc = 3 \<or> pc = 4 \<or> 7 \<le> pc \<and> pc \<le> 13) \<or>
      m = end_lock call \<and> 9 \<le> pc \<and> pc \<le> 11 \<or>
      m = peer_lock call \<and> 16 \<le> pc \<and> pc \<le> 17)"

fun thread_ok :: "'a thread \<Rightarrow> bool" where
  "thread_ok Idle \<longleftrightarrow> True"
| "thread_ok (Thread call pc md e) \<longleftrightarrow> pc < 19 \<and> (md \<noteq> Awake \<longrightarrow> pc = 5)"

definition locks_ok :: "('t, 'a) pcq_system \<Rightarrow> bool" where
  "locks_ok s \<longleftrightarrow> (\<forall>t. thread_ok (thread s t)) \<and> (\<forall>t m. owner s m = Some t \<longleftrightarrow> holds (thread s t) m)"

lemma locks_ok_data [simp]:
  "locks_ok (s\<lparr>queue := q\<rparr>) = locks_ok s" "locks_ok (s\<lparr>added := xs\<rparr>) = locks_ok s"
  "locks_ok (s\<lparr>removed := xs\<rparr>) = locks_ok s"
  by (simp_all add: locks_ok_def)

lemma locks_ok_thread:
  assumes "locks_ok s" and "thread s t = Thread call pc md e"
  shows "pc < 19" and "md \<noteq> Awake \<Longrightarrow> pc = 5"
  using assms unfolding locks_ok_def by (metis thread_ok.simps(2))+

lemma locks_ok_same:
  assumes "locks_ok s" and "thread_ok th" and "\<And>m. holds th m = holds (thread s t) m"
  shows "locks_ok (set_thread t th s)"
  using assms by (auto simp: locks_ok_def)

lemma locks_ok_acquire:
  assumes "locks_ok s" and "thread_ok th" and "owner s m = None"
    and "\<And>k. holds th k = (k = m \<or> holds (thread s t) k)"
  shows "locks_ok (set_owner m (Some t) (set_thread t th s))"
proof -
  have "\<not> holds (thread s u) m" for u
    using assms(1,3) by (metis locks_ok_def option.distinct(1))
  then show ?thesis
    using assms by (simp add: locks_ok_def)
qed

lemma locks_ok_release:
  assumes "locks_ok s" and "thread_ok th" and "holds (thread s t) m"
    and "\<And>k. holds th k = (k \<noteq> m \<and> holds (thread s t) k)"
  shows "locks_ok (set_owner m None (set_thread t th s))"
proof -
  have "u = t" if "holds (thread s u) m" for u
    using assms(1,3) that by (metis locks_ok_def option.inject)
  then have "holds (if u = t then th else thread s u) k \<longleftrightarrow> k \<noteq> m \<and> holds (thread s u) k" for u k
    using assms(4) by auto
  then show ?thesis
    using assms(1,2) by (auto simp: locks_ok_def)
qed

lemma locks_ok_wake: "locks_ok s \<Longrightarrow> locks_ok (set_thread u (wake (thread s u)) s)"
  by (cases "thread s u" rule: wake.cases)
    (auto intro!: locks_ok_same dest: locks_ok_thread)

lemma locks_ok_step: "pcq_step s s' \<Longrightarrow> locks_ok s \<Longrightarrow> locks_ok s'"
proof (induction rule: pcq_step.induct)
  case (step_lock s t call pc e m)
  then show ?case
    by (cases call; simp only: instr_at; elim disjE; intro locks_ok_acquire) auto
next
  case (step_unlock s t call pc e m)
  then show ?case
    by (cases call; simp only: instr_at; elim disjE; intro locks_ok_release) auto
next
  case (step_wait s t call pc e c m)
  then show ?case
    by (cases call; intro locks_ok_release) (auto simp: instr_at)
next
  case (step_rewait s t call pc e c m)
  then show ?case
    by (cases call; intro locks_ok_acquire) (auto simp: instr_at)
next
  case (step_signal s t call pc e c u)
  then have "u \<noteq> t"
    by (auto simp: sleeps_on_def)
  moreover have "locks_ok (set_thread t (Thread call (Suc pc) Awake e) s)"
    using step_signal by (intro locks_ok_same) (auto simp: instr_at)
  ultimately show ?case
    using locks_ok_wake [of "set_thread t (Thread call (Suc pc) Awake e) s" u] by simp
next
  case (step_spurious s t call pc e)
  then show ?case
    by (intro locks_ok_same) (auto dest: locks_ok_thread)
qed (auto simp: instr_at intro!: locks_ok_same)

end
