(* ===== verification/PC_Fifo.thy ===== *)
theory PC_Fifo
  imports PC_Threads
begin

text \<open>
  What the threads of theory \<open>PC_Threads\<close> do to the queue: everything that was added and has not been
  removed is in the ring, in the order of the additions, however the threads interleave.

  All changes of the queue happen while \<^verbatim>\<open>pcq_current_size_lock\<close> is held. \<open>midway th q0 q\<close> says how far
  its holder has taken the queue from the state \<open>q0\<close> in which it found it.
\<close>

lemma size_lock_neq [simp]:
  "own_lock call \<noteq> Pcq_current_size_lock" "Pcq_current_size_lock \<noteq> own_lock call"
  "peer_lock call \<noteq> Pcq_current_size_lock" "Pcq_current_size_lock \<noteq> peer_lock call"
  "end_lock call \<noteq> Pcq_current_size_lock" "Pcq_current_size_lock \<noteq> end_lock call"
  by (cases call; simp)+

fun midway :: "'a thread \<Rightarrow> 'a pc_queue_t \<Rightarrow> 'a pc_queue_t \<Rightarrow> bool" where
  "midway Idle q0 q \<longleftrightarrow> False"
| "midway (Thread (Enqueue x) pc md e) q0 q \<longleftrightarrow>
     q = (if pc = 10 then store_elem x q0
          else if pc = 11 \<or> pc = 12 then advance_tail (store_elem x q0) else q0) \<and>
     (8 \<le> pc \<and> pc \<le> 12 \<longrightarrow> \<not> pcq_full q0)"
| "midway (Thread Dequeue pc md e) q0 q \<longleftrightarrow>
     q = (if pc = 11 \<or> pc = 12 then advance_head q0 else q0) \<and>
     (8 \<le> pc \<and> pc \<le> 12 \<longrightarrow> \<not> pcq_empty q0) \<and>
     (10 \<le> pc \<and> pc \<le> 12 \<longrightarrow> e = Some (load_elem q0))"

definition settled_at :: "'a pc_queue_t \<Rightarrow> ('t, 'a) pcq_system \<Rightarrow> bool" where
  "settled_at q0 s \<longleftrightarrow>
     pcq_wf q0 \<and> added s = removed s @ ring q0 \<and>
     (case owner s Pcq_current_size_lock of
        None \<Rightarrow> queue s = q0
      | Some t \<Rightarrow> midway (thread s t) q0 (queue s))"

lemma settled_other_lock:
  "m \<noteq> Pcq_current_size_lock \<Longrightarrow> settled_at q0 (set_owner m u s) = settled_at q0 s"
  by (simp add: settled_at_def split: option.splits)

lemma settled_move:
  assumes "settled_at q0 s"
    and "owner s Pcq_current_size_lock = Some t \<Longrightarrow> midway (thread s t) q0 (queue s) \<Longrightarrow> midway th q0 (queue s)"
  shows "settled_at q0 (set_thread t th s)"
  using assms by (auto simp: settled_at_def split: option.splits)

lemma settled_enter:
  assumes "settled_at q0 s" and "owner s Pcq_current_size_lock = None" and "midway th q0 q0"
  shows "settled_at q0 (set_owner Pcq_current_size_lock (Some t) (set_thread t th s))"
  using assms by (simp add: settled_at_def)

lemma settled_leave:
  assumes "settled_at q0 s" and "queue s = q0"
  shows "settled_at q0 (set_owner Pcq_current_size_lock None (set_thread t th s))"
  using assms by (simp add: settled_at_def)

lemma size_owner:
  "locks_ok s \<Longrightarrow> thread s t = th \<Longrightarrow> holds th Pcq_current_size_lock \<Longrightarrow> owner s Pcq_current_size_lock = Some t"
  by (auto simp: locks_ok_def)

lemma not_size_owner:
  "locks_ok s \<Longrightarrow> thread s t = th \<Longrightarrow> owner s Pcq_current_size_lock = Some t \<Longrightarrow> holds th Pcq_current_size_lock"
  by (auto simp: locks_ok_def)

lemma midway_wake [simp]: "midway (wake th) = midway th"
proof (cases th rule: wake.cases)
  case (1 call pc e)
  then show ?thesis by (cases call) (auto intro!: ext)
qed simp_all

section \<open>The steps\<close>

text \<open>The steps that change the queue, each taken by the holder of the lock.\<close>

lemma settled_store:
  assumes "locks_ok s" and "settled_at q0 s" and "thread s t = Thread (Enqueue x) 9 Awake e"
  shows "settled_at q0 (set_thread t (Thread (Enqueue x) 10 Awake e) (s\<lparr>queue := store_elem x (queue s)\<rparr>))"
  using assms size_owner [OF assms(1,3)] by (simp add: settled_at_def)

lemma settled_advance_tail:
  assumes "locks_ok s" and "settled_at q0 s" and "thread s t = Thread (Enqueue x) 10 Awake e"
  shows "settled_at q0 (set_thread t (Thread (Enqueue x) 11 Awake e) (s\<lparr>queue := advance_tail (queue s)\<rparr>))"
  using assms size_owner [OF assms(1,3)] by (simp add: settled_at_def)

lemma settled_incr:
  assumes "locks_ok s" and "settled_at q0 s" and "thread s t = Thread (Enqueue x) 12 Awake e"
  shows "settled_at (pcq_put x q0) (set_thread t (Thread (Enqueue x) 13 Awake e)
    (s\<lparr>queue := incr_size (queue s), added := added s @ [x]\<rparr>))"
  using assms size_owner [OF assms(1,3)] ring.wf_put [of q0 x] ring.content_put [of q0 x]
  by (simp add: settled_at_def pcq_put_def)

lemma settled_load:
  assumes "locks_ok s" and "settled_at q0 s" and "thread s t = Thread Dequeue 9 Awake e"
  shows "settled_at q0 (set_thread t (Thread Dequeue 10 Awake (Some (load_elem (queue s)))) s)"
  using assms size_owner [OF assms(1,3)] by (simp add: settled_at_def)

lemma settled_advance_head:
  assumes "locks_ok s" and "settled_at q0 s" and "thread s t = Thread Dequeue 10 Awake e"
  shows "settled_at q0 (set_thread t (Thread Dequeue 11 Awake e) (s\<lparr>queue := advance_head (queue s)\<rparr>))"
  using assms size_owner [OF assms(1,3)] by (simp add: settled_at_def)

lemma settled_decr:
  assumes "locks_ok s" and "settled_at q0 s" and "thread s t = Thread Dequeue 12 Awake (Some x)"
  shows "settled_at (snd (pcq_take q0)) (set_thread t (Thread Dequeue 13 Awake (Some x))
    (s\<lparr>queue := decr_size (queue s), removed := removed s @ [x]\<rparr>))"
  using assms size_owner [OF assms(1,3)] ring.wf_take [of q0] ring.content_take [of q0]
  by (simp add: settled_at_def pcq_take_def)

lemma settled_step:
  "pcq_step s s' \<Longrightarrow> locks_ok s \<Longrightarrow> settled_at q0 s \<Longrightarrow> \<exists>q1. settled_at q1 s'"
proof (induction rule: pcq_step.induct)
  case (step_lock s t call pc e m)
  show ?case
  proof (cases "m = Pcq_current_size_lock")
    case True
    then have "settled_at q0 (set_owner m (Some t) (set_thread t (Thread call (Suc pc) Awake e) s))"
      using step_lock by (cases call) (auto simp: instr_at intro!: settled_enter)
    then show ?thesis ..
  next
    case False
    then have "settled_at q0 (set_owner m (Some t) (set_thread t (Thread call (Suc pc) Awake e) s))"
      using step_lock not_size_owner [OF step_lock.prems(1) step_lock.hyps(1)]
      by (cases call) (auto simp: instr_at settled_other_lock intro!: settled_move)
    then show ?thesis ..
  qed
next
  case (step_unlock s t call pc e m)
  show ?case
  proof (cases "m = Pcq_current_size_lock")
    case True
    then have "queue s = q0"
      using step_unlock size_owner [OF step_unlock.prems(1) step_unlock.hyps(1)]
      by (cases call) (auto simp: instr_at settled_at_def)
    then show ?thesis
      using step_unlock True by (auto intro: settled_leave)
  next
    case False
    then have "settled_at q0 (set_owner m None (set_thread t (Thread call (Suc pc) Awake e) s))"
      using step_unlock not_size_owner [OF step_unlock.prems(1) step_unlock.hyps(1)]
      by (cases call) (auto simp: instr_at settled_other_lock intro!: settled_move)
    then show ?thesis ..
  qed
next
  case (step_while_full s t call pc e k)
  then have "settled_at q0 (set_thread t (Thread call (if pcq_full (queue s) then Suc pc else k) Awake e) s)"
    by (auto simp: instr_at intro!: settled_move)
  then show ?case ..
next
  case (step_while_empty s t call pc e k)
  then have "settled_at q0 (set_thread t (Thread call (if pcq_empty (queue s) then Suc pc else k) Awake e) s)"
    by (auto simp: instr_at intro!: settled_move)
  then show ?case ..
next
  case (step_signal s t call pc e c u)
  then have "u \<noteq> t"
    by (auto simp: sleeps_on_def)
  with step_signal have "settled_at q0 (set_thread u (wake (thread s u)) (set_thread t (Thread call (Suc pc) Awake e) s))"
    using not_size_owner [OF step_signal.prems(1) step_signal.hyps(1)]
    by (intro settled_move) (auto simp: instr_at)
  then show ?case ..
next
  case (step_store s t call pc e x)
  then show ?case
    using settled_store [of s q0 t x e] by (auto simp: instr_at)
next
  case (step_advance_tail s t call pc e)
  then show ?case
    using settled_advance_tail [of s q0 t _ e] by (auto simp: instr_at)
next
  case (step_incr s t x pc e)
  then show ?case
    using settled_incr [of s q0 t x e] by (auto simp: instr_at simp del: program.simps)
next
  case (step_load s t call pc e)
  then show ?case
    using settled_load [of s q0 t e] by (auto simp: instr_at)
next
  case (step_advance_head s t call pc e)
  then show ?case
    using settled_advance_head [of s q0 t e] by (auto simp: instr_at)
next
  case (step_decr s t call pc x)
  then show ?case
    using settled_decr [of s q0 t x] by (auto simp: instr_at)
next
  case (step_wait s t call pc e c m)
  then have "settled_at q0 (set_owner m None (set_thread t (Thread call pc Asleep e) s))"
    using not_size_owner [OF step_wait.prems(1) step_wait.hyps(1)]
    by (cases call) (auto simp: instr_at settled_other_lock intro!: settled_move)
  then show ?case ..
next
  case (step_rewait s t call pc e c m)
  then have "settled_at q0 (set_owner m (Some t) (set_thread t (Thread call (Suc pc) Awake e) s))"
    using not_size_owner [OF step_rewait.prems(1) step_rewait.hyps(1)]
    by (cases call) (auto simp: instr_at settled_other_lock intro!: settled_move)
  then show ?case ..
next
  case (step_goto s t call pc e k)
  then have "settled_at q0 (set_thread t (Thread call k Awake e) s)"
    by (cases call) (auto simp: instr_at intro!: settled_move)
  then show ?case ..
next
  case (step_spurious s t call pc e)
  then have "settled_at q0 (set_thread t (Thread call pc Woken e) s)"
    by (cases call) (auto intro!: settled_move)
  then show ?case ..
qed (use not_size_owner in \<open>fastforce simp: instr_at intro!: settled_move exI [of _ q0]\<close>)+

end
