(* ===== verification/PC_Progress.thy ===== *)
theory PC_Progress
  imports PC_Fifo
begin

text \<open>
  No wake-up is lost. The signals of the code are given after the size lock is released, so there
  are states in which the queue has elements and consumers sleep. What holds in all states
  (\<open>wakes_ok\<close>): as soon as a thread of one side waits, the number of elements (for producers: of free
  slots) is at most the number of helpers, which are the threads of that side that have been woken
  or are about to use the queue, and those of the other side that still have to signal. When no thread can move
  there are no helpers, so no thread sleeps beside something it waits for.
\<close>

section \<open>Waiting and helping\<close>

fun consumer :: "'a pcq_call \<Rightarrow> bool" where
  "consumer (Enqueue x) \<longleftrightarrow> False"
| "consumer Dequeue \<longleftrightarrow> True"

definition available :: "bool \<Rightarrow> 'a pc_queue_t \<Rightarrow> nat" where
  "available b q = (if b then pcq_current_size q else pcq_capacity q - pcq_current_size q)"

fun waiting :: "bool \<Rightarrow> 'a thread \<Rightarrow> bool" where
  "waiting b Idle \<longleftrightarrow> False"
| "waiting b (Thread call pc md e) \<longleftrightarrow>
     consumer call = b \<and> (md = Asleep \<or> md = Awake \<and> (pc = 4 \<or> pc = 5))"

fun helper :: "bool \<Rightarrow> 'a thread \<Rightarrow> bool" where
  "helper b Idle \<longleftrightarrow> False"
| "helper b (Thread call pc md e) \<longleftrightarrow>
     consumer call = b \<and> (md = Woken \<or> md = Awake \<and> (pc = 3 \<or> 6 \<le> pc \<and> pc \<le> 12)) \<or>
     consumer call \<noteq> b \<and> md = Awake \<and> 13 \<le> pc \<and> pc \<le> 16"

definition helpers :: "bool \<Rightarrow> ('t :: finite \<Rightarrow> 'a thread) \<Rightarrow> nat" where
  "helpers b f = card {t. helper b (f t)}"

definition wakes_ok :: "bool \<Rightarrow> ('t :: finite, 'a) pcq_system \<Rightarrow> bool" where
  "wakes_ok b s \<longleftrightarrow> (\<exists>t. waiting b (thread s t)) \<longrightarrow> available b (queue s) \<le> helpers b (thread s)"

lemma helpers_update:
  fixes f :: "'t :: finite \<Rightarrow> 'a thread"
  shows "helpers b (f(t := th)) + (if helper b (f t) then 1 else 0) = helpers b f + (if helper b th then 1 else 0)"
proof -
  let ?A = "{u. u \<noteq> t \<and> helper b (f u)}"
  have card: "card {u. helper b (g u)} = card ?A + (if helper b (g t) then 1 else 0)"
    if "\<And>u. u \<noteq> t \<Longrightarrow> g u = f u" for g :: "'t \<Rightarrow> 'a thread"
  proof -
    have "{u. helper b (g u)} = (if helper b (g t) then insert t ?A else ?A)"
      using that by (auto split: if_splits) metis+
    then show ?thesis by simp
  qed
  show ?thesis
    using card [of f] card [of "f(t := th)"] by (simp add: helpers_def)
qed

text \<open>One thread moves; nothing else is needed for most of the steps.\<close>

lemma wakes_move:
  assumes "wakes_ok b s" and "thread s' = (thread s)(t := th)"
    and "available b (queue s') = 0 \<or>
      (waiting b th \<longrightarrow> waiting b (thread s t)) \<and>
      available b (queue s') + (if helper b (thread s t) then 1 else 0) \<le>
      available b (queue s) + (if helper b th then 1 else 0)"
  shows "wakes_ok b s'"
  unfolding wakes_ok_def
proof
  assume "\<exists>u. waiting b (thread s' u)"
  then obtain u where u: "waiting b (((thread s)(t := th)) u)"
    unfolding assms(2) by blast
  show "available b (queue s') \<le> helpers b (thread s')"
  proof (cases "available b (queue s') = 0")
    case False
    with assms(3) u have "\<exists>u. waiting b (thread s u)"
      by (auto split: if_splits)
    then have "available b (queue s) \<le> helpers b (thread s)"
      using assms(1) by (simp add: wakes_ok_def)
    then show ?thesis
      using assms(3) False helpers_update [of b "thread s" t th] unfolding assms(2) by linarith
  qed simp
qed

lemma available_other [simp]:
  "available b (store_elem x q) = available b q" "available b (advance_tail q) = available b q"
  "available b (advance_head q) = available b q"
  by (simp_all add: available_def pcq_ops)

lemma cond_wait_at_5: "next_instr call 5 = Some (Cond_wait (own_cond call) (own_lock call))"
  by (simp add: next_instr_iff)

lemma not_waiting_with_lock:
  assumes "locks_ok s" and "thread s t = Thread call 16 Awake e" and "\<And>u. \<not> sleeps_on (peer_cond call) (thread s u)"
  shows "\<not> waiting (\<not> consumer call) (thread s u)"
proof
  assume w: "waiting (\<not> consumer call) (thread s u)"
  then obtain c pc md e' where u: "thread s u = Thread c pc md e'" and c: "consumer c \<noteq> consumer call"
    and md: "md = Asleep \<or> md = Awake \<and> (pc = 4 \<or> pc = 5)"
    by (cases "thread s u") auto
  have cond: "own_cond c = peer_cond call" "own_lock c = peer_lock call"
    using c by (cases c; cases call; simp)+
  from md show False
  proof
    assume "md = Asleep"
    with u have "pc = 5"
      using locks_ok_thread(2) [OF assms(1) u] by simp
    then have "sleeps_on (peer_cond call) (thread s u)"
      using u \<open>md = Asleep\<close> cond by (simp add: sleeps_on_def cond_wait_at_5)
    with assms(3) show False by blast
  next
    assume "md = Awake \<and> (pc = 4 \<or> pc = 5)"
    then have "owner s (peer_lock call) = Some u"
      using assms(1) u cond by (auto simp: locks_ok_def)
    moreover have "owner s (peer_lock call) = Some t"
      using assms(1,2) by (auto simp: locks_ok_def)
    ultimately have "u = t" by simp
    with assms(2) u c show False by simp
  qed
qed

lemma wakes_signal_nobody:
  assumes "locks_ok s" and "wakes_ok b s" and "thread s t = Thread call 16 Awake e"
    and "\<And>u. \<not> sleeps_on (peer_cond call) (thread s u)"
  shows "wakes_ok b (set_thread t (Thread call 17 Awake e) s)"
proof (cases "b = consumer call")
  case True
  then show ?thesis
    using assms(3) by (intro wakes_move [OF assms(2)]) auto
next
  case False
  then have "\<not> waiting b (thread s u)" for u
    using not_waiting_with_lock [OF assms(1,3,4), of u] by (cases b) auto
  then show ?thesis
    by (auto simp: wakes_ok_def)
qed

lemma wakes_signal:
  assumes "wakes_ok b s" and "thread s t = Thread call 16 Awake e" and "locks_ok s"
    and u: "sleeps_on (peer_cond call) (thread s u)"
  shows "wakes_ok b (set_thread u (wake (thread s u)) (set_thread t (Thread call 17 Awake e) s))"
proof -
  obtain c pc e' where th: "thread s u = Thread c pc Asleep e'" and c: "next_instr c pc = Some (Cond_wait (peer_cond call) (own_lock c))"
    using u by (auto simp: sleeps_on_def instr_at split: thread.splits mode.splits option.splits instr.splits)
  have kind: "consumer c \<noteq> consumer call"
    using c by (cases c; cases call) (auto simp: instr_at)
  have "u \<noteq> t"
    using th assms(2) by auto
  define f where "f = (thread s)(u := wake (thread s u))"
  have N: "helpers b (f(t := Thread call 17 Awake e)) + (if helper b (f t) then 1 else 0) =
      helpers b (thread s) + (if helper b (wake (thread s u)) then 1 else 0)"
    using helpers_update [of b f t "Thread call 17 Awake e"] helpers_update [of b "thread s" u "wake (thread s u)"]
    by (simp add: f_def th)
  have eq: "thread (set_thread u (wake (thread s u)) (set_thread t (Thread call 17 Awake e) s)) = f(t := Thread call 17 Awake e)"
    using \<open>u \<noteq> t\<close> by (simp add: f_def fun_upd_twist)
  have le: "helpers b (thread s) \<le> helpers b (f(t := Thread call 17 Awake e))"
    using N kind \<open>u \<noteq> t\<close> by (cases b) (auto simp: f_def th assms(2) split: if_splits)
  have "waiting b (thread s v)" if "waiting b ((f(t := Thread call 17 Awake e)) v)" for v
    using that by (auto simp: f_def th split: if_splits)
  then have "available b (queue s) \<le> helpers b (f(t := Thread call 17 Awake e))"
    if "waiting b ((f(t := Thread call 17 Awake e)) v)" for v
    using assms(1) le that unfolding wakes_ok_def by (meson order_trans)
  then show ?thesis
    unfolding wakes_ok_def eq by (simp only: set_thread_simps) blast
qed

section \<open>The steps\<close>

lemma size_in_section:
  assumes "locks_ok s" and "settled_at q0 s"
  shows "thread s t = Thread (Enqueue x) 12 Awake e \<Longrightarrow> pcq_current_size (queue s) < pcq_capacity (queue s)"
    and "thread s t = Thread Dequeue 12 Awake e \<Longrightarrow> 0 < pcq_current_size (queue s)"
proof -
  show "pcq_current_size (queue s) < pcq_capacity (queue s)" if th: "thread s t = Thread (Enqueue x) 12 Awake e"
    using size_owner [OF assms(1) th] assms(2) th
    by (auto simp: settled_at_def pcq_full_def pcq_wf_def pcq_ops)
  show "0 < pcq_current_size (queue s)" if th: "thread s t = Thread Dequeue 12 Awake e"
    using size_owner [OF assms(1) th] assms(2) th
    by (auto simp: settled_at_def pcq_empty_def pcq_ops)
qed

lemma wakes_step:
  "pcq_step s s' \<Longrightarrow> locks_ok s \<Longrightarrow> settled_at q0 s \<Longrightarrow> wakes_ok b s \<Longrightarrow> wakes_ok b s'"
proof (induction rule: pcq_step.induct)
  case (step_signal s t call pc e c u)
  then show ?case
    using wakes_signal [of b s t call e u] by (simp add: instr_at)
next
  case (step_signal_nobody s t call pc e c)
  then show ?case
    using wakes_signal_nobody [of s b t call e] by (simp add: instr_at)
next
  case (step_lock s t call pc e m)
  then show ?case
    by (intro wakes_move [OF step_lock.prems(3)]) (auto simp: instr_at)
next
  case (step_unlock s t call pc e m)
  then show ?case
    by (intro wakes_move [OF step_unlock.prems(3)]) (auto simp: instr_at)
next
  case (step_while_full s t call pc e k)
  then show ?case
    by (intro wakes_move [OF step_while_full.prems(3)]) (auto simp: instr_at available_def pcq_full_def split: if_splits)
next
  case (step_while_empty s t call pc e k)
  then show ?case
    by (intro wakes_move [OF step_while_empty.prems(3)]) (auto simp: instr_at available_def pcq_empty_def split: if_splits)
next
  case (step_incr s t x pc e)
  then have "thread s t = Thread (Enqueue x) 12 Awake e" and pc: "pc = 12"
    by (simp_all add: instr_at)
  with size_in_section(1) [OF step_incr.prems(1,2)] show ?case
    unfolding pc by (intro wakes_move [OF step_incr.prems(3)]) (auto simp: available_def incr_size_def)
next
  case (step_decr s t call pc x)
  then have "thread s t = Thread Dequeue 12 Awake (Some x)" and pc: "pc = 12" "call = Dequeue"
    by (simp_all add: instr_at)
  with size_in_section(2) [OF step_decr.prems(1,2)] show ?case
    unfolding pc by (intro wakes_move [OF step_decr.prems(3)]) (auto simp: available_def decr_size_def)
next
  case (step_spurious s t call pc e)
  then show ?case
    by (intro wakes_move [OF step_spurious.prems(3)]) auto
qed (rule wakes_move, assumption, simp, auto simp: instr_at)+

section \<open>Reachable states\<close>

definition pcq_start :: "'a pc_queue_t \<Rightarrow> ('t, 'a) pcq_system" where
  "pcq_start q = \<lparr>queue = q, owner = (\<lambda>m. None), thread = (\<lambda>t. Idle), added = [], removed = []\<rparr>"

definition pcq_inv :: "('t :: finite, 'a) pcq_system \<Rightarrow> bool" where
  "pcq_inv s \<longleftrightarrow> locks_ok s \<and> (\<exists>q0. settled_at q0 s) \<and> wakes_ok True s \<and> wakes_ok False s"

lemma pcq_inv_start: "pcq_wf q \<Longrightarrow> ring q = [] \<Longrightarrow> pcq_inv (pcq_start q)"
  by (auto simp: pcq_inv_def pcq_start_def locks_ok_def settled_at_def wakes_ok_def)

lemma pcq_inv_step: "pcq_step s s' \<Longrightarrow> pcq_inv s \<Longrightarrow> pcq_inv s'"
  unfolding pcq_inv_def using locks_ok_step settled_step wakes_step by blast

lemma pcq_inv_reachable: "pcq_step\<^sup>*\<^sup>* s s' \<Longrightarrow> pcq_inv s \<Longrightarrow> pcq_inv s'"
  by (induction rule: rtranclp_induct) (auto intro: pcq_inv_step)

section \<open>Threads that can move\<close>

fun wants :: "'a thread \<Rightarrow> pcq_mutex option" where
  "wants Idle = None"
| "wants (Thread call pc md e) =
     (case md of
        Awake \<Rightarrow> (case next_instr call pc of Some (Lock m) \<Rightarrow> Some m | _ \<Rightarrow> None)
      | Asleep \<Rightarrow> None
      | Woken \<Rightarrow> Some (own_lock call))"

definition rests :: "'a thread \<Rightarrow> bool" where
  "rests th \<longleftrightarrow> th = Idle \<or> (\<exists>call pc e. th = Thread call pc Asleep e)"

definition can_move :: "('t, 'a) pcq_system \<Rightarrow> 't \<Rightarrow> bool" where
  "can_move s t \<longleftrightarrow> \<not> rests (thread s t) \<and> (\<forall>m. wants (thread s t) = Some m \<longrightarrow> owner s m = None)"

text \<open>The order in which the locks are taken.\<close>

fun lock_depth :: "pcq_mutex \<Rightarrow> nat" where
  "lock_depth Pcq_pusher_condvar_lock = 0"
| "lock_depth Pcq_popper_condvar_lock = 0"
| "lock_depth Pcq_current_size_lock = 1"
| "lock_depth Pcq_tail_lock = 2"
| "lock_depth Pcq_head_lock = 2"

lemma wants_deeper:
  assumes "thread_ok th" and "holds th m" and "wants th = Some k"
  shows "lock_depth m < lock_depth k"
proof (cases th)
  case (Thread call pc md e)
  then have "md = Awake" and "next_instr call pc = Some (Lock k)"
    using assms(2,3) by (auto split: option.splits instr.splits)
  then show ?thesis
    using assms(2) unfolding Thread by (cases call) (auto simp: instr_at)
qed (use assms in simp)

lemma holder_active: "holds th m \<Longrightarrow> \<not> rests th"
  by (cases th) (auto simp: rests_def)

lemma lock_depth_le: "lock_depth m \<le> 2"
  by (cases m) auto

text \<open>Somebody can move as long as a lock is held, and as long as anybody is between calls and sleep.\<close>

lemma holder_leads_to_mover:
  "locks_ok s \<Longrightarrow> owner s m = Some t \<Longrightarrow> \<exists>u. can_move s u"
proof (induction "2 - lock_depth m" arbitrary: m t rule: less_induct)
  case less
  then have h: "holds (thread s t) m" and ok: "thread_ok (thread s t)"
    by (auto simp: locks_ok_def)
  show ?case
  proof (cases "can_move s t")
    case False
    then obtain k u where k: "wants (thread s t) = Some k" "owner s k = Some u"
      using holder_active [OF h] by (auto simp: can_move_def)
    then have "lock_depth m < lock_depth k"
      using wants_deeper [OF ok h] by blast
    then show ?thesis
      using less.hyps [of k u] less.prems(1) k(2) lock_depth_le [of k] by force
  qed blast
qed

lemma nobody_moves_all_rest:
  assumes "locks_ok s" and "\<And>u. \<not> can_move s u"
  shows "rests (thread s t)"
proof (rule ccontr)
  assume "\<not> rests (thread s t)"
  with assms(2) [of t] obtain m u where "owner s m = Some u"
    by (auto simp: can_move_def)
  with holder_leads_to_mover [OF assms(1)] assms(2) show False
    by blast
qed

lemma rest_no_helpers:
  "(\<And>t. rests (thread s t)) \<Longrightarrow> helpers b (thread s) = 0"
  unfolding helpers_def by (auto simp: rests_def) (metis helper.simps mode.distinct(1,5))

lemma asleep_waiting: "sleeps_on c th \<Longrightarrow> waiting (c = Pcq_popper_condvar) th"
  by (cases th)
    (auto simp: sleeps_on_def instr_at split: mode.splits option.splits instr.splits; case_tac x21; simp)+

lemma quiet_system:
  assumes "pcq_inv s" and "\<And>t. \<not> can_move s t"
  shows "sleeps_on Pcq_popper_condvar (thread s t) \<Longrightarrow> pcq_empty (queue s)"
    and "sleeps_on Pcq_pusher_condvar (thread s t) \<Longrightarrow> pcq_full (queue s)"
proof -
  have inv: "locks_ok s" "wakes_ok True s" "wakes_ok False s"
    using assms(1) by (simp_all add: pcq_inv_def)
  have rest: "rests (thread s u)" for u
    using nobody_moves_all_rest [OF inv(1) assms(2)] .
  then have N: "helpers b (thread s) = 0" for b
    by (rule rest_no_helpers)
  show "pcq_empty (queue s)" if "sleeps_on Pcq_popper_condvar (thread s t)"
    using asleep_waiting [OF that] inv(2) N [of True] by (auto simp: wakes_ok_def available_def pcq_empty_def)
  have "owner s Pcq_current_size_lock = None"
    using holder_leads_to_mover [OF inv(1)] assms(2) by (cases "owner s Pcq_current_size_lock") auto
  then have "pcq_wf (queue s)"
    using assms(1) by (auto simp: pcq_inv_def settled_at_def)
  then show "pcq_full (queue s)" if "sleeps_on Pcq_pusher_condvar (thread s t)"
    using asleep_waiting [OF that] inv(3) N [of False]
    by (auto simp: wakes_ok_def available_def pcq_full_def pcq_wf_def)
qed

end
