(* ===== verification/PC_Props.thy ===== *)
theory PC_Props
  imports PC_Progress
begin

text \<open>
  The properties of the producer-consumer queue: it is a first-in first-out queue whatever the
  interleaving of its threads, its accesses stay inside the buffer, its threads cannot block each
  other for ever, and no thread sleeps while what it waits for is there.
\<close>

section \<open>Library\<close>

lemma midway_capacity: "midway th q0 q \<Longrightarrow> pcq_capacity q = pcq_capacity q0"
  by (induction th q0 q rule: midway.induct) (auto simp: pcq_ops split: if_splits)

lemma settled_capacity: "settled_at q0 s \<Longrightarrow> pcq_capacity q0 = pcq_capacity (queue s)"
  by (auto simp: settled_at_def midway_capacity split: option.splits)

lemma step_capacity: "pcq_step s s' \<Longrightarrow> pcq_capacity (queue s') = pcq_capacity (queue s)"
  by (induction rule: pcq_step.induct) (simp_all add: pcq_ops)

lemma steps_capacity: "pcq_step\<^sup>*\<^sup>* s s' \<Longrightarrow> pcq_capacity (queue s') = pcq_capacity (queue s)"
  by (induction rule: rtranclp_induct) (simp_all add: step_capacity)

text \<open>What is in the queue according to the history.\<close>

definition contents :: "('t, 'a) pcq_system \<Rightarrow> 'a list" where
  "contents s = drop (length (removed s)) (added s)"


lemma contents_settled: "settled_at q0 s \<Longrightarrow> contents s = ring q0"
  by (simp add: contents_def settled_at_def)

lemma created_inv:
  assumes "pcq_create (Some g) (Some q) capacity = (0, Some q')"
  shows "pcq_inv (pcq_start q' :: ('t :: finite, 'a) pcq_system)" and "pcq_capacity q' = capacity" and "0 < capacity"
proof -
  show "0 < capacity"
    using assms by (auto simp: pcq_create_def split: if_splits)
  then have "pcq_wf q'" "ring q' = []" "pcq_capacity q' = capacity"
    using pcq_create_wf [of capacity g q] assms by auto
  then show "pcq_inv (pcq_start q' :: ('t :: finite, 'a) pcq_system)" "pcq_capacity q' = capacity"
    by (auto intro: pcq_inv_start)
qed

lemma reachable_inv:
  assumes "pcq_create (Some g) (Some q) capacity = (0, Some q')" and "pcq_step\<^sup>*\<^sup>* (pcq_start q') s"
  shows "pcq_inv s" and "pcq_capacity (queue s) = capacity"
  using pcq_inv_reachable [OF assms(2)] created_inv [OF assms(1)] steps_capacity [OF assms(2)]
  by (simp_all add: pcq_start_def)

text \<open>In every state the indices are inside the buffer.\<close>

lemma midway_bounds:
  assumes "pcq_wf q0" and "midway th q0 q"
  shows "\<exists>b. pcq_buffer q = Some b \<and> length b = pcq_capacity q \<and> pcq_head q < pcq_capacity q \<and> pcq_tail q < pcq_capacity q"
  using assms by (induction th q0 q rule: midway.induct) (auto simp: pcq_wf_def pcq_ops split: if_splits)

lemma inv_bounds:
  assumes "pcq_inv s"
  shows "\<exists>b. pcq_buffer (queue s) = Some b \<and> length b = pcq_capacity (queue s) \<and>
    pcq_head (queue s) < pcq_capacity (queue s) \<and> pcq_tail (queue s) < pcq_capacity (queue s)"
proof -
  obtain q0 where q0: "settled_at q0 s"
    using assms by (auto simp: pcq_inv_def)
  show ?thesis
  proof (cases "owner s Pcq_current_size_lock")
    case None
    with q0 show ?thesis by (auto simp: settled_at_def pcq_wf_def)
  next
    case (Some t)
    with q0 have "pcq_wf q0" "midway (thread s t) q0 (queue s)"
      by (simp_all add: settled_at_def)
    then show ?thesis by (rule midway_bounds)
  qed
qed

text \<open>A thread that can move makes a step.\<close>

lemma null_step:
  assumes th: "thread s t = Thread call pc Awake e" and i: "next_instr call pc = Some Return_if_null"
  shows "\<exists>s'. pcq_step s s' \<and> thread s' t \<noteq> thread s t"
proof (cases "pcq_buffer (queue s)")
  case None
  with step_null [OF th i] th show ?thesis by auto
next
  case (Some b)
  with step_not_null [OF th i] th show ?thesis
    by (intro exI [of _ "set_thread t (Thread call (Suc pc) Awake e) s"]) auto
qed

lemma signal_step:
  assumes th: "thread s t = Thread call pc Awake e" and i: "next_instr call pc = Some (Cond_signal c)"
  shows "\<exists>s'. pcq_step s s' \<and> thread s' t \<noteq> thread s t"
proof (cases "\<exists>u. sleeps_on c (thread s u)")
  case True
  then obtain u where u: "sleeps_on c (thread s u)" by blast
  then have "u \<noteq> t"
    using th by (auto simp: sleeps_on_def)
  then show ?thesis
    using step_signal [OF th i u] th
    by (intro exI [of _ "set_thread u (wake (thread s u)) (set_thread t (Thread call (Suc pc) Awake e) s)"]) auto
next
  case False
  with step_signal_nobody [OF th i] th show ?thesis
    by (intro exI [of _ "set_thread t (Thread call (Suc pc) Awake e) s"]) auto
qed

lemma moved:
  "pcq_step s s' \<Longrightarrow> thread s t = Thread call pc md e \<Longrightarrow> thread s' t \<noteq> Thread call pc md e \<Longrightarrow>
    \<exists>s'. pcq_step s s' \<and> thread s' t \<noteq> thread s t"
  by auto

lemma awake_step:
  assumes th: "thread s t = Thread call pc Awake e" and i: "next_instr call pc = Some i"
    and free: "\<And>m. i = Lock m \<Longrightarrow> owner s m = None" and elem: "i = Decr_size \<Longrightarrow> \<exists>x. e = Some x"
  shows "\<exists>s'. pcq_step s s' \<and> thread s' t \<noteq> thread s t"
  using i
proof (cases i)
  case Incr_size
  with i obtain x where "call = Enqueue x"
    by (auto simp: instr_at)
  with th i Incr_size show ?thesis
    by (intro moved [OF step_incr]) auto
next
  case Decr_size
  then obtain x where "e = Some x"
    using elem by blast
  with th i Decr_size show ?thesis
    by (intro moved [OF step_decr]) auto
next
  case (While_full k)
  with th i show ?thesis
    by (intro moved [OF step_while_full [OF th]]) (auto simp: instr_at)
next
  case (While_empty k)
  with th i show ?thesis
    by (intro moved [OF step_while_empty [OF th]]) (auto simp: instr_at)
next
  case (Goto k)
  with th i show ?thesis
    by (intro moved [OF step_goto [OF th]]) (auto simp: instr_at)
qed (rule null_step [OF th] signal_step [OF th] moved [OF step_lock [OF th] th] moved [OF step_unlock [OF th] th]
  moved [OF step_wait [OF th] th] moved [OF step_store [OF th] th] moved [OF step_advance_tail [OF th] th]
  moved [OF step_load [OF th] th] moved [OF step_advance_head [OF th] th] moved [OF step_return [OF th] th],
  use free in simp_all)+

lemma can_move_step:
  assumes "pcq_inv s" and "can_move s t"
  shows "\<exists>s'. pcq_step s s' \<and> thread s' t \<noteq> thread s t"
proof -
  have ok: "locks_ok s"
    using assms(1) by (simp add: pcq_inv_def)
  obtain call pc md e where th: "thread s t = Thread call pc md e" and md: "md \<noteq> Asleep"
    using assms(2) by (cases "thread s t") (auto simp: can_move_def rests_def)
  show ?thesis
  proof (cases md)
    case Woken
    then have "next_instr call pc = Some (Cond_wait (own_cond call) (own_lock call))"
      using locks_ok_thread(2) [OF ok th] by (simp add: cond_wait_at_5)
    moreover have "owner s (own_lock call) = None"
      using assms(2) th Woken by (simp add: can_move_def)
    ultimately show ?thesis
      using th [unfolded Woken] by (intro moved [OF step_rewait [OF th [unfolded Woken]]]) auto
  next
    case Awake
    note th = th [unfolded Awake]
    obtain i where i: "next_instr call pc = Some i"
      using locks_ok_thread(1) [OF ok th] next_instr_exists by metis
    have "\<exists>x. e = Some x" if "i = Decr_size"
    proof -
      have at: "thread s t = Thread Dequeue 12 Awake e"
        using th i that by (simp add: instr_at)
      then show ?thesis
        using assms(1) size_owner [OF ok at] by (auto simp: pcq_inv_def settled_at_def)
    qed
    moreover have "owner s m = None" if "i = Lock m" for m
      using assms(2) th i that by (simp add: can_move_def)
    ultimately show ?thesis
      using awake_step [OF th i] by blast
  qed (use md in simp)
qed


section \<open>Runs without interference\<close>

text \<open>
  A single call in a system at rest: \<^verbatim>\<open>pcq_dequeue\<close> on an empty queue goes to sleep, \<^verbatim>\<open>pcq_enqueue\<close>
  up to the point where the element is counted.
\<close>

lemma set_thread_collapse:
  "set_thread t a (set_thread t b s) = set_thread t a s"
  "set_thread t a (set_owner m u s) = set_owner m u (set_thread t a s)"
  by (simp_all add: set_thread_def set_owner_def)

lemma set_owner_collapse:
  "set_owner m u (set_owner m v s) = set_owner m u s"
  "owner s m = u \<Longrightarrow> set_owner m u s = s"
  by (auto simp: set_owner_def fun_upd_idem intro!: pcq_system.equality)

lemma consumer_falls_asleep:
  assumes "thread s t = Idle" and "\<And>m. owner s m = None" and "pcq_buffer (queue s) \<noteq> None" and "pcq_empty (queue s)"
  shows "pcq_step\<^sup>*\<^sup>* s (set_thread t (Thread Dequeue 5 Asleep None) s)"
proof -
  let ?th = "\<lambda>pc. Thread Dequeue pc Awake None"
  let ?s = "\<lambda>pc. set_thread t (?th pc) s"
  let ?p = "Some t" and ?P = Pcq_popper_condvar_lock and ?S = Pcq_current_size_lock
  note [trans] = rtranclp.rtrancl_into_rtrancl [of pcq_step]
  have "pcq_step\<^sup>*\<^sup>* s (?s 0)"
    using assms(1) by (intro r_into_rtranclp step_call)
  also have "pcq_step (?s 0) (?s 1)"
    using step_not_null [of "?s 0" t Dequeue 0 None] assms(3) by (simp add: instr_at set_thread_collapse set_owner_collapse eval_nat_numeral)
  also have "pcq_step (?s 1) (set_owner ?P ?p (?s 2))"
    using step_lock [of "?s 1" t Dequeue 1 None ?P] assms(2) by (simp add: instr_at set_thread_collapse set_owner_collapse eval_nat_numeral)
  also have "pcq_step (set_owner ?P ?p (?s 2)) (set_owner ?S ?p (set_owner ?P ?p (?s 3)))"
    using step_lock [of "set_owner ?P ?p (?s 2)" t Dequeue 2 None ?S] assms(2)
    by (simp add: instr_at set_thread_collapse set_owner_collapse eval_nat_numeral)
  also have "pcq_step (set_owner ?S ?p (set_owner ?P ?p (?s 3))) (set_owner ?S ?p (set_owner ?P ?p (?s 4)))"
    using step_while_empty [of "set_owner ?S ?p (set_owner ?P ?p (?s 3))" t Dequeue 3 None 8] assms(4)
    by (simp add: instr_at set_thread_collapse set_owner_collapse eval_nat_numeral)
  also have "pcq_step (set_owner ?S ?p (set_owner ?P ?p (?s 4))) (set_owner ?P ?p (?s 5))"
    using step_unlock [of "set_owner ?S ?p (set_owner ?P ?p (?s 4))" t Dequeue 4 None ?S] assms(2)
    by (simp add: instr_at set_thread_collapse set_owner_collapse eval_nat_numeral)
  also have "pcq_step (set_owner ?P ?p (?s 5)) (set_thread t (Thread Dequeue 5 Asleep None) s)"
    using step_wait [of "set_owner ?P ?p (?s 5)" t Dequeue 5 None Pcq_popper_condvar ?P] assms(2)
    by (simp add: instr_at set_thread_collapse set_owner_collapse eval_nat_numeral)
  finally show ?thesis .
qed

text \<open>A queue for two numbers and a consumer that has gone to sleep on it.\<close>

definition demo_queue :: "nat pc_queue_t" where
  "demo_queue = \<lparr>pcq_buffer = Some [7, 7], pcq_capacity = 2, pcq_current_size = 0, pcq_head = 0, pcq_tail = 0\<rparr>"

definition demo_sleep :: "(bool, nat) pcq_system" where
  "demo_sleep = set_thread True (Thread Dequeue 5 Asleep None) (pcq_start demo_queue)"

lemma demo_created: "pcq_create (Some (\<lambda>_. 7)) (Some demo_queue) 2 = (0, Some demo_queue)"
  by (simp add: pcq_create_def demo_queue_def eval_nat_numeral)

lemma demo_sleep_reachable: "pcq_step\<^sup>*\<^sup>* (pcq_start demo_queue) demo_sleep"
  unfolding demo_sleep_def
  by (rule consumer_falls_asleep) (simp_all add: pcq_start_def demo_queue_def pcq_empty_def)

lemma demo_sleep_rests: "rests (thread demo_sleep t)"
  by (simp add: demo_sleep_def pcq_start_def rests_def)

lemma demo_sleep_asleep: "sleeps_on Pcq_popper_condvar (thread demo_sleep True)"
  by (simp add: demo_sleep_def sleeps_on_def cond_wait_at_5)

section \<open>Properties\<close>



text \<open>
  C17. First in, first out. In every state that the threads can reach from a newly created queue, the
  elements that consumers have taken out are, in order, the first of those that producers have put
  in, and at most as many as the queue has slots are still inside.
\<close>

theorem pcq_fifo_order:
  fixes s :: "('t :: finite, 'a) pcq_system"
  assumes "pcq_create (Some g) (Some q) capacity = (0, Some q')" and "pcq_step\<^sup>*\<^sup>* (pcq_start q') s"
  shows "\<exists>inside. added s = removed s @ inside \<and> length inside \<le> capacity"
proof -
  note inv = reachable_inv [OF assms]
  obtain q0 where q0: "settled_at q0 s"
    using inv(1) by (auto simp: pcq_inv_def)
  then show ?thesis
    using settled_capacity [OF q0] inv(2) by (intro exI [of _ "ring q0"]) (auto simp: settled_at_def pcq_wf_def)
qed

theorem pcq_fifo_order_witness: "\<exists>inside. added demo_sleep = removed demo_sleep @ inside \<and> length inside \<le> 2"
  using pcq_fifo_order [OF demo_created demo_sleep_reachable] .

text \<open>
  C16. Memory safety and mutual exclusion of the queue. In every reachable state the buffer has as
  many slots as the capacity, both indices are inside it, a thread only unlocks a mutex that it
  owns, and only the owner of the size lock is at an instruction that changes the queue.
\<close>

theorem pcq_exclusive_access:
  fixes s :: "('t :: finite, 'a) pcq_system"
  assumes "pcq_create (Some g) (Some q) capacity = (0, Some q')" and "pcq_step\<^sup>*\<^sup>* (pcq_start q') s"
    and "thread s t = Thread call pc Awake e" and "next_instr call pc = Some i"
  shows "(\<exists>b. pcq_buffer (queue s) = Some b \<and> length b = capacity) \<and>
    pcq_head (queue s) < capacity \<and> pcq_tail (queue s) < capacity \<and>
    (\<forall>m. i = Unlock m \<longrightarrow> owner s m = Some t) \<and>
    (i \<in> {Store x, Load, Advance_tail, Advance_head, Incr_size, Decr_size} \<longrightarrow> owner s Pcq_current_size_lock = Some t)"
proof -
  note inv = reachable_inv [OF assms(1,2)]
  have own: "owner s m = Some t" if "holds (Thread call pc Awake e) m" for m
    using inv(1) assms(3) that by (auto simp: pcq_inv_def locks_ok_def)
  have "owner s m = Some t" if "i = Unlock m" for m
    using own [of m] assms(4) that by (auto simp: instr_at)
  moreover have "owner s Pcq_current_size_lock = Some t"
    if "i \<in> {Store x, Load, Advance_tail, Advance_head, Incr_size, Decr_size}"
    using own [of Pcq_current_size_lock] assms(4) that by (auto simp: instr_at)
  ultimately show ?thesis
    using inv_bounds [OF inv(1)] inv(2) by auto
qed

theorem pcq_exclusive_access_witness:
  "(\<exists>b. pcq_buffer demo_queue = Some b \<and> length b = 2) \<and> pcq_head demo_queue < 2 \<and> pcq_tail demo_queue < 2"
  using pcq_exclusive_access [OF demo_created, of "set_thread False (Thread Dequeue 0 Awake None) demo_sleep" False Dequeue 0 None Return_if_null]
    rtranclp.rtrancl_into_rtrancl [OF demo_sleep_reachable step_call [of _ False Dequeue]]
  by (auto simp: instr_at demo_sleep_def pcq_start_def)

text \<open>
  C15. The threads of the queue cannot block each other: as long as some thread is inside a call and
  not asleep on a condition variable, some thread that is inside a call and not asleep makes a step.
\<close>

theorem pcq_deadlock_free:
  fixes s :: "('t :: finite, 'a) pcq_system"
  assumes "pcq_create (Some g) (Some q) capacity = (0, Some q')" and "pcq_step\<^sup>*\<^sup>* (pcq_start q') s"
    and "\<not> rests (thread s t)"
  shows "\<exists>u s'. \<not> rests (thread s u) \<and> pcq_step s s' \<and> thread s' u \<noteq> thread s u"
proof -
  note inv = reachable_inv [OF assms(1,2)]
  obtain u where u: "can_move s u"
    using nobody_moves_all_rest [of s t] inv(1) assms(3) by (auto simp: pcq_inv_def)
  then show ?thesis
    using can_move_step [OF inv(1) u] by (auto simp: can_move_def)
qed

theorem pcq_deadlock_free_witness:
  "\<exists>u s'. \<not> rests (thread (set_thread False (Thread Dequeue 0 Awake None) demo_sleep) u) \<and>
    pcq_step (set_thread False (Thread Dequeue 0 Awake None) demo_sleep) s' \<and>
    thread s' u \<noteq> thread (set_thread False (Thread Dequeue 0 Awake None) demo_sleep) u"
  by (rule pcq_deadlock_free [OF demo_created, where t = False])
    (rule rtranclp.rtrancl_into_rtrancl [OF demo_sleep_reachable step_call],
     simp_all add: demo_sleep_def pcq_start_def rests_def)

text \<open>
  C14. No lost wake-up. When every thread is outside a call or asleep, a consumer sleeps only if the
  queue is empty (all that was put in has been taken out), and a producer sleeps only if it is full;
  so producers and consumers are never all asleep together.
\<close>

theorem pcq_no_lost_wakeup:
  fixes s :: "('t :: finite, 'a) pcq_system"
  assumes "pcq_create (Some g) (Some q) capacity = (0, Some q')" and "pcq_step\<^sup>*\<^sup>* (pcq_start q') s"
    and "\<And>t. rests (thread s t)"
  shows "(sleeps_on Pcq_popper_condvar (thread s c) \<longrightarrow> added s = removed s) \<and>
    (sleeps_on Pcq_pusher_condvar (thread s p) \<longrightarrow> length (contents s) = capacity) \<and>
    \<not> (sleeps_on Pcq_popper_condvar (thread s c) \<and> sleeps_on Pcq_pusher_condvar (thread s p))"
proof -
  note inv = reachable_inv [OF assms(1,2)]
  have nobody: "\<not> can_move s t" for t
    using assms(3) by (simp add: can_move_def)
  have ok: "locks_ok s"
    using inv(1) by (simp add: pcq_inv_def)
  have "owner s Pcq_current_size_lock = None"
    using holder_leads_to_mover [OF ok] nobody by (cases "owner s Pcq_current_size_lock") auto
  then have wf: "settled_at (queue s) s"
    using inv(1) by (auto simp: pcq_inv_def settled_at_def)
  have size: "length (contents s) = pcq_current_size (queue s)" "added s = removed s @ contents s"
    using contents_settled [OF wf] wf by (simp_all add: settled_at_def)
  have "0 < capacity"
    using created_inv(3) [OF assms(1)] .
  then show ?thesis
    using quiet_system [OF inv(1) nobody] size inv(2) by (auto simp: pcq_empty_def pcq_full_def)
qed

theorem pcq_no_lost_wakeup_witness:
  "sleeps_on Pcq_popper_condvar (thread demo_sleep True) \<and> added demo_sleep = removed demo_sleep"
  using pcq_no_lost_wakeup [OF demo_created demo_sleep_reachable demo_sleep_rests, of True True] demo_sleep_asleep
  by blast

text \<open>
  \<^verbatim>\<open>pcq_create\<close> does not notice that its allocation failed: it reports success for a queue without a
  buffer, on which every later call of \<^verbatim>\<open>pcq_enqueue\<close> or \<^verbatim>\<open>pcq_dequeue\<close> returns at once without doing
  anything and \<^verbatim>\<open>pcq_destroy\<close> fails.
\<close>

theorem pcq_create_ignores_failed_malloc:
  assumes "0 < capacity"
  shows "\<exists>q'. pcq_create None (Some q) capacity = (0, Some q') \<and> pcq_destroy (Some q') = (-1, Some q') \<and>
    (\<forall>t s s'. queue s = q' \<and> thread s t = Thread call 0 Awake e \<and> pcq_step s s' \<and> thread s' t \<noteq> thread s t \<longrightarrow>
      s' = set_thread t Idle s)"
proof -
  have "s' = set_thread t Idle s"
    if "pcq_step s s'" "pcq_buffer (queue s) = None" "thread s t = Thread call 0 Awake e" "thread s' t \<noteq> thread s t"
    for t and s s' :: "('b, 'a) pcq_system"
    using that
  proof (induction rule: pcq_step.induct)
    case (step_signal s t' call' pc e' c u)
    then show ?case by (auto simp: instr_at split: if_splits)
  qed (auto simp: instr_at split: if_splits)
  with assms show ?thesis
    by (auto simp: pcq_create_def pcq_destroy_def)
qed

theorem pcq_create_ignores_failed_malloc_witness:
  "\<exists>q'. pcq_create None (Some demo_queue) 2 = (0, Some q') \<and> pcq_destroy (Some q') = (-1, Some q')"
  using pcq_create_ignores_failed_malloc [of 2 demo_queue Dequeue None] by (meson zero_less_numeral)

end
