(* ===== verification/Boxes.thy ===== *)
theory Boxes
  imports CMemory "HOL-Library.List_Lexorder"
begin

text \<open>
  The structure \<^verbatim>\<open>box_t\<close> of \<^verbatim>\<open>mbroker/mbroker.h\<close>, shared by the server, the manager and the sorting
  routine, and the constants of \<^verbatim>\<open>protocol/protocol.h\<close> its layout depends on. The name is an array
  of 32 bytes, the counters are \<^verbatim>\<open>uint64_t\<close>. The mutex and the condition variable of a box are not
  data: they are lock events (theory \<open>Locks\<close>).

  \<open>strcmp_gt\<close> is the test \<^verbatim>\<open>strcmp(a, b) > 0\<close>. On terminated fields it is the strict
  lexicographic order of the strings, bytes compared as unsigned numbers.
\<close>

definition BOX_NAME_MAX_LEN :: nat where "BOX_NAME_MAX_LEN = 32"

record box_t =
  name :: mem
  box_size :: nat
  n_publishers :: nat
  n_subscribers :: nat

section \<open>Terminated fields\<close>

definition terminated :: "mem \<Rightarrow> bool" where
  "terminated bs \<longleftrightarrow> NUL \<in> set bs"

lemma terminated_simps [simp]:
  "\<not> terminated []"
  "terminated (c # bs) \<longleftrightarrow> c = NUL \<or> terminated bs"
  "terminated (xs @ ys) \<longleftrightarrow> terminated xs \<or> terminated ys"
  by (auto simp: terminated_def)

lemma cstr_simps [simp]:
  "cstr [] = []"
  "cstr (c # bs) = (if c = NUL then [] else c # cstr bs)"
  by (simp_all add: cstr_def)

lemma terminated_length: "terminated bs \<Longrightarrow> length (cstr bs) < length bs"
  by (induction bs) auto

lemma terminated_split: "terminated bs \<Longrightarrow> \<exists>rest. bs = cstr bs @ NUL # rest"
  by (induction bs) auto

lemma cstr_append: "cstr (xs @ ys) = (if terminated xs then cstr xs else xs @ cstr ys)"
  by (induction xs) auto

lemma cstr_at_0 [simp]: "terminated bs \<Longrightarrow> cstr_at bs 0 = Inr (cstr bs)"
  by (simp add: cstr_at_def terminated_def)

lemma cstr_at_unterminated: "\<not> terminated bs \<Longrightarrow> cstr_at bs 0 = Inl OutOfBounds"
  by (simp add: cstr_at_def terminated_def)

lemma strcmp_eq_terminated:
  "terminated xs \<Longrightarrow> terminated ys \<Longrightarrow> strcmp_eq xs ys = Inr (cstr xs = cstr ys)"
  by (induction xs ys rule: strcmp_eq.induct) auto

section \<open>Ordering of strings\<close>

fun strcmp_gt :: "mem \<Rightarrow> mem \<Rightarrow> bool res" where
  "strcmp_gt (x # xs) (y # ys) =
     (if x \<noteq> y then Inr ((of_char y :: nat) < of_char x)
      else if x = NUL then Inr False else strcmp_gt xs ys)"
| "strcmp_gt _ _ = Inl OutOfBounds"

lemma NUL_least: "NUL \<le> (c :: char)"
  by (simp add: less_eq_char_def)

lemma strcmp_gt_terminated:
  "terminated xs \<Longrightarrow> terminated ys \<Longrightarrow> strcmp_gt xs ys = Inr (cstr ys < cstr xs)"
proof (induction xs ys rule: strcmp_gt.induct)
  case (1 x xs y ys)
  have "x \<noteq> NUL \<Longrightarrow> NUL < x" and "y \<noteq> NUL \<Longrightarrow> \<not> y < NUL"
    using NUL_least [of x] NUL_least [of y] by (auto simp: order_less_le)
  then show ?case
    using 1 by (auto simp: less_char_def)
qed auto

end
