(* ===== verification/Protocol.thy ===== *)
theory Protocol
  imports Boxes
begin

text \<open>
  \<^verbatim>\<open>protocol/protocol.c\<close> and \<^verbatim>\<open>protocol/protocol.h\<close>: the message codes and sizes, reading and writing
  named pipes, assembling packets, and the connection request of a client.

  A pipe end is a \<open>fifo\<close>: its bytes (at a reading end those that are still to come before the
  writers have gone, at a writing end those that have been written) and the outcomes of the next
  system calls on it. An outcome is an interruption (\<^verbatim>\<open>EINTR\<close>), an error, or a transfer of fewer
  bytes than asked for; when the list of outcomes is used up every call transfers all it can. So a
  call is interrupted finitely often, and the retry loops are recursions on that list. A read at the
  end of the bytes returns 0.
\<close>

section \<open>Constants\<close>

definition CLIENT_NAMED_PIPE_MAX_LEN :: nat where "CLIENT_NAMED_PIPE_MAX_LEN = 256"
definition MSG_MAX_LEN :: nat where "MSG_MAX_LEN = 1024"
definition PIPE_BUFFER_MAX_LEN :: nat where "PIPE_BUFFER_MAX_LEN = 4096"

definition PROTOCOL_CODE_PUB_REGISTER :: int where "PROTOCOL_CODE_PUB_REGISTER = 1"
definition PROTOCOL_CODE_SUB_REGISTER :: int where "PROTOCOL_CODE_SUB_REGISTER = 2"
definition PROTOCOL_CODE_CREATE_REQUEST :: int where "PROTOCOL_CODE_CREATE_REQUEST = 3"
definition PROTOCOL_CODE_CREATE_ANSWER :: int where "PROTOCOL_CODE_CREATE_ANSWER = 4"
definition PROTOCOL_CODE_REMOVE_REQUEST :: int where "PROTOCOL_CODE_REMOVE_REQUEST = 5"
definition PROTOCOL_CODE_REMOVE_ANSWER :: int where "PROTOCOL_CODE_REMOVE_ANSWER = 6"
definition PROTOCOL_CODE_LIST_REQUEST :: int where "PROTOCOL_CODE_LIST_REQUEST = 7"
definition PROTOCOL_CODE_LIST_ANSWER :: int where "PROTOCOL_CODE_LIST_ANSWER = 8"
definition PROTOCOL_CODE_MESSAGE_RECEIVE :: int where "PROTOCOL_CODE_MESSAGE_RECEIVE = 9"
definition PROTOCOL_CODE_MESSAGE_SEND :: int where "PROTOCOL_CODE_MESSAGE_SEND = 10"

lemmas protocol_codes =
  PROTOCOL_CODE_PUB_REGISTER_def PROTOCOL_CODE_SUB_REGISTER_def
  PROTOCOL_CODE_CREATE_REQUEST_def PROTOCOL_CODE_CREATE_ANSWER_def
  PROTOCOL_CODE_REMOVE_REQUEST_def PROTOCOL_CODE_REMOVE_ANSWER_def
  PROTOCOL_CODE_LIST_REQUEST_def PROTOCOL_CODE_LIST_ANSWER_def
  PROTOCOL_CODE_MESSAGE_RECEIVE_def PROTOCOL_CODE_MESSAGE_SEND_def

lemmas protocol_sizes =
  CLIENT_NAMED_PIPE_MAX_LEN_def MSG_MAX_LEN_def PIPE_BUFFER_MAX_LEN_def BOX_NAME_MAX_LEN_def

text \<open>A request as the server keeps it; the fields that are arrays in C are byte lists.\<close>

record request_t =
  req_code :: int
  client_named_pipe_path :: mem
  req_box_name :: mem

section \<open>Pipes\<close>

datatype sys_outcome = Interrupted | Failed | Short nat

record fifo =
  fifo_bytes :: mem
  fifo_outcomes :: "sys_outcome list"

text \<open>
  One call of \<^verbatim>\<open>read\<close>: the result, whether \<^verbatim>\<open>errno\<close> is \<^verbatim>\<open>EINTR\<close>, and the bytes transferred.
  \<open>Short k\<close> transfers at most \<open>k + 1\<close> bytes.
\<close>

definition transfer_limit :: "nat \<Rightarrow> sys_outcome list \<Rightarrow> nat" where
  "transfer_limit n os = (case os of Short k # _ \<Rightarrow> min n (k + 1) | _ \<Rightarrow> n)"

definition sys_read :: "fifo \<Rightarrow> nat \<Rightarrow> int \<times> bool \<times> mem \<times> fifo" where
  "sys_read p n =
     (let rest = p\<lparr>fifo_outcomes := tl (fifo_outcomes p)\<rparr> in
      case fifo_outcomes p of
        Interrupted # _ \<Rightarrow> (-1, True, [], rest)
      | Failed # _ \<Rightarrow> (-1, False, [], rest)
      | os \<Rightarrow>
          let bs = take (transfer_limit n os) (fifo_bytes p)
          in (int (length bs), False, bs, rest\<lparr>fifo_bytes := drop (length bs) (fifo_bytes p)\<rparr>))"

definition sys_write :: "fifo \<Rightarrow> mem \<Rightarrow> int \<times> bool \<times> fifo" where
  "sys_write p bs =
     (let rest = p\<lparr>fifo_outcomes := tl (fifo_outcomes p)\<rparr> in
      case fifo_outcomes p of
        Interrupted # _ \<Rightarrow> (-1, True, rest)
      | Failed # _ \<Rightarrow> (-1, False, rest)
      | os \<Rightarrow>
          let bs' = take (transfer_limit (length bs) os) bs
          in (int (length bs'), False, rest\<lparr>fifo_bytes := fifo_bytes p @ bs'\<rparr>))"

text \<open>\<^verbatim>\<open>ssize_t\<close> compared with \<^verbatim>\<open>size_t\<close>: the signed operand is converted.\<close>

definition size_of_ssize :: "int \<Rightarrow> nat" where
  "size_of_ssize r = nat (r mod 2 ^ 64)"

function read_loop :: "fifo \<Rightarrow> nat \<Rightarrow> int \<times> mem \<times> fifo" where
  "read_loop p n =
     (case sys_read p n of
        (r, eintr, bs, p') \<Rightarrow>
          if r < 0 \<and> eintr then read_loop p' n else (r, bs, p'))"
  by pat_completeness auto
termination
  by (relation "measure (\<lambda>(p, n). length (fifo_outcomes p))")
    (auto simp: sys_read_def Let_def split: list.splits sys_outcome.splits)

function write_loop :: "fifo \<Rightarrow> mem \<Rightarrow> int \<times> fifo" where
  "write_loop p bs =
     (case sys_write p bs of
        (r, eintr, p') \<Rightarrow> if r < 0 \<and> eintr then write_loop p' bs else (r, p'))"
  by pat_completeness auto
termination
  by (relation "measure (\<lambda>(p, bs). length (fifo_outcomes p))")
    (auto simp: sys_write_def Let_def split: list.splits sys_outcome.splits)

declare read_loop.simps [simp del] write_loop.simps [simp del]

definition pipe_read :: "fifo \<Rightarrow> nat \<Rightarrow> int \<times> mem \<times> fifo" where
  "pipe_read p buf_len =
     (case read_loop p buf_len of
        (read_bytes, bs, p) \<Rightarrow>
          if read_bytes \<noteq> 0 \<and> size_of_ssize read_bytes \<noteq> buf_len then (-1, bs, p)
          else (read_bytes, bs, p))"

definition pipe_write :: "fifo \<Rightarrow> mem \<Rightarrow> int \<times> fifo" where
  "pipe_write p buf =
     (case write_loop p buf of
        (written_bytes, p) \<Rightarrow>
          if size_of_ssize written_bytes \<noteq> length buf then (-1, p) else (written_bytes, p))"

section \<open>Packets\<close>

definition packet_write :: "mem \<Rightarrow> nat \<Rightarrow> mem \<Rightarrow> nat \<Rightarrow> (mem \<times> nat) res" where
  "packet_write packet packet_offset data data_len =
     bindR (mem_read data 0 data_len) (\<lambda>bs.
     bindR (mem_write packet packet_offset bs) (\<lambda>packet.
     Inr (packet, packet_offset + data_len)))"

definition packet_ensure_len_limit :: "nat \<Rightarrow> 'a \<Rightarrow> 'a \<Rightarrow> 'a" where
  "packet_ensure_len_limit len failure k = (if PIPE_BUFFER_MAX_LEN < len then failure else k)"

text \<open>
  What the operating system does to a client that connects: whether the register pipe can be
  opened and closed, and its state.
\<close>

record register_env =
  register_opens :: bool
  register_closes :: bool
  register_pipe :: fifo

definition client_request_connection ::
  "register_env \<Rightarrow> int \<Rightarrow> mem \<Rightarrow> string option \<Rightarrow> (int \<times> fifo) res" where
  "client_request_connection env code session_pipename box_name =
     (let packet_len = 1 + CLIENT_NAMED_PIPE_MAX_LEN;
          packet_len = (if box_name \<noteq> None then packet_len + BOX_NAME_MAX_LEN else packet_len) in
      packet_ensure_len_limit packet_len (Inr (-1, register_pipe env))
        (let packet = replicate packet_len NUL in
         bindR (packet_write packet 0 (int32_bytes code) 1) (\<lambda>(packet, packet_offset).
         bindR (packet_write packet packet_offset session_pipename CLIENT_NAMED_PIPE_MAX_LEN)
           (\<lambda>(packet, packet_offset).
         bindR (case box_name of
                  None \<Rightarrow> Inr (packet, packet_offset)
                | Some b \<Rightarrow> packet_write packet packet_offset b (length b))
           (\<lambda>(packet, packet_offset).
         if \<not> register_opens env then Inr (-1, register_pipe env)
         else
           case pipe_write (register_pipe env) packet of
             (written, p) \<Rightarrow>
               if written \<le> 0 then Inr (-1, p)
               else if \<not> register_closes env then Inr (-1, p)
               else Inr (0, p))))))"

section \<open>Reading and writing whole fields\<close>

text \<open>Only interruptions lie ahead: every transfer that happens is complete.\<close>

definition quiet :: "fifo \<Rightarrow> bool" where
  "quiet p \<longleftrightarrow> set (fifo_outcomes p) \<subseteq> {Interrupted}"

definition on_pipe :: "fifo \<Rightarrow> mem \<Rightarrow> bool" where
  "on_pipe p bs \<longleftrightarrow> quiet p \<and> fifo_bytes p = bs"

lemma size_of_ssize_nat [simp]: "n < 2 ^ 64 \<Longrightarrow> size_of_ssize (int n) = n"
  by (simp add: size_of_ssize_def nat_mod_distrib flip: of_nat_power)

lemma on_pipe_cases [consumes 1, case_names now later]:
  assumes "on_pipe p bs"
  obtains "fifo_outcomes p = []"
  | q where "on_pipe q bs" and "\<And>n. sys_read p n = (-1, True, [], q)"
      and "\<And>out. sys_write p out = (-1, True, q)"
proof (cases "fifo_outcomes p")
  case (Cons oc os)
  then have "oc = Interrupted" and "on_pipe (p\<lparr>fifo_outcomes := os\<rparr>) bs"
    using assms by (auto simp: on_pipe_def quiet_def)
  with Cons that(2) show ?thesis
    by (simp add: sys_read_def sys_write_def)
qed (use that in auto)

lemmas quiet_simps = sys_read_def sys_write_def transfer_limit_def Let_def on_pipe_def quiet_def

lemma read_loop_quiet:
  assumes "on_pipe p bs"
  shows "\<exists>p'. read_loop p n = (int (length (take n bs)), take n bs, p') \<and> on_pipe p' (drop n bs)"
  using assms
proof (induction p n rule: read_loop.induct)
  case (1 p n)
  from 1(2) show ?case
  proof (cases rule: on_pipe_cases)
    case now
    then show ?thesis
      using 1(2) by (auto simp: read_loop.simps [of p] quiet_simps min_def)
  next
    case (later q)
    then show ?thesis
      using 1(1) [of "-1" _ True _ "[]" q] by (auto simp: read_loop.simps [of p])
  qed
qed

lemma pipe_read_field:
  assumes "on_pipe p (bs @ rest)" and "length bs < 2 ^ 64"
  obtains p' where "pipe_read p (length bs) = (int (length bs), bs, p')" and "on_pipe p' rest"
  using read_loop_quiet [OF assms(1), of "length bs"] assms(2) by (auto simp: pipe_read_def)

lemma pipe_read_at_end:
  assumes "on_pipe p []"
  obtains p' where "pipe_read p n = (0, [], p')" and "on_pipe p' []"
  using read_loop_quiet [OF assms, of n] by (auto simp: pipe_read_def)

lemma write_loop_quiet:
  assumes "on_pipe p out"
  shows "\<exists>p'. write_loop p bs = (int (length bs), p') \<and> on_pipe p' (out @ bs)"
  using assms
proof (induction p bs rule: write_loop.induct)
  case (1 p bs)
  from 1(2) show ?case
  proof (cases rule: on_pipe_cases)
    case now
    then show ?thesis
      using 1(2) by (simp add: write_loop.simps [of p] quiet_simps)
  next
    case (later q)
    then show ?thesis
      using 1(1) [of "-1" _ True q] by (auto simp: write_loop.simps [of p])
  qed
qed

lemma pipe_write_packet:
  assumes "on_pipe p out" and "length bs < 2 ^ 64"
  obtains p' where "pipe_write p bs = (int (length bs), p')" and "on_pipe p' (out @ bs)"
  using write_loop_quiet [OF assms(1), of bs] assms(2) by (auto simp: pipe_write_def)

text \<open>
  Filling a zeroed packet from left to right: the parts written so far, then zeros.
\<close>

lemma packet_write_next:
  assumes "length data \<le> n"
  shows "packet_write (pre @ replicate n NUL) (length pre) data (length data) =
    Inr ((pre @ data) @ replicate (n - length data) NUL, length (pre @ data))"
  using assms by (simp add: packet_write_def patch_def slice_def)

lemma packet_write_first:
  assumes "length data \<le> n"
  shows "packet_write (replicate n NUL) 0 data (length data) =
    Inr (data @ replicate (n - length data) NUL, length data)"
  using packet_write_next [OF assms, of "[]"] by simp

lemma packet_write_prefix: "k \<le> length data \<Longrightarrow>
    packet_write packet off data k = packet_write packet off (take k data) k"
  by (simp add: packet_write_def slice_def)

lemma packet_write_overflow:
  "length packet < off + length data \<Longrightarrow> packet_write packet off data (length data) = Inl OutOfBounds"
  by (simp add: packet_write_def mem_write_def slice_def)

section \<open>Properties\<close>

lemma sys_read_result:
  "sys_read p n = (r, eintr, bs, p') \<Longrightarrow> 0 < n \<Longrightarrow>
    r = -1 \<and> fifo_bytes p' = fifo_bytes p \<or>
    \<not> eintr \<and> r = int (length bs) \<and> length bs \<le> n \<and> fifo_bytes p = bs @ fifo_bytes p' \<and> (bs = [] \<longrightarrow> fifo_bytes p = [])"
  by (auto simp: sys_read_def transfer_limit_def Let_def min_def split: list.splits sys_outcome.splits if_splits)

lemma read_loop_result:
  "read_loop p n = (r, bs, p') \<Longrightarrow> 0 < n \<Longrightarrow>
    r = -1 \<or> r = int (length bs) \<and> length bs \<le> n \<and> fifo_bytes p = bs @ fifo_bytes p' \<and> (bs = [] \<longrightarrow> fifo_bytes p = [])"
proof (induction p n rule: read_loop.induct)
  case (1 p n)
  obtain r0 eintr bs0 p0 where rd: "sys_read p n = (r0, eintr, bs0, p0)"
    by (metis prod_cases4)
  note sys = sys_read_result [OF rd 1(3)]
  show ?case
  proof (cases "r0 < 0 \<and> eintr")
    case True
    then show ?thesis
      using 1(1) [OF rd [symmetric] refl refl] 1(2,3) rd sys by (auto simp: read_loop.simps [of p])
  next
    case False
    then show ?thesis
      using 1(2) rd sys by (auto simp: read_loop.simps [of p])
  qed
qed

lemma pipe_read_consumes:
  assumes "pipe_read p n = (r, bs, p')" and "0 < r" and "0 < n"
  shows "length (fifo_bytes p') < length (fifo_bytes p)"
proof -
  obtain r0 bs0 p0 where rl: "read_loop p n = (r0, bs0, p0)"
    by (metis prod_cases3)
  then have "r0 = r" "bs0 = bs" "p0 = p'"
    using assms(1,2) by (auto simp: pipe_read_def split: if_splits)
  then show ?thesis
    using read_loop_result [OF rl assms(3)] assms(2) by auto
qed

lemma pipe_read_shrinks: "pipe_read p n = (r, bs, p') \<Longrightarrow> 0 < n \<Longrightarrow> 0 < r \<Longrightarrow>
    length (fifo_bytes p') \<le> length (fifo_bytes p)"
  using pipe_read_consumes [of p n r bs p'] by simp

text \<open>
  C19. \<^verbatim>\<open>pipe_read\<close> never passes off a part of a field as a field: whatever interruptions, errors and short
  transfers the reads of a nonempty field meet, the result is its full length, and the field is the
  next bytes of the pipe; or 0, and the pipe was at its end; or -1.
\<close>

theorem pipe_read_all_or_nothing:
  assumes "pipe_read p buf_len = (r, bs, p')" and "0 < buf_len" and "buf_len < 2 ^ 63"
  shows "r = int buf_len \<and> length bs = buf_len \<and> fifo_bytes p = bs @ fifo_bytes p' \<or>
    r = 0 \<and> bs = [] \<and> fifo_bytes p = [] \<or> r = -1"
proof -
  obtain r0 bs0 p0 where rl: "read_loop p buf_len = (r0, bs0, p0)"
    by (metis prod_cases3)
  have neg: "size_of_ssize (-1) \<noteq> buf_len"
    using assms(3) by (auto simp: size_of_ssize_def)
  have small: "length bs0 \<le> buf_len \<Longrightarrow> size_of_ssize (int (length bs0)) = length bs0"
    using assms(3) by simp
  show ?thesis
    using read_loop_result [OF rl assms(2)] assms(1) rl neg small
    by (auto simp: pipe_read_def split: if_splits)
qed

theorem pipe_read_all_or_nothing_witness:
  "pipe_read \<lparr>fifo_bytes = ''abc'', fifo_outcomes = [Interrupted]\<rparr> 2 = (2, ''ab'', \<lparr>fifo_bytes = ''c'', fifo_outcomes = []\<rparr>) \<and>
    ''abc'' = ''ab'' @ ''c''"
proof -
  have "pipe_read \<lparr>fifo_bytes = ''abc'', fifo_outcomes = [Interrupted]\<rparr> 2 =
      (2, ''ab'', \<lparr>fifo_bytes = ''c'', fifo_outcomes = []\<rparr>)"
    by (simp add: pipe_read_def read_loop.simps sys_read_def transfer_limit_def Let_def size_of_ssize_def)
  with pipe_read_all_or_nothing [OF this] show ?thesis by simp
qed

text \<open>
  C20. A client does not check the length of the box name it is given: a name of more than 32
  characters is copied past the end of the request packet.
\<close>

theorem client_request_long_name_overflows:
  assumes "length session = CLIENT_NAMED_PIPE_MAX_LEN" and "BOX_NAME_MAX_LEN < length box"
  shows "client_request_connection env c session (Some box) = Inl OutOfBounds"
proof -
  have one: "packet_write (replicate 289 NUL) 0 (int32_bytes c) 1 = Inr (take 1 (int32_bytes c) @ replicate 288 NUL, 1)"
    using packet_write_first [of "take 1 (int32_bytes c)" 289] packet_write_prefix [of 1 "int32_bytes c"] by simp
  have two: "packet_write (take 1 (int32_bytes c) @ replicate 288 NUL) 1 session 256 =
      Inr ((take 1 (int32_bytes c) @ session) @ replicate 32 NUL, 257)"
    using packet_write_next [of session 288 "take 1 (int32_bytes c)"] assms(1) by (simp add: protocol_sizes)
  have "packet_write ((take 1 (int32_bytes c) @ session) @ replicate 32 NUL) 257 box (length box) = Inl OutOfBounds"
    using assms by (intro packet_write_overflow) (simp add: protocol_sizes)
  with one two show ?thesis
    by (simp add: client_request_connection_def packet_ensure_len_limit_def protocol_sizes)
qed

theorem client_request_long_name_overflows_witness:
  "client_request_connection \<lparr>register_opens = True, register_closes = True,
     register_pipe = \<lparr>fifo_bytes = [], fifo_outcomes = []\<rparr>\<rparr> 3 (replicate 256 NUL) (Some (replicate 33 CHR ''x'')) = Inl OutOfBounds"
  by (rule client_request_long_name_overflows) (simp_all add: protocol_sizes)

end
