(* ===== verification/Insertion_Sort.thy ===== *)
theory Insertion_Sort
  imports Boxes "HOL-Library.Multiset"
begin

text \<open>
  \<^verbatim>\<open>utils/insertion-sort.c\<close>: insertion of one box into the sorted front part of an array. The loop
  that makes room is \<open>shift_boxes\<close>; \<open>right\<close> is a C \<^verbatim>\<open>int\<close>, so that it can run down to -1. An access
  outside the array is a fault, and so is reading past the end of a name field that has no
  terminator (in C the comparison would run on into the counters that follow it).

  \<open>insert_after\<close> is the reference: behind every box whose name is not larger.
\<close>

section \<open>The routine\<close>

function shift_boxes :: "box_t list \<Rightarrow> int \<Rightarrow> box_t \<Rightarrow> (box_t list \<times> int) res" where
  "shift_boxes boxes right new_box =
     (if 0 \<le> right then
        bindR (arr_get boxes (nat right)) (\<lambda>b.
        bindR (strcmp_gt (name b) (name new_box)) (\<lambda>gt.
        if gt then
          bindR (arr_set boxes (nat right + 1) b) (\<lambda>boxes. shift_boxes boxes (right - 1) new_box)
        else Inr (boxes, right)))
      else Inr (boxes, right))"
  by pat_completeness auto
termination
  by (relation "measure (\<lambda>(boxes, right, new_box). nat (right + 1))") auto

declare shift_boxes.simps [simp del]

definition sorted_insert :: "box_t list \<Rightarrow> int \<Rightarrow> box_t \<Rightarrow> box_t list res" where
  "sorted_insert boxes right new_box =
     (if right < -1 then Inr boxes
      else
        bindR (shift_boxes boxes right new_box) (\<lambda>(boxes, right).
        arr_set boxes (nat (right + 1)) new_box))"

section \<open>The reference\<close>

abbreviation label :: "box_t \<Rightarrow> string" where
  "label b \<equiv> cstr (name b)"

definition insert_after :: "box_t \<Rightarrow> box_t list \<Rightarrow> box_t list" where
  "insert_after b bs =
     takeWhile (\<lambda>x. label x \<le> label b) bs @ b # dropWhile (\<lambda>x. label x \<le> label b) bs"

lemma mset_insert_after [simp]: "mset (insert_after b bs) = add_mset b (mset bs)"
  unfolding insert_after_def by (metis mset_append mset.simps(2) takeWhile_dropWhile_id union_mset_add_mset_right)

lemma set_insert_after [simp]: "set (insert_after b bs) = insert b (set bs)"
  by (metis mset_insert_after set_mset_add_mset_insert set_mset_mset)

lemma length_insert_after [simp]: "length (insert_after b bs) = Suc (length bs)"
  by (metis mset_insert_after size_add_mset size_mset)

lemma insert_after_Cons:
  "insert_after b (x # xs) = (if label x \<le> label b then x # insert_after b xs else b # x # xs)"
  by (simp add: insert_after_def)

lemma sorted_insert_after:
  "sorted (map label bs) \<Longrightarrow> sorted (map label (insert_after b bs))"
proof (induction bs)
  case Nil
  then show ?case by (simp add: insert_after_def)
next
  case (Cons x xs)
  then show ?case
    by (auto simp: insert_after_Cons not_le intro: order.strict_implies_order order_trans)
qed

section \<open>The loop\<close>

lemma takeWhile_all_sorted:
  assumes "sorted (map label (bs @ [b]))" and "label b \<le> label new"
  shows "takeWhile (\<lambda>x. label x \<le> label new) (bs @ [b]) = bs @ [b]"
  using assms by (force simp: takeWhile_eq_all_conv sorted_append)

lemma shift_boxes_eq:
  assumes "k < length boxes" and "sorted (map label (take k boxes))"
    and "\<forall>b \<in> set (take k boxes). terminated (name b)" and "terminated (name new)"
    and "j = length (takeWhile (\<lambda>x. label x \<le> label new) (take k boxes))"
  shows "shift_boxes boxes (int k - 1) new =
    Inr (take (Suc j) boxes @ drop j (take k boxes) @ drop (Suc k) boxes, int j - 1)"
  using assms
proof (induction k arbitrary: boxes)
  case 0
  then show ?case by (simp add: shift_boxes.simps)
next
  case (Suc k)
  define b where "b = boxes ! k"
  have tk: "take (Suc k) boxes = take k boxes @ [b]"
    using Suc.prems(1) by (simp add: b_def take_Suc_conv_app_nth)
  have cmp: "strcmp_gt (name b) (name new) = Inr (label new < label b)"
    using Suc.prems by (simp add: strcmp_gt_terminated tk)
  show ?case
  proof (cases "label new < label b")
    case True
    define boxes' where "boxes' = boxes[Suc k := b]"
    have t: "take k boxes' = take k boxes" "drop (Suc k) boxes' = b # drop (Suc (Suc k)) boxes"
      using Suc.prems(1) by (simp_all add: boxes'_def drop_update_swap Cons_nth_drop_Suc [symmetric])
    have j: "j = length (takeWhile (\<lambda>x. label x \<le> label new) (take k boxes'))"
      using True Suc.prems(5) by (simp add: tk t takeWhile_tail)
    then have le: "j \<le> k"
      using length_takeWhile_le [of _ "take k boxes'"] by (metis length_take min.boundedE)
    have "shift_boxes boxes' (int k - 1) new =
        Inr (take (Suc j) boxes' @ drop j (take k boxes') @ drop (Suc k) boxes', int j - 1)"
      using Suc.prems j by (intro Suc.IH) (simp_all add: t tk sorted_append boxes'_def)
    moreover have "take (Suc j) boxes' = take (Suc j) boxes"
      using le by (simp add: boxes'_def)
    ultimately show ?thesis
      using True Suc.prems(1) le
      by (simp add: shift_boxes.simps [of boxes] cmp t tk boxes'_def [symmetric] b_def [symmetric])
  next
    case False
    then have "j = Suc k"
      using Suc.prems takeWhile_all_sorted [of "take k boxes" b new] by (simp add: tk)
    then show ?thesis
      using False Suc.prems(1)
      by (simp add: shift_boxes.simps [of boxes] cmp b_def [symmetric])
  qed
qed

lemma sorted_insert_eq:
  assumes "k < length boxes" and "sorted (map label (take k boxes))"
    and "\<forall>b \<in> set (take k boxes). terminated (name b)" and "terminated (name new)"
  shows "sorted_insert boxes (int k - 1) new =
    Inr (insert_after new (take k boxes) @ drop (Suc k) boxes)"
proof -
  define j where "j = length (takeWhile (\<lambda>x. label x \<le> label new) (take k boxes))"
  have le: "j \<le> k"
    using assms(1) length_takeWhile_le [of _ "take k boxes"] by (metis j_def length_take min.boundedE)
  have "takeWhile (\<lambda>x. label x \<le> label new) (take k boxes) = take j (take k boxes)"
    and "dropWhile (\<lambda>x. label x \<le> label new) (take k boxes) = drop j (take k boxes)"
    unfolding j_def by (rule takeWhile_eq_take, rule dropWhile_eq_drop)
  moreover have "take (Suc j) boxes = take j boxes @ [boxes ! j]"
    using assms(1) le by (simp add: take_Suc_conv_app_nth)
  ultimately show ?thesis
    using shift_boxes_eq [OF assms j_def] assms(1) le
    by (simp add: sorted_insert_def insert_after_def list_update_append min_def)
qed

section \<open>Properties\<close>

definition demo_box :: "string \<Rightarrow> box_t" where
  "demo_box s = \<lparr>name = s @ [NUL], box_size = 0, n_publishers = 0, n_subscribers = 0\<rparr>"

text \<open>
  C18. \<^verbatim>\<open>sorted_insert\<close> inserts a box into the sorted first part of the array: afterwards that part is
  one longer, sorted by name, holds the old boxes and the new one, and is the reference insertion
  behind all boxes with a smaller or equal name; the rest of the array is as before.
\<close>

theorem sorted_insert_correct:
  assumes "k < length boxes" and "sorted (map label (take k boxes))"
    and "\<forall>b \<in> set (take k boxes). terminated (name b)" and "terminated (name new)"
  shows "\<exists>boxes'. sorted_insert boxes (int k - 1) new = Inr boxes' \<and>
    take (Suc k) boxes' = insert_after new (take k boxes) \<and> drop (Suc k) boxes' = drop (Suc k) boxes \<and>
    sorted (map label (take (Suc k) boxes')) \<and> mset (take (Suc k) boxes') = add_mset new (mset (take k boxes))"
  using sorted_insert_eq [OF assms] sorted_insert_after [OF assms(2), of new] assms(1) by simp

theorem sorted_insert_correct_witness:
  "\<exists>boxes'. sorted_insert [demo_box ''a'', demo_box ''c'', demo_box [], demo_box ''z''] 1 (demo_box ''b'') = Inr boxes' \<and>
    sorted (map label (take 3 boxes')) \<and>
    mset (take 3 boxes') = {# demo_box ''a'', demo_box ''b'', demo_box ''c'' #} \<and> drop 3 boxes' = [demo_box ''z'']"
proof -
  have "''a'' \<le> ''c''"
    by (simp add: less_char_def)
  then have "sorted (map label (take 2 [demo_box ''a'', demo_box ''c'', demo_box [], demo_box ''z'']))"
    by (simp add: demo_box_def)
  then show ?thesis
    using sorted_insert_correct [of 2 "[demo_box ''a'', demo_box ''c'', demo_box [], demo_box ''z'']" "demo_box ''b''"]
    by (auto simp: demo_box_def add_mset_commute eval_nat_numeral)
qed

end
