(* ===== verification/Clients.thy ===== *)
theory Clients
  imports Protocol Insertion_Sort
begin

text \<open>
  The client programs: \<^verbatim>\<open>manager/manager.c\<close>, \<^verbatim>\<open>publisher/pub.c\<close> and \<^verbatim>\<open>subscriber/sub.c\<close>, each with its \<^verbatim>\<open>main\<close>.

  What the system decides is the record \<open>client_env\<close>: whether the session pipe can be made and opened,
  and what it carries from the server. Each function returns its result and what it
  prints to the standard output; those that send something return the pipes they wrote to. Usage
  messages and warnings (standard error) and the removal of the session pipe at the end are left out.

  \<^verbatim>\<open>char\<close> is a signed type here, as on the platforms the program is built for: the byte 0xFF compares
  equal to \<^verbatim>\<open>EOF\<close>.
\<close>

record client_env =
  register :: register_env
  session_made :: bool
  session_opened :: bool
  session :: fifo

definition MAX_BOX_AMOUNT :: nat where "MAX_BOX_AMOUNT = 64"
definition MANAGER_CREATE :: char where "MANAGER_CREATE = CHR ''c''"
definition MANAGER_REMOVE :: char where "MANAGER_REMOVE = CHR ''r''"
definition MANAGER_LISTING :: char where "MANAGER_LISTING = CHR ''l''"

abbreviation newline :: char where
  "newline \<equiv> CHR 0x0A"

section \<open>Printing\<close>

fun decimal :: "nat \<Rightarrow> string" where
  "decimal n = (if n < 10 then [char_of (48 + n)] else decimal (n div 10) @ [char_of (48 + n mod 10)])"

declare decimal.simps [simp del]

definition print_box :: "box_t \<Rightarrow> string res" where
  "print_box b =
     bindR (cstr_at (name b) 0) (\<lambda>nm.
     Inr (nm @ '' '' @ decimal (box_size b) @ '' '' @ decimal (n_publishers b) @ '' '' @ decimal (n_subscribers b) @ [newline]))"

section \<open>Manager\<close>

text \<open>The result, the output, and the register pipe.\<close>

definition manager_handle_box_management ::
  "client_env \<Rightarrow> int \<Rightarrow> mem \<Rightarrow> string option \<Rightarrow> (int \<times> string \<times> fifo) res" where
  "manager_handle_box_management env code session_pipename box_name =
     bindR (client_request_connection (register env) code session_pipename box_name) (\<lambda>(r, reg).
     if r \<noteq> 0 then Inr (-1, [], reg)
     else if \<not> session_opened env then Inr (-1, [], reg)
     else
       case pipe_read (session env) 1 of
         (r, cbuf, pipe) \<Rightarrow>
           if r \<le> 0 then Inr (-1, [], reg)
           else
             let code = int (le_val cbuf) in
             if code \<noteq> PROTOCOL_CODE_CREATE_ANSWER \<and> code \<noteq> PROTOCOL_CODE_REMOVE_ANSWER then Inr (-1, [], reg)
             else
               case pipe_read pipe 4 of
                 (r, rbuf, pipe) \<Rightarrow>
                   if r \<le> 0 then Inr (-1, [], reg)
                   else if int32_val rbuf = 0 then Inr (0, ''OK'' @ [newline], reg)
                   else
                     case pipe_read pipe MSG_MAX_LEN of
                       (r, error_message, pipe) \<Rightarrow>
                         if r \<le> 0 then Inr (-1, [], reg)
                         else
                           bindR (cstr_at error_message 0) (\<lambda>str.
                           Inr (0, ''ERROR '' @ str @ [newline], reg)))"

text \<open>
  The reads of one round of the listing: the code, the flag and the fields of a box; \<open>None\<close> when one
  fails or the code is not the expected one.
\<close>

definition read_field :: "fifo \<Rightarrow> nat \<Rightarrow> (mem \<times> fifo) option" where
  "read_field pipe n = (case pipe_read pipe n of (r, buf, pipe) \<Rightarrow> if r \<le> 0 then None else Some (buf, pipe))"

definition read_box :: "fifo \<Rightarrow> (nat \<times> box_t \<times> fifo) option" where
  "read_box pipe =
     Option.bind (read_field pipe 1) (\<lambda>(cbuf, pipe).
     if int (le_val cbuf) \<noteq> PROTOCOL_CODE_LIST_ANSWER then None
     else
       Option.bind (read_field pipe 1) (\<lambda>(lbuf, pipe).
       Option.bind (read_field pipe BOX_NAME_MAX_LEN) (\<lambda>(nm, pipe).
       Option.bind (read_field pipe 8) (\<lambda>(sz, pipe).
       Option.bind (read_field pipe 8) (\<lambda>(np, pipe).
       Option.bind (read_field pipe 8) (\<lambda>(ns, pipe).
       Some (le_val lbuf, \<lparr>name = nm, box_size = le_val sz, n_publishers = le_val np, n_subscribers = le_val ns\<rparr>, pipe)))))))"

lemma read_field_consumes: "read_field p n = Some (bs, p') \<Longrightarrow> 0 < n \<Longrightarrow> length (fifo_bytes p') < length (fifo_bytes p)"
  using pipe_read_consumes [of p n] by (auto simp: read_field_def not_le split: if_splits prod.splits)

lemma read_box_consumes:
  assumes "read_box p = Some (l, b, p')"
  shows "length (fifo_bytes p') < length (fifo_bytes p)"
proof -
  obtain f1 p1 f2 p2 f3 p3 f4 p4 f5 p5 f6 where "read_field p 1 = Some (f1, p1)" "read_field p1 1 = Some (f2, p2)"
      "read_field p2 BOX_NAME_MAX_LEN = Some (f3, p3)" "read_field p3 8 = Some (f4, p4)" "read_field p4 8 = Some (f5, p5)"
      "read_field p5 8 = Some (f6, p')"
    using assms by (auto simp: read_box_def bind_eq_Some_conv split: if_splits)
  from this [THEN read_field_consumes] show ?thesis
    by (simp add: BOX_NAME_MAX_LEN_def)
qed

text \<open>The loop that receives the boxes: the array and its last index, or nothing when it fails.\<close>

function receive_boxes :: "box_t list \<Rightarrow> int \<Rightarrow> nat \<Rightarrow> fifo \<Rightarrow> (box_t list \<times> int) option res" where
  "receive_boxes boxes last_i last_flag pipe =
     (if last_flag = 0 then
        case read_box pipe of
          None \<Rightarrow> Inr None
        | Some (last_flag, new_box, pipe) \<Rightarrow>
            if last_flag = 1 \<and> name new_box ! 0 = NUL then Inr (Some (boxes, last_i))
            else
              case sorted_insert boxes last_i new_box of
                Inl e \<Rightarrow> Inl e
              | Inr boxes \<Rightarrow> receive_boxes boxes (last_i + 1) last_flag pipe
      else Inr (Some (boxes, last_i)))"
  by pat_completeness auto
termination
  by (relation "measure (\<lambda>(boxes, last_i, l, p). length (fifo_bytes p))") (auto dest: read_box_consumes)

declare receive_boxes.simps [simp del]

fun print_boxes :: "box_t list \<Rightarrow> nat \<Rightarrow> string res" where
  "print_boxes boxes 0 = Inr []"
| "print_boxes boxes (Suc n) =
     bindR (print_boxes boxes n) (\<lambda>out.
     bindR (arr_get boxes n) (\<lambda>b.
     bindR (print_box b) (\<lambda>line. Inr (out @ line))))"

text \<open>The first argument is what the array \<^verbatim>\<open>boxes\<close> on the stack holds before it is written.\<close>

definition manager_handle_box_listing ::
  "(nat \<Rightarrow> box_t) \<Rightarrow> client_env \<Rightarrow> mem \<Rightarrow> (int \<times> string \<times> fifo) res" where
  "manager_handle_box_listing garbage env session_pipename =
     bindR (client_request_connection (register env) PROTOCOL_CODE_LIST_REQUEST session_pipename None) (\<lambda>(r, reg).
     if r \<noteq> 0 then Inr (-1, [], reg)
     else if \<not> session_opened env then Inr (-1, [], reg)
     else
       bindR (receive_boxes (map garbage [0..<MAX_BOX_AMOUNT]) (-1) 0 (session env)) (\<lambda>received.
       case received of
         None \<Rightarrow> Inr (-1, [], reg)
       | Some (boxes, last_i) \<Rightarrow>
           bindR (print_boxes boxes (nat (last_i + 1))) (\<lambda>out.
           Inr (0, if last_i = -1 then out @ ''NO BOXES FOUND'' @ [newline] else out, reg))))"

text \<open>
  \<open>argv\<close> has the name of the program first; \<^verbatim>\<open>argv[argc]\<close> is the null pointer.
\<close>

definition arg :: "string list \<Rightarrow> nat \<Rightarrow> string option" where
  "arg argv i = (if i < length argv then Some (argv ! i) else None)"

definition session_name :: "string \<Rightarrow> mem res" where
  "session_name s = strcpy_into (replicate CLIENT_NAMED_PIPE_MAX_LEN NUL) 0 (s @ [NUL])"

definition manager_main :: "(nat \<Rightarrow> box_t) \<Rightarrow> client_env \<Rightarrow> string list \<Rightarrow> (int \<times> string \<times> fifo) res" where
  "manager_main garbage env argv =
     (let reg = register_pipe (register env) in
      if length argv < 4 \<or> length argv > 5 then Inr (1, [], reg)
      else if argv ! 3 \<noteq> ''create'' \<and> argv ! 3 \<noteq> ''remove'' \<and> argv ! 3 \<noteq> ''list'' then Inr (1, [], reg)
      else
        bindR (session_name (argv ! 2)) (\<lambda>session_pipename.
        if \<not> session_made env then Inr (1, [], reg)
        else
          bindR (if argv ! 3 ! 0 = MANAGER_CREATE then
                   manager_handle_box_management env PROTOCOL_CODE_CREATE_REQUEST session_pipename (arg argv 4)
                 else if argv ! 3 ! 0 = MANAGER_REMOVE then
                   manager_handle_box_management env PROTOCOL_CODE_REMOVE_REQUEST session_pipename (arg argv 4)
                 else if argv ! 3 ! 0 = MANAGER_LISTING then
                   manager_handle_box_listing garbage env session_pipename
                 else Inr (1, [], reg)) (\<lambda>(result, out, reg).
          Inr (if result \<noteq> 0 then 1 else 0, out, reg))))"

section \<open>Publisher\<close>

abbreviation EOF_char :: char where
  "EOF_char \<equiv> CHR 0xFF"

text \<open>
  The loop that reads a message: \<open>input\<close> is what is left of the standard input. It ends at a newline,
  at the end of the input or when the buffer is full; then \<open>c\<close> is the last character stored.
\<close>

fun read_message :: "mem \<Rightarrow> nat \<Rightarrow> char \<Rightarrow> string \<Rightarrow> (mem \<times> nat \<times> char \<times> string) res" where
  "read_message message message_len c [] =
     Inr (message, message_len, if message_len < MSG_MAX_LEN - 1 then EOF_char else c, [])"
| "read_message message message_len c (ch # input) =
     (if message_len < MSG_MAX_LEN - 1 then
        if ch = newline \<or> ch = EOF_char then Inr (message, message_len, ch, input)
        else
          bindR (arr_set message message_len ch) (\<lambda>message.
          read_message message (Suc message_len) ch input)
      else Inr (message, message_len, c, ch # input))"

lemma read_message_consumes:
  "read_message message n c input = Inr (message', n', c', input') \<Longrightarrow>
    length input' \<le> length input \<and> (n < MSG_MAX_LEN - 1 \<longrightarrow> c' \<noteq> EOF_char \<longrightarrow> length input' < length input)"
proof (induction message n c input rule: read_message.induct)
  case (2 message n c ch input)
  show ?case
  proof (cases "n < MSG_MAX_LEN - 1 \<and> ch \<noteq> newline \<and> ch \<noteq> EOF_char")
    case True
    then obtain m where "arr_set message n ch = Inr m" "read_message m (Suc n) ch input = Inr (message', n', c', input')"
      using "2.prems" by (auto simp: bindR_eq_Inr)
    with "2.IH" [of m] True show ?thesis by simp
  next
    case False
    with "2.prems" show ?thesis by (auto split: if_splits)
  qed
qed (auto split: if_splits)

definition publisher_packet :: "mem \<Rightarrow> mem res" where
  "publisher_packet message =
     bindR (cstr_at message 0) (\<lambda>str.
     bindR (packet_write (replicate (1 + MSG_MAX_LEN) NUL) 0 (int32_bytes PROTOCOL_CODE_MESSAGE_RECEIVE) 1)
       (\<lambda>(packet, packet_offset).
     bindR (packet_write packet packet_offset message (length str)) (\<lambda>(packet, packet_offset).
     Inr packet)))"

text \<open>
  The outer loop. \<open>epipe k\<close> tells whether \<^verbatim>\<open>errno\<close> is \<^verbatim>\<open>EPIPE\<close> when it is tested behind the \<open>k\<close>-th packet.
\<close>

function publish_loop :: "(nat \<Rightarrow> bool) \<Rightarrow> nat \<Rightarrow> mem \<Rightarrow> char \<Rightarrow> string \<Rightarrow> fifo \<Rightarrow> (int \<times> fifo) res" where
  "publish_loop epipe k message c input pipe =
     (case read_message message 0 c input of
        Inl e \<Rightarrow> Inl e
      | Inr (message, message_len, c, input) \<Rightarrow>
          case arr_set message message_len NUL of
            Inl e \<Rightarrow> Inl e
          | Inr message \<Rightarrow>
              if c = EOF_char then Inr (0, pipe)
              else
                bindR (publisher_packet message) (\<lambda>packet.
                case pipe_write pipe packet of
                  (written, pipe) \<Rightarrow>
                    if written \<le> 0 \<or> epipe k then Inr (-1, pipe)
                    else publish_loop epipe (Suc k) message c input pipe))"
  by pat_completeness auto
termination
  by (relation "measure (\<lambda>(e, k, m, c, input, p). length input)") (auto simp: MSG_MAX_LEN_def dest!: read_message_consumes)

declare publish_loop.simps [simp del]

definition publisher_write_messages :: "client_env \<Rightarrow> (nat \<Rightarrow> bool) \<Rightarrow> string \<Rightarrow> (int \<times> fifo) res" where
  "publisher_write_messages env epipe input =
     packet_ensure_len_limit (1 + MSG_MAX_LEN) (Inr (-1, session env))
       (if \<not> session_opened env then Inr (-1, session env)
        else publish_loop epipe 0 (replicate MSG_MAX_LEN NUL) NUL input (session env))"

definition pub_main :: "client_env \<Rightarrow> (nat \<Rightarrow> bool) \<Rightarrow> string \<Rightarrow> string list \<Rightarrow> (int \<times> fifo \<times> fifo) res" where
  "pub_main env epipe input argv =
     (let reg = register_pipe (register env) in
      if length argv \<noteq> 4 then Inr (1, reg, session env)
      else
        bindR (session_name (argv ! 2)) (\<lambda>session_pipename.
        if \<not> session_made env then Inr (1, reg, session env)
        else
          bindR (client_request_connection (register env) PROTOCOL_CODE_PUB_REGISTER session_pipename (arg argv 3)) (\<lambda>(r, reg).
          if r \<noteq> 0 then Inr (1, reg, session env)
          else
            bindR (publisher_write_messages env epipe input) (\<lambda>(r, pipe).
            Inr (if r \<noteq> 0 then 1 else 0, reg, pipe)))))"

section \<open>Subscriber\<close>

text \<open>
  The subscriber reads with \<^verbatim>\<open>read\<close> itself: an interrupted or short read ends the session.
  \<open>signalled n\<close> tells whether \<^verbatim>\<open>shutdown_signaler\<close> is set when it is tested for the \<open>n\<close>-th time.
\<close>

definition read_one :: "fifo \<Rightarrow> (mem \<times> fifo) option" where
  "read_one pipe =
     (case sys_read pipe 1 of
        (r, _, cbuf, pipe) \<Rightarrow>
          if size_of_ssize r \<noteq> 1 \<or> int (le_val cbuf) \<noteq> PROTOCOL_CODE_MESSAGE_SEND then None
          else
            case sys_read pipe MSG_MAX_LEN of
              (r, _, message, pipe) \<Rightarrow>
                if size_of_ssize r \<noteq> MSG_MAX_LEN then None else Some (message, pipe))"

lemma sys_read_consumes: "sys_read p n = (r, e, bs, p') \<Longrightarrow> r = -1 \<or> 
    r = int (length bs) \<and> length (fifo_bytes p') + length bs = length (fifo_bytes p)"
  by (auto simp: sys_read_def Let_def split: list.splits sys_outcome.splits)

lemma read_one_consumes: "read_one p = Some (m, p') \<Longrightarrow> length (fifo_bytes p') < length (fifo_bytes p)"
  by (cases m) (auto simp: read_one_def size_of_ssize_def MSG_MAX_LEN_def dest!: sys_read_consumes split: if_splits prod.splits)

function receive_messages :: "(nat \<Rightarrow> bool) \<Rightarrow> nat \<Rightarrow> fifo \<Rightarrow> (nat \<times> string) res" where
  "receive_messages signalled n_messages pipe =
     (if signalled n_messages then Inr (n_messages, [])
      else
        case read_one pipe of
          None \<Rightarrow> Inr (n_messages, [])
        | Some (message, pipe) \<Rightarrow>
            bindR (cstr_at message 0) (\<lambda>line.
            bindR (receive_messages signalled (Suc n_messages) pipe) (\<lambda>(n, out).
            Inr (n, line @ newline # out))))"
  by pat_completeness auto
termination
  by (relation "measure (\<lambda>(s, n, p). length (fifo_bytes p))") (auto dest: read_one_consumes)

declare receive_messages.simps [simp del]

definition subscriber_read_messages :: "client_env \<Rightarrow> (nat \<Rightarrow> bool) \<Rightarrow> (int \<times> string) res" where
  "subscriber_read_messages env signalled =
     (if \<not> session_opened env then Inr (-1, [])
      else
        bindR (receive_messages signalled 0 (session env)) (\<lambda>(n_messages, out).
        Inr (0, out @ ''Number of messages read: '' @ decimal n_messages @ [newline])))"

definition sub_main :: "client_env \<Rightarrow> (nat \<Rightarrow> bool) \<Rightarrow> string list \<Rightarrow> (int \<times> string \<times> fifo) res" where
  "sub_main env signalled argv =
     (let reg = register_pipe (register env) in
      if length argv \<noteq> 4 then Inr (1, [], reg)
      else
        bindR (session_name (argv ! 2)) (\<lambda>session_pipename.
        if \<not> session_made env then Inr (1, [], reg)
        else
          bindR (client_request_connection (register env) PROTOCOL_CODE_SUB_REGISTER session_pipename (arg argv 3)) (\<lambda>(r, reg).
          if r \<noteq> 0 then Inr (1, [], reg)
          else
            bindR (subscriber_read_messages env signalled) (\<lambda>(r, out).
            Inr (if r \<noteq> 0 then 1 else 0, out, reg)))))"

end
