(* ===== verification/MBroker.thy ===== *)
theory MBroker
  imports FS_Ops Protocol PC_Queue
begin

text \<open>
  The server: every function of \<^verbatim>\<open>mbroker/mbroker.c\<close>.

  The file-scope variables are the record \<open>server\<close>, which contains the state of the file system the
  server keeps its boxes in. Each handler is run as one thread runs it. The events of \<^verbatim>\<open>free_boxes_lock\<close>
  and of the mutexes of the boxes go to the same trace as those of the file system. A thread that has
  to wait for another one is the end of the run: a subscriber that sleeps on the condition variable of
  its box is the outcome \<open>Sleeping\<close>, from which \<open>sub_loop\<close> continues when it is woken, and an
  enqueue on a full queue is \<open>Inr None\<close>.

  What the operating system decides is an argument: whether the session pipe of a client can be
  opened and what it carries (\<open>session_env\<close>), which allocations succeed and whether the register pipe
  can be made (\<open>boot_env\<close>). Results that the code does not look at (closing a pipe, freeing memory)
  are left out, as are the messages to the terminal. Results are of type \<open>'a res option\<close>: \<open>None\<close> is a run that does
  not end.
\<close>

section \<open>Results\<close>

definition bindP :: "'a res option \<Rightarrow> ('a \<Rightarrow> 'b res option) \<Rightarrow> 'b res option" where
  "bindP m f = Option.bind m (\<lambda>x. case x of Inl e \<Rightarrow> Some (Inl e) | Inr y \<Rightarrow> f y)"

lemma bindP_simps [simp]:
  "bindP (Some (Inr x)) f = f x" "bindP (Some (Inl e)) f = Some (Inl e)" "bindP None f = None"
  by (simp_all add: bindP_def)

lemma bindP_mono [partial_function_mono]:
  assumes "mono_option B" and "\<And>y. mono_option (\<lambda>f. C y f)"
  shows "mono_option (\<lambda>f. bindP (B f) (\<lambda>y. C y f))"
proof -
  have "mono_option (\<lambda>f. case x of Inl e \<Rightarrow> Some (Inl e) | Inr y \<Rightarrow> C y f)" for x
    using assms(2) by (cases x) (simp_all add: option.const_mono)
  with assms(1) show ?thesis
    unfolding bindP_def by (rule bind_mono)
qed

abbreviation ret :: "'a \<Rightarrow> 'a res option" where
  "ret x \<equiv> Some (Inr x)"

section \<open>State\<close>

record server =
  fs :: fs_state
  requests_queue :: "request_t pc_queue_t option"
  n_boxes :: int
  boxes_table :: "box_t list"
  free_boxes :: "allocation_state_t list"

definition srv_log :: "lock_event \<Rightarrow> server \<Rightarrow> server" where
  "srv_log e s = s\<lparr>fs := log_lock e (fs s)\<rparr>"

abbreviation free_boxes_lock :: lock_id where
  "free_boxes_lock \<equiv> (Free_boxes_lock, 0)"

abbreviation box_mutex :: "nat \<Rightarrow> lock_id" where
  "box_mutex i \<equiv> (Box_mutex, i)"

text \<open>Assigning to the fields of a box.\<close>

definition box_update :: "nat \<Rightarrow> (box_t \<Rightarrow> box_t) \<Rightarrow> server \<Rightarrow> server res" where
  "box_update i f s =
     bindR (arr_get (boxes_table s) i) (\<lambda>b. Inr (s\<lparr>boxes_table := (boxes_table s)[i := f b]\<rparr>))"

definition with_box_locked :: "nat \<Rightarrow> (box_t \<Rightarrow> box_t) \<Rightarrow> server \<Rightarrow> server res" where
  "with_box_locked i f s =
     bindR (box_update i f (srv_log (Acquire_wr (box_mutex i)) s)) (\<lambda>s.
     Inr (srv_log (Release (box_mutex i)) s))"

section \<open>The table of boxes\<close>

definition box_matches :: "mem \<Rightarrow> server \<Rightarrow> nat \<Rightarrow> bool res" where
  "box_matches box_name s i =
     bindR (arr_get (free_boxes s) i) (\<lambda>st.
     if st = TAKEN then bindR (arr_get (boxes_table s) i) (\<lambda>b. strcmp_eq (name b) box_name)
     else Inr False)"

text \<open>\<^verbatim>\<open>memset(name, 0, 32); strcpy(name, box_name);\<close>\<close>

definition copy_name :: "mem \<Rightarrow> mem res" where
  "copy_name box_name =
     bindR (cstr_at box_name 0) (\<lambda>str. mem_write (replicate BOX_NAME_MAX_LEN NUL) 0 (str @ [NUL]))"

definition box_create :: "mem \<Rightarrow> server \<Rightarrow> (int \<times> server) res" where
  "box_create box_name s =
     (let s = srv_log (Acquire_wr free_boxes_lock) s in
      bindR (scan (\<lambda>st. st = FREE) (free_boxes s) (inode_table_size (fs s))) (\<lambda>r.
      case r of
        Some i \<Rightarrow>
          let s = s\<lparr>free_boxes := (free_boxes s)[i := TAKEN], n_boxes := n_boxes s + 1\<rparr>;
              s = srv_log (Release free_boxes_lock) s
          in bindR (copy_name box_name) (\<lambda>nm.
             bindR (with_box_locked i
                      (\<lambda>b. b\<lparr>name := nm, box_size := 0, n_subscribers := 0\<rparr>) s) (\<lambda>s.
             Inr (0, s)))
      | None \<Rightarrow> Inr (-1, srv_log (Release free_boxes_lock) s)))"

definition box_delete :: "mem \<Rightarrow> server \<Rightarrow> (int \<times> server) res" where
  "box_delete box_name s =
     (let s = srv_log (Acquire_wr free_boxes_lock) s in
      bindR (for_find (box_matches box_name s) 0 (inode_table_size (fs s))) (\<lambda>r.
      case r of
        Some i \<Rightarrow>
          let s = srv_log (Acquire_wr (box_mutex i)) s;
              s = s\<lparr>free_boxes := (free_boxes s)[i := FREE]\<rparr>;
              s = srv_log (Release (box_mutex i)) s;
              s = s\<lparr>n_boxes := n_boxes s - 1\<rparr>
          in Inr (0, srv_log (Release free_boxes_lock) s)
      | None \<Rightarrow> Inr (-1, srv_log (Release free_boxes_lock) s)))"

definition box_find :: "mem \<Rightarrow> server \<Rightarrow> (int \<times> server) res" where
  "box_find box_name s =
     (let s = srv_log (Acquire_rd free_boxes_lock) s in
      bindR (for_find (box_matches box_name s) 0 (inode_table_size (fs s))) (\<lambda>r.
      let s = srv_log (Release free_boxes_lock) s in
      case r of Some i \<Rightarrow> Inr (int_of_size i, s) | None \<Rightarrow> Inr (-1, s)))"

text \<open>Whether the slot of a session still belongs to a box.\<close>

definition box_alive :: "nat \<Rightarrow> server \<Rightarrow> (bool \<times> server) res" where
  "box_alive i s =
     (let s = srv_log (Acquire_rd free_boxes_lock) s in
      bindR (arr_get (free_boxes s) i) (\<lambda>st.
      Inr (st = TAKEN, srv_log (Release free_boxes_lock) s)))"

section \<open>Calls of the file system\<close>

definition srv_open :: "mem \<Rightarrow> nat \<Rightarrow> server \<Rightarrow> (int \<times> server) res option" where
  "srv_open path mode s =
     bindP (Some (cstr_at path 0)) (\<lambda>str.
     bindP (tfs_open (Some str) mode (fs s)) (\<lambda>(r, f). ret (r, s\<lparr>fs := f\<rparr>)))"

definition srv_close :: "int \<Rightarrow> server \<Rightarrow> (int \<times> server) res" where
  "srv_close h s = bindR (tfs_close h (fs s)) (\<lambda>(r, f). Inr (r, s\<lparr>fs := f\<rparr>))"

definition srv_write :: "int \<Rightarrow> mem \<Rightarrow> server \<Rightarrow> (int \<times> server) res" where
  "srv_write h buf s =
     bindR (tfs_write h (Some buf) (length buf) (fs s)) (\<lambda>(r, f). Inr (r, s\<lparr>fs := f\<rparr>))"

definition srv_read :: "int \<Rightarrow> nat \<Rightarrow> server \<Rightarrow> (int \<times> mem \<times> server) res" where
  "srv_read h n s =
     bindR (tfs_read h (Some (replicate n NUL)) n (fs s)) (\<lambda>(r, buf, f).
     Inr (r, the buf, s\<lparr>fs := f\<rparr>))"

definition srv_unlink :: "mem \<Rightarrow> server \<Rightarrow> (int \<times> server) res" where
  "srv_unlink path s =
     bindR (cstr_at path 0) (\<lambda>str.
     bindR (tfs_unlink (Some str) (fs s)) (\<lambda>(r, f). Inr (r, s\<lparr>fs := f\<rparr>)))"

section \<open>Requests of managers\<close>

record session_env =
  session_opens :: bool
  session_pipe :: fifo

text \<open>The packet of an answer: code, return code, and an error message padded with zeros.\<close>

definition answer_len :: nat where
  "answer_len = 1 + 4 + MSG_MAX_LEN"

definition answer_packet :: "int \<Rightarrow> int \<Rightarrow> string \<Rightarrow> mem res" where
  "answer_packet c return_code error_message =
     bindR (packet_write (replicate answer_len NUL) 0 (int32_bytes c) 1) (\<lambda>(packet, packet_offset).
     bindR (packet_write packet packet_offset (int32_bytes return_code) 4) (\<lambda>(packet, packet_offset).
     bindR (packet_write packet packet_offset error_message (length error_message))
       (\<lambda>(packet, packet_offset). Inr packet)))"

definition workers_handle_manager_create ::
  "session_env \<Rightarrow> request_t \<Rightarrow> server \<Rightarrow> (int \<times> fifo \<times> server) res option" where
  "workers_handle_manager_create env request s =
     packet_ensure_len_limit answer_len (ret (-1, session_pipe env, s))
       (bindP (srv_open (req_box_name request) 0 s) (\<lambda>(f, s).
        bindP (if 0 \<le> f then ret (f, True, s)
               else
                 bindP (srv_open (req_box_name request) TFS_O_CREAT s) (\<lambda>(f, s).
                 if f < 0 then ret (f, True, s)
                 else
                   bindP (Some (box_create (req_box_name request) s)) (\<lambda>(r, s).
                   ret (f, r \<noteq> 0, s)))) (\<lambda>(f, failed, s).
        bindP (Some (srv_close f s)) (\<lambda>(_, s).
        bindP (Some (answer_packet PROTOCOL_CODE_CREATE_ANSWER (if failed then -1 else 0)
                       (if failed then ''Couldn't create box'' else []))) (\<lambda>packet.
        if \<not> session_opens env then ret (0, session_pipe env, s)
        else ret (0, snd (pipe_write (session_pipe env) packet), s))))))"

definition workers_handle_manager_remove ::
  "session_env \<Rightarrow> request_t \<Rightarrow> server \<Rightarrow> (int \<times> fifo \<times> server) res option" where
  "workers_handle_manager_remove env request s =
     packet_ensure_len_limit answer_len (ret (-1, session_pipe env, s))
       (bindP (Some (box_delete (req_box_name request) s)) (\<lambda>(r, s).
        bindP (if r \<noteq> 0 then ret (True, s)
               else
                 bindP (Some (srv_unlink (req_box_name request) s)) (\<lambda>(r, s).
                 ret (r \<noteq> 0, s))) (\<lambda>(failed, s).
        bindP (Some (answer_packet PROTOCOL_CODE_REMOVE_ANSWER (if failed then -1 else 0)
                       (if failed then ''Couldn't remove box'' else []))) (\<lambda>packet.
        if \<not> session_opens env then ret (-1, session_pipe env, s)
        else ret (0, snd (pipe_write (session_pipe env) packet), s)))))"

text \<open>
  One packet of a listing. The name is read from the second byte of the field on, for as many bytes
  as the field has, so the last one is the first byte of the field \<^verbatim>\<open>size\<close> that follows it.
\<close>

definition listing_len :: nat where
  "listing_len = 1 * 2 + BOX_NAME_MAX_LEN + 8 * 3"

definition box_bytes :: "box_t \<Rightarrow> mem" where
  "box_bytes b = name b @ le_bytes 8 (box_size b) @ le_bytes 8 (n_publishers b) @ le_bytes 8 (n_subscribers b)"

definition listing_packet :: "bool \<Rightarrow> bool \<Rightarrow> box_t \<Rightarrow> mem res" where
  "listing_packet last_flag some b =
     bindR (packet_write (replicate listing_len NUL) 0 (int32_bytes PROTOCOL_CODE_LIST_ANSWER) 1)
       (\<lambda>(packet, packet_offset).
     bindR (packet_write packet packet_offset [if last_flag then CHR 0x01 else CHR 0x00] 1)
       (\<lambda>(packet, packet_offset).
     if \<not> some then Inr packet
     else
       bindR (packet_write packet packet_offset (drop 1 (box_bytes b)) BOX_NAME_MAX_LEN)
         (\<lambda>(packet, packet_offset).
       bindR (packet_write packet packet_offset (le_bytes 8 (box_size b)) 8) (\<lambda>(packet, packet_offset).
       bindR (packet_write packet packet_offset (le_bytes 8 (n_publishers b)) 8) (\<lambda>(packet, packet_offset).
       bindR (packet_write packet packet_offset (le_bytes 8 (n_subscribers b)) 8) (\<lambda>(packet, packet_offset).
       Inr packet))))))"

text \<open>
  The loop of the listing over the slots of the table. \<open>last_flag\<close> is a variable of the function: once set
  it stays set.
\<close>

function listing_loop :: "nat \<Rightarrow> int \<Rightarrow> bool \<Rightarrow> fifo \<Rightarrow> server \<Rightarrow> (bool \<times> fifo \<times> server) res" where
  "listing_loop i n_boxes_listed last_flag pipe s =
     (if n_boxes_listed \<le> n_boxes s \<and> i < inode_table_size (fs s) then
        bindR (if 0 < n_boxes s then bindR (arr_get (free_boxes s) i) (\<lambda>st. Inr (st = FREE))
               else Inr False) (\<lambda>skip.
        if skip then listing_loop (Suc i) n_boxes_listed last_flag pipe s
        else
          let last_flag = (last_flag \<or> n_boxes s = 0 \<or> n_boxes_listed + 1 = n_boxes s);
              s = srv_log (Acquire_wr (box_mutex i)) s in
          bindR (arr_get (boxes_table s) i) (\<lambda>b.
          bindR (listing_packet last_flag (0 < n_boxes s) b) (\<lambda>packet.
          let s = srv_log (Release (box_mutex i)) s;
              (written, pipe) = pipe_write pipe packet in
          if written \<le> 0 then Inr (False, pipe, s)
          else listing_loop (Suc i) (n_boxes_listed + 1) last_flag pipe s)))
      else Inr (True, pipe, s))"
  by pat_completeness auto
termination
  by (relation "measure (\<lambda>(i, n, l, p, s). inode_table_size (fs s) - i)")
    (auto simp: srv_log_def log_lock_def inode_table_size_def INODE_TABLE_SIZE_def)

declare listing_loop.simps [simp del]

definition workers_handle_manager_listing ::
  "session_env \<Rightarrow> request_t \<Rightarrow> server \<Rightarrow> (int \<times> fifo \<times> server) res option" where
  "workers_handle_manager_listing env request s =
     packet_ensure_len_limit listing_len (ret (-1, session_pipe env, s))
       (if \<not> session_opens env then ret (-1, session_pipe env, s)
        else
          bindP (Some (listing_loop 0 0 False (session_pipe env) (srv_log (Acquire_rd free_boxes_lock) s)))
            (\<lambda>(completed, pipe, s).
          ret (if completed then 0 else -1, pipe, srv_log (Release free_boxes_lock) s)))"

section \<open>Publishers\<close>

text \<open>
  The part of \<^verbatim>\<open>workers_handle_pub_register\<close> before its loop: the slot of the box and the handle of its
  file, or nothing when the session ends here.
\<close>

definition pub_start :: "request_t \<Rightarrow> server \<Rightarrow> ((nat \<times> int) option \<times> server) res option" where
  "pub_start request s =
     bindP (Some (box_find (req_box_name request) s)) (\<lambda>(box_i, s).
     if box_i = -1 then ret (None, s)
     else
       let i = nat box_i; s = srv_log (Acquire_wr (box_mutex i)) s in
       bindP (Some (arr_get (boxes_table s) i)) (\<lambda>b.
       if 0 < n_publishers b then ret (None, srv_log (Release (box_mutex i)) s)
       else
         bindP (Some (box_update i (\<lambda>b. b\<lparr>n_publishers := u64_inc (n_publishers b)\<rparr>) s)) (\<lambda>s.
         bindP (srv_open (req_box_name request) TFS_O_APPEND s) (\<lambda>(box_f, s).
         if box_f < 0 then
           bindP (Some (box_update i (\<lambda>b. b\<lparr>n_publishers := u64_dec (n_publishers b)\<rparr>) s)) (\<lambda>s.
           ret (None, srv_log (Release (box_mutex i)) s))
         else ret (Some (i, box_f), srv_log (Release (box_mutex i)) s)))))"

text \<open>One round of the loop; the result tells whether the loop goes on.\<close>

definition pub_message :: "nat \<Rightarrow> int \<Rightarrow> fifo \<Rightarrow> server \<Rightarrow> (bool \<times> fifo \<times> server) res" where
  "pub_message box_i box_f pipe s =
     (let to_write = MSG_MAX_LEN; (bytes_read, cbuf, pipe) = pipe_read pipe 1 in
      if bytes_read \<le> 0 \<or> int (le_val cbuf) \<noteq> PROTOCOL_CODE_MESSAGE_RECEIVE then Inr (False, pipe, s)
      else
        bindR (box_alive box_i s) (\<lambda>(alive, s).
        if \<not> alive then Inr (False, pipe, s)
        else
          let (bytes_read, message, pipe) = pipe_read pipe to_write in
          if bytes_read \<le> 0 then Inr (False, pipe, s)
          else
            bindR (srv_write box_f message s) (\<lambda>(written, s).
            if size_of_ssize written \<noteq> to_write then Inr (False, pipe, s)
            else
              bindR (with_box_locked box_i (\<lambda>b. b\<lparr>box_size := size_add (box_size b) to_write\<rparr>) s) (\<lambda>s.
              Inr (True, pipe, s)))))"

lemma pub_message_consumes:
  "pub_message i h p s = Inr (True, p', s') \<Longrightarrow> length (fifo_bytes p') < length (fifo_bytes p)"
  by (auto simp: pub_message_def Let_def bindR_eq_Inr MSG_MAX_LEN_def
      dest!: pipe_read_consumes split: if_splits prod.splits)

function pub_loop :: "nat \<Rightarrow> int \<Rightarrow> fifo \<Rightarrow> server \<Rightarrow> (fifo \<times> server) res" where
  "pub_loop box_i box_f pipe s =
     (case pub_message box_i box_f pipe s of
        Inl e \<Rightarrow> Inl e
      | Inr (go_on, pipe, s) \<Rightarrow> if go_on then pub_loop box_i box_f pipe s else Inr (pipe, s))"
  by pat_completeness auto
termination
  by (relation "measure (\<lambda>(i, h, p, s). length (fifo_bytes p))") (auto dest: pub_message_consumes)

declare pub_loop.simps [simp del]

definition pub_end :: "nat \<Rightarrow> int \<Rightarrow> server \<Rightarrow> server res" where
  "pub_end box_i box_f s =
     bindR (with_box_locked box_i (\<lambda>b. b\<lparr>n_publishers := u64_dec (n_publishers b)\<rparr>) s) (\<lambda>s.
     bindR (srv_close box_f s) (\<lambda>(_, s). Inr s))"

definition workers_handle_pub_register ::
  "session_env \<Rightarrow> request_t \<Rightarrow> server \<Rightarrow> (int \<times> fifo \<times> server) res option" where
  "workers_handle_pub_register env request s =
     (if \<not> session_opens env then ret (0, session_pipe env, s)
      else
        bindP (pub_start request s) (\<lambda>(started, s).
        case started of
          None \<Rightarrow> ret (0, session_pipe env, s)
        | Some (box_i, box_f) \<Rightarrow>
            bindP (Some (pub_loop box_i box_f (session_pipe env) s)) (\<lambda>(pipe, s).
            bindP (Some (pub_end box_i box_f s)) (\<lambda>s.
            ret (0, pipe, s)))))"

section \<open>Subscribers\<close>

datatype outcome = Returned int | Sleeping nat int

text \<open>
  The part of \<^verbatim>\<open>workers_handle_sub_register\<close> between \<^verbatim>\<open>box_find\<close> and its loop. When the file of the box cannot be
  opened the function returns with the mutex of the box locked.
\<close>

definition sub_open :: "nat \<Rightarrow> request_t \<Rightarrow> server \<Rightarrow> ((nat \<times> int) option \<times> server) res option" where
  "sub_open i request s =
     (let s = srv_log (Acquire_wr (box_mutex i)) s in
      bindP (Some (box_update i (\<lambda>b. b\<lparr>n_subscribers := u64_inc (n_subscribers b)\<rparr>) s)) (\<lambda>s.
      bindP (srv_open (req_box_name request) 0 s) (\<lambda>(box_f, s).
      if box_f < 0 then
        bindP (Some (box_update i (\<lambda>b. b\<lparr>n_subscribers := u64_dec (n_subscribers b)\<rparr>) s)) (\<lambda>s.
        ret (None, s))
      else ret (Some (i, box_f), srv_log (Release (box_mutex i)) s))))"

definition sub_start :: "request_t \<Rightarrow> server \<Rightarrow> ((nat \<times> int) option \<times> server) res option" where
  "sub_start request s =
     bindP (Some (box_find (req_box_name request) s)) (\<lambda>(box_i, s).
     if box_i = -1 then ret (None, s) else sub_open (nat box_i) request s)"

definition sub_end :: "nat \<Rightarrow> int \<Rightarrow> server \<Rightarrow> server res" where
  "sub_end box_i box_f s =
     bindR (with_box_locked box_i (\<lambda>b. b\<lparr>n_subscribers := u64_dec (n_subscribers b)\<rparr>) s) (\<lambda>s.
     bindR (srv_close box_f s) (\<lambda>(_, s). Inr s))"

definition message_packet :: "mem \<Rightarrow> mem res" where
  "message_packet message =
     bindR (packet_write (replicate (1 + MSG_MAX_LEN) NUL) 0 (int32_bytes PROTOCOL_CODE_MESSAGE_SEND) 1)
       (\<lambda>(packet, packet_offset).
     bindR (packet_write packet packet_offset message MSG_MAX_LEN) (\<lambda>(packet, packet_offset).
     Inr packet))"

text \<open>
  The two nested loops. \<open>None\<close>: at the head of the outer loop, where the thread waits until it has
  read a message; \<open>Some message\<close>: at the head of the inner loop, which sends one.
\<close>

partial_function (option) sub_loop ::
  "mem option \<Rightarrow> nat \<Rightarrow> int \<Rightarrow> fifo \<Rightarrow> server \<Rightarrow> (outcome \<times> fifo \<times> server) res option" where
  "sub_loop pending box_i box_f pipe s =
     (let to_read = MSG_MAX_LEN in
      case pending of
        None \<Rightarrow>
          let s = srv_log (Acquire_wr (box_mutex box_i)) s in
          bindP (Some (arr_get (free_boxes s) box_i)) (\<lambda>st.
          bindP (if st = TAKEN then Some (srv_read box_f to_read s) else ret (0, [], s)) (\<lambda>(r, message, s).
          if st = TAKEN \<and> size_of_ssize r \<noteq> to_read
          then ret (Sleeping box_i box_f, pipe, srv_log (Release (box_mutex box_i)) s)
          else
            bindP (Some (box_alive box_i (srv_log (Release (box_mutex box_i)) s))) (\<lambda>(alive, s).
            if \<not> alive then
              bindP (Some (sub_end box_i box_f s)) (\<lambda>s. ret (Returned 0, pipe, s))
            else sub_loop (Some message) box_i box_f pipe s)))
      | Some message \<Rightarrow>
          bindP (Some (message_packet message)) (\<lambda>packet.
          case pipe_write pipe packet of
            (written, pipe) \<Rightarrow>
              if written \<le> 0 then
                bindP (Some (sub_end box_i box_f s)) (\<lambda>s. ret (Returned 0, pipe, s))
              else
                bindP (Some (srv_read box_f to_read s)) (\<lambda>(r, message, s).
                if size_of_ssize r = to_read then sub_loop (Some message) box_i box_f pipe s
                else sub_loop None box_i box_f pipe s)))"

definition workers_handle_sub_register ::
  "session_env \<Rightarrow> request_t \<Rightarrow> server \<Rightarrow> (outcome \<times> fifo \<times> server) res option" where
  "workers_handle_sub_register env request s =
     (if \<not> session_opens env then ret (Returned 0, session_pipe env, s)
      else
        bindP (sub_start request s) (\<lambda>(started, s).
        case started of
          None \<Rightarrow> ret (Returned 0, session_pipe env, s)
        | Some (box_i, box_f) \<Rightarrow>
            packet_ensure_len_limit (1 + MSG_MAX_LEN) (ret (Returned (-1), session_pipe env, s))
              (sub_loop None box_i box_f (session_pipe env) s)))"

section \<open>Receiving and dispatching requests\<close>

text \<open>
  The first argument is what \<^verbatim>\<open>malloc\<close> returns for the request: \<open>None\<close> for \<^verbatim>\<open>NULL\<close>, else the indeterminate
  contents of its two arrays.
\<close>

definition mbroker_receive_connection ::
  "(nat \<Rightarrow> char) option \<Rightarrow> int \<Rightarrow> fifo \<Rightarrow> server \<Rightarrow> (int \<times> fifo \<times> server) option res" where
  "mbroker_receive_connection malloc c register_fifo s =
     (case malloc of
        None \<Rightarrow> Inl OutOfBounds
      | Some g \<Rightarrow>
          let request = \<lparr>req_code = c, client_named_pipe_path = map g [0..<CLIENT_NAMED_PIPE_MAX_LEN],
                         req_box_name = map g [0..<BOX_NAME_MAX_LEN]\<rparr>;
              (r, path, pipe) = pipe_read register_fifo CLIENT_NAMED_PIPE_MAX_LEN in
          if r \<le> 0 then Inr (Some (-1, pipe, s))
          else
            bindR (strcpy_into (client_named_pipe_path request) 0 path) (\<lambda>path.
            let request = request\<lparr>client_named_pipe_path := path\<rparr> in
            bindR (if req_code request \<noteq> PROTOCOL_CODE_LIST_REQUEST then
                     let (r, box, pipe) = pipe_read pipe BOX_NAME_MAX_LEN in
                     if r \<le> 0 then Inr (None, pipe)
                     else
                       bindR (arr_set (req_box_name request) 0 CHR ''/'') (\<lambda>nm.
                       bindR (strcpy_into nm 1 box) (\<lambda>nm.
                       Inr (Some (request\<lparr>req_box_name := nm\<rparr>), pipe)))
                   else Inr (Some request, pipe)) (\<lambda>(received, pipe).
            case received of
              None \<Rightarrow> Inr (Some (-1, pipe, s))
            | Some request \<Rightarrow>
                (case requests_queue s of
                   None \<Rightarrow> Inr (Some (-1, pipe, s))
                 | Some q \<Rightarrow>
                     if pcq_buffer q = None then Inr (Some (-1, pipe, s))
                     else if pcq_full q then Inr None
                     else Inr (Some (0, pipe, s\<lparr>requests_queue := Some (pcq_put request q)\<rparr>))))))"

text \<open>
  One round of \<^verbatim>\<open>workers_reception\<close>. \<open>Inr None\<close>: the worker has no request to process; it waits for one,
  or looks again at once when there is no queue. The pipe of the client is the one the request names.
\<close>

definition workers_reception ::
  "(mem \<Rightarrow> session_env) \<Rightarrow> server \<Rightarrow> (outcome \<times> fifo \<times> server) option res option" where
  "workers_reception clients s =
     (case requests_queue s of
        None \<Rightarrow> ret None
      | Some q \<Rightarrow>
          if pcq_buffer q = None \<or> pcq_empty q then ret None
          else
            let (request, q) = pcq_take q;
                s = s\<lparr>requests_queue := Some q\<rparr>;
                env = clients (client_named_pipe_path request);
                simple = (\<lambda>m. bindP m (\<lambda>(r, pipe, s). ret (Some (Returned r, pipe, s)))) in
            if req_code request = PROTOCOL_CODE_PUB_REGISTER
            then simple (workers_handle_pub_register env request s)
            else if req_code request = PROTOCOL_CODE_SUB_REGISTER
            then bindP (workers_handle_sub_register env request s) (\<lambda>x. ret (Some x))
            else if req_code request = PROTOCOL_CODE_CREATE_REQUEST
            then simple (workers_handle_manager_create env request s)
            else if req_code request = PROTOCOL_CODE_REMOVE_REQUEST
            then simple (workers_handle_manager_remove env request s)
            else if req_code request = PROTOCOL_CODE_LIST_REQUEST
            then simple (workers_handle_manager_listing env request s)
            else ret (Some (Returned 0, session_pipe env, s)))"

section \<open>Starting the server\<close>

record boot_env =
  tfs_env :: malloc_env
  queue_malloc :: "request_t pc_queue_t option"
  buffer_malloc :: "(nat \<Rightarrow> request_t) option"
  workers_malloc :: bool
  thread_starts :: "nat \<Rightarrow> bool"
  boxes_malloc :: "(nat \<Rightarrow> box_t) option"
  free_boxes_malloc :: "(nat \<Rightarrow> allocation_state_t) option"
  pipe_made :: bool

definition workers_init :: "(nat \<Rightarrow> bool) \<Rightarrow> nat \<Rightarrow> int" where
  "workers_init starts num_threads = (if \<forall>i<num_threads. starts i then 0 else -1)"

text \<open>Marking every slot of the table of boxes as free; a fault when one of the arrays is missing.\<close>

fun mark_free :: "nat \<Rightarrow> allocation_state_t list \<Rightarrow> allocation_state_t list res" where
  "mark_free 0 xs = Inr xs"
| "mark_free (Suc n) xs = bindR (mark_free n xs) (\<lambda>xs. arr_set xs n FREE)"

definition mbroker_params :: "nat \<Rightarrow> tfs_params" where
  "mbroker_params max_sessions =
     tfs_default_params\<lparr>max_open_files_count := max_sessions, block_size := 1024 * 1024\<rparr>"

definition mbroker_init :: "boot_env \<Rightarrow> nat \<Rightarrow> server \<Rightarrow> (int \<times> server) res" where
  "mbroker_init env max_sessions s =
     bindR (tfs_init (tfs_env env) (Some (mbroker_params max_sessions)) (fs s)) (\<lambda>(r, f).
     let s = s\<lparr>fs := f\<rparr>;
         give_up = (\<lambda>s. bindR (tfs_destroy (fs s)) (\<lambda>(_, f). Inr (-1, s\<lparr>fs := f\<rparr>)));
         drop_queue = (\<lambda>s. s\<lparr>requests_queue := snd (pcq_destroy (requests_queue s))\<rparr>) in
     if r \<noteq> 0 then Inr (-1, s)
     else
       let s = s\<lparr>requests_queue := queue_malloc env\<rparr> in
       if requests_queue s = None then give_up s
       else
         let (r, q) = pcq_create (buffer_malloc env) (requests_queue s) max_sessions;
             s = s\<lparr>requests_queue := q\<rparr> in
         if r \<noteq> 0 then give_up s
         else if \<not> workers_malloc env then give_up (drop_queue s)
         else if workers_init (thread_starts env) max_sessions \<noteq> 0 then give_up (drop_queue s)
         else
           let n = inode_table_size (fs s) in
           if boxes_malloc env = None then give_up (drop_queue s)
           else
             let s = s\<lparr>boxes_table := map (the (boxes_malloc env)) [0..<n],
                       free_boxes := (case free_boxes_malloc env of None \<Rightarrow> [] | Some g \<Rightarrow> map g [0..<n])\<rparr> in
             bindR (mark_free n (free_boxes s)) (\<lambda>fb.
             let s = s\<lparr>free_boxes := fb\<rparr> in
             if \<not> pipe_made env then give_up (drop_queue s) else Inr (0, s)))"

section \<open>The listener\<close>

definition is_request :: "int \<Rightarrow> bool" where
  "is_request c \<longleftrightarrow>
     \<not> (c \<noteq> PROTOCOL_CODE_PUB_REGISTER \<and> c \<noteq> PROTOCOL_CODE_SUB_REGISTER \<and>
        c \<noteq> PROTOCOL_CODE_CREATE_REQUEST \<and> c \<noteq> PROTOCOL_CODE_REMOVE_REQUEST \<and>
        c \<noteq> PROTOCOL_CODE_LIST_REQUEST)"

datatype listen_end = At_end_of_pipe | Read_failed | Receive_failed | Queue_full

text \<open>
  The inner loop of \<^verbatim>\<open>main\<close>; \<open>bytes_read\<close> and \<open>c\<close> are its variables. \<open>Queue_full\<close> is where the listener
  waits for a worker. The first argument supplies the memory of each request.
\<close>

partial_function (option) listen_loop ::
  "(nat \<Rightarrow> char) option \<Rightarrow> int \<Rightarrow> int \<Rightarrow> fifo \<Rightarrow> server \<Rightarrow> (listen_end \<times> fifo \<times> server) res option" where
  "listen_loop malloc bytes_read c pipe s =
     (if 0 < bytes_read then
        if \<not> is_request c then listen_loop malloc bytes_read c pipe s
        else
          bindP (Some (mbroker_receive_connection malloc c pipe s)) (\<lambda>x.
          case x of
            None \<Rightarrow> ret (Queue_full, pipe, s)
          | Some (r, pipe, s) \<Rightarrow>
              if r \<noteq> 0 then ret (Receive_failed, pipe, s)
              else
                case pipe_read pipe 1 of
                  (bytes_read, cbuf, pipe) \<Rightarrow>
                    listen_loop malloc bytes_read (int (le_val cbuf)) pipe s)
      else ret (if bytes_read < 0 then Read_failed else At_end_of_pipe, pipe, s))"

definition listen :: "(nat \<Rightarrow> char) option \<Rightarrow> fifo \<Rightarrow> server \<Rightarrow> (listen_end \<times> fifo \<times> server) res option" where
  "listen malloc pipe s =
     (case pipe_read pipe 1 of
        (bytes_read, cbuf, pipe) \<Rightarrow> listen_loop malloc bytes_read (int (le_val cbuf)) pipe s)"

text \<open>
  The outer loop of \<^verbatim>\<open>main\<close>. A round is what the register pipe delivers until its writers have gone,
  and whether the pipe can be opened and closed again to wait for the next ones. The result is the
  exit status; \<open>None\<close> when the listener is waiting at the end of the given rounds.
\<close>

record listen_round =
  round_pipe :: fifo
  reopens :: bool
  recloses :: bool

fun main_loop :: "(nat \<Rightarrow> char) option \<Rightarrow> listen_round list \<Rightarrow> server \<Rightarrow> (int option \<times> server) res option" where
  "main_loop malloc [] s = ret (None, s)"
| "main_loop malloc (r # rs) s =
     bindP (listen malloc (round_pipe r) s) (\<lambda>(e, pipe, s).
     case e of
       Receive_failed \<Rightarrow> ret (Some 1, s)
     | Read_failed \<Rightarrow> ret (Some 1, s)
     | Queue_full \<Rightarrow> ret (None, s)
     | At_end_of_pipe \<Rightarrow>
         if \<not> reopens r then ret (Some 1, s)
         else if \<not> recloses r then ret (Some 1, s)
         else main_loop malloc rs s)"

text \<open>\<^verbatim>\<open>main\<close> after its arguments have been read.\<close>

definition mbroker_main ::
  "boot_env \<Rightarrow> nat \<Rightarrow> bool \<Rightarrow> (nat \<Rightarrow> char) option \<Rightarrow> listen_round list \<Rightarrow> server \<Rightarrow> (int option \<times> server) res option" where
  "mbroker_main env max_sessions opens malloc rounds s =
     bindP (Some (mbroker_init env max_sessions s)) (\<lambda>(r, s).
     if r \<noteq> 0 then ret (Some 1, s)
     else if \<not> opens then ret (Some 1, s)
     else main_loop malloc rounds s)"

end
