(* ===== verification/Name_Table.thy ===== *)
theory Name_Table
  imports Main
begin

text \<open>
  The contract of a table that binds names to slots: the directory of the file system and the table of
  boxes of the server both keep it. \<open>find\<close>, \<open>enter\<close> and \<open>remove\<close> are the operations, \<open>entries\<close> is the
  table as a map, \<open>fits\<close> says which names the table can hold and \<open>room\<close> whether it has a free slot.
  \<open>enter\<close> reports the slot it bound; \<open>None\<close> is a failed operation.
\<close>

locale name_table =
  fixes wf :: "'s \<Rightarrow> bool"
    and entries :: "'s \<Rightarrow> 'n \<Rightarrow> 'v option"
    and fits :: "'n \<Rightarrow> bool"
    and room :: "'s \<Rightarrow> bool"
    and find :: "'n \<Rightarrow> 's \<Rightarrow> 'v option"
    and enter :: "'n \<Rightarrow> 's \<Rightarrow> ('v \<times> 's) option"
    and remove :: "'n \<Rightarrow> 's \<Rightarrow> 's option"
  assumes find_entries: "wf s \<Longrightarrow> fits n \<Longrightarrow> find n s = entries s n"
    and enter_new: "wf s \<Longrightarrow> fits n \<Longrightarrow> entries s n = None \<Longrightarrow> room s \<Longrightarrow>
      \<exists>v s'. enter n s = Some (v, s') \<and> wf s' \<and> entries s' = (entries s)(n \<mapsto> v)"
    and remove_bound: "wf s \<Longrightarrow> fits n \<Longrightarrow> entries s n = Some v \<Longrightarrow>
      \<exists>s'. remove n s = Some s' \<and> wf s' \<and> entries s' = (entries s)(n := None)"
    and remove_unbound: "wf s \<Longrightarrow> fits n \<Longrightarrow> entries s n = None \<Longrightarrow> remove n s = None"
begin

text \<open>What was entered is found, and nothing else changes for the finder.\<close>

lemma find_after_enter:
  assumes "wf s" and "fits n" and "fits m" and "entries s n = None" and "room s"
  shows "\<exists>v s'. enter n s = Some (v, s') \<and> find m s' = (if m = n then Some v else find m s)"
proof -
  obtain v s' where s': "enter n s = Some (v, s')" "wf s'" "entries s' = (entries s)(n \<mapsto> v)"
    using enter_new [OF assms(1,2,4,5)] by blast
  then show ?thesis
    using find_entries [OF s'(2) assms(3)] find_entries [OF assms(1,3)] by simp
qed

lemma find_after_remove:
  assumes "wf s" and "fits n" and "fits m" and "find n s = Some v"
  shows "\<exists>s'. remove n s = Some s' \<and> find m s' = (if m = n then None else find m s)"
proof -
  have "entries s n = Some v"
    using assms(4) find_entries [OF assms(1,2)] by simp
  then obtain s' where s': "remove n s = Some s'" "wf s'" "entries s' = (entries s)(n := None)"
    using remove_bound [OF assms(1,2)] by blast
  then show ?thesis
    using find_entries [OF s'(2) assms(3)] find_entries [OF assms(1,3)] by simp
qed

lemma enter_remove:
  assumes "wf s" and "fits n" and "entries s n = None" and "room s"
  shows "\<exists>v s1 s2. enter n s = Some (v, s1) \<and> remove n s1 = Some s2 \<and> wf s2 \<and> entries s2 = entries s"
proof -
  obtain v s1 where s1: "enter n s = Some (v, s1)" "wf s1" "entries s1 = (entries s)(n \<mapsto> v)"
    using enter_new [OF assms] by blast
  then obtain s2 where "remove n s1 = Some s2" "wf s2" "entries s2 = (entries s1)(n := None)"
    using remove_bound [OF s1(2) assms(2)] by auto
  then show ?thesis
    using s1 assms(3) by (intro exI [of _ v] exI [of _ s1] exI [of _ s2]) (auto simp: fun_upd_idem)
qed

lemma remove_iff_found: "wf s \<Longrightarrow> fits n \<Longrightarrow> remove n s = None \<longleftrightarrow> find n s = None"
  using find_entries remove_bound remove_unbound by (metis option.distinct(1) option.exhaust)

end

end
