(* ===== verification/MBroker_Boxes.thy ===== *)
theory MBroker_Boxes
  imports MBroker FS_View Name_Table
begin

text \<open>
  The table of boxes of the server: when it is well formed (\<open>table_ok\<close>), what its three operations
  do to it as equations, and the contract of a name table.
\<close>

section \<open>Trace\<close>

definition srv_traced :: "lock_event list \<Rightarrow> server \<Rightarrow> server" where
  "srv_traced t s = s\<lparr>fs := traced t (fs s)\<rparr>"

lemma srv_log_traced: "srv_log e s = srv_traced [e] s"
  by (simp add: srv_log_def srv_traced_def log_lock_def traced_def)

lemma srv_traced_traced [simp]: "srv_traced t (srv_traced u s) = srv_traced (u @ t) s"
  by (simp add: srv_traced_def)

lemma srv_traced_select [simp]:
  "requests_queue (srv_traced t s) = requests_queue s" "n_boxes (srv_traced t s) = n_boxes s"
  "boxes_table (srv_traced t s) = boxes_table s" "free_boxes (srv_traced t s) = free_boxes s"
  "fs (srv_traced t s) = traced t (fs s)"
  by (simp_all add: srv_traced_def)

lemma srv_traced_update [simp]:
  "(srv_traced t s)\<lparr>n_boxes := n\<rparr> = srv_traced t (s\<lparr>n_boxes := n\<rparr>)"
  "(srv_traced t s)\<lparr>boxes_table := b\<rparr> = srv_traced t (s\<lparr>boxes_table := b\<rparr>)"
  "(srv_traced t s)\<lparr>free_boxes := f\<rparr> = srv_traced t (s\<lparr>free_boxes := f\<rparr>)"
  by (simp_all add: srv_traced_def)

abbreviation slots :: "server \<Rightarrow> nat" where
  "slots s \<equiv> max_inode_count (fs_params (fs s))"

lemma slots_simp: "inode_table_size (fs s) = slots s"
  by (simp add: inode_table_size_def INODE_TABLE_SIZE_def)

section \<open>Well-formed tables\<close>

abbreviation box_taken :: "server \<Rightarrow> nat \<Rightarrow> bool" where
  "box_taken s i \<equiv> i < slots s \<and> free_boxes s ! i = TAKEN"

abbreviation label_of :: "server \<Rightarrow> nat \<Rightarrow> string" where
  "label_of s i \<equiv> cstr (name (boxes_table s ! i))"

definition table_ok :: "server \<Rightarrow> bool" where
  "table_ok s \<longleftrightarrow>
     slots s < 2 ^ 31 \<and> length (boxes_table s) = slots s \<and> length (free_boxes s) = slots s \<and>
     (\<forall>i<slots s. length (name (boxes_table s ! i)) = BOX_NAME_MAX_LEN) \<and>
     (\<forall>i. box_taken s i \<longrightarrow> terminated (name (boxes_table s ! i))) \<and>
     (\<forall>i j. box_taken s i \<longrightarrow> box_taken s j \<longrightarrow> label_of s i = label_of s j \<longrightarrow> i = j) \<and>
     n_boxes s = int (count_list (free_boxes s) TAKEN)"

definition slot_of :: "server \<Rightarrow> string \<Rightarrow> nat option" where
  "slot_of s nm = List.find (\<lambda>i. free_boxes s ! i = TAKEN \<and> label_of s i = nm) [0..<slots s]"

lemma table_ok_traced [simp]: "table_ok (srv_traced t s) = table_ok s"
  by (simp add: table_ok_def)

lemma slot_of_traced [simp]: "slot_of (srv_traced t s) = slot_of s"
  by (simp add: slot_of_def fun_eq_iff)

lemma table_okD:
  assumes "table_ok s"
  shows "length (boxes_table s) = slots s" and "length (free_boxes s) = slots s" and "slots s < 2 ^ 31"
    and "i < slots s \<Longrightarrow> length (name (boxes_table s ! i)) = BOX_NAME_MAX_LEN"
    and "box_taken s i \<Longrightarrow> terminated (name (boxes_table s ! i))"
    and "box_taken s i \<Longrightarrow> box_taken s j \<Longrightarrow> label_of s i = label_of s j \<Longrightarrow> i = j"
    and "n_boxes s = int (count_list (free_boxes s) TAKEN)"
  using assms unfolding table_ok_def by blast+

lemma slot_of_Some:
  assumes "table_ok s"
  shows "slot_of s nm = Some i \<longleftrightarrow> box_taken s i \<and> label_of s i = nm"
proof
  assume i: "box_taken s i \<and> label_of s i = nm"
  then have "j = i" if "box_taken s j" "label_of s j = nm" for j
    using table_okD(6) [OF assms, of j i] that by simp
  then have "\<not> (free_boxes s ! j = TAKEN \<and> label_of s j = nm)" if "j < i" for j
    using that i by (metis less_irrefl less_trans)
  with i show "slot_of s nm = Some i"
    by (simp add: slot_of_def find_upt_Some_iff)
qed (simp add: slot_of_def find_upt_Some_iff)

lemma slot_of_None: "slot_of s nm = None \<longleftrightarrow> (\<forall>i. box_taken s i \<longrightarrow> label_of s i \<noteq> nm)"
  by (auto simp: slot_of_def find_upt_None_iff)

section \<open>The operations as equations\<close>

lemma find_slot:
  assumes "table_ok s" and "terminated bn"
  shows "for_find (box_matches bn s) 0 (slots s) = Inr (slot_of s (cstr bn))"
  unfolding slot_of_def
proof (rule for_find_find)
  fix j
  assume "j < slots s"
  then show "box_matches bn s j = Inr (free_boxes s ! j = TAKEN \<and> label_of s j = cstr bn)"
    using table_okD(1,2) [OF assms(1)] table_okD(5) [OF assms(1), of j] assms(2)
    by (simp add: box_matches_def strcmp_eq_terminated)
qed

lemma box_matches_traced [simp]: "box_matches bn (srv_traced t s) = box_matches bn s"
  by (simp add: box_matches_def fun_eq_iff cong: if_branch_cong)

abbreviation boxes_read_trace :: "lock_event list" where
  "boxes_read_trace \<equiv> [Acquire_rd free_boxes_lock, Release free_boxes_lock]"

abbreviation boxes_write_trace :: "lock_event list" where
  "boxes_write_trace \<equiv> [Acquire_wr free_boxes_lock, Release free_boxes_lock]"

abbreviation box_trace :: "nat \<Rightarrow> lock_event list" where
  "box_trace i \<equiv> [Acquire_wr (box_mutex i), Release (box_mutex i)]"

lemma box_find_eq:
  assumes "table_ok s" and "terminated bn"
  shows "box_find bn s =
    Inr (case slot_of s (cstr bn) of None \<Rightarrow> -1 | Some i \<Rightarrow> int i, srv_traced boxes_read_trace s)"
proof -
  have small: "int_of_size i = int i" if "slot_of s (cstr bn) = Some i" for i
    using that slot_of_Some [OF assms(1)] table_okD(3) [OF assms(1)] by simp
  show ?thesis
    using find_slot [of "srv_traced [Acquire_rd free_boxes_lock] s" bn] assms small
    by (simp add: box_find_def srv_log_traced slots_simp split: option.splits)
qed

definition new_box :: "nat \<Rightarrow> string \<Rightarrow> server \<Rightarrow> server" where
  "new_box i nm s = s\<lparr>free_boxes := (free_boxes s)[i := TAKEN], n_boxes := n_boxes s + 1,
     boxes_table := (boxes_table s)[i := (boxes_table s ! i)\<lparr>name := nm @ replicate (BOX_NAME_MAX_LEN - length nm) NUL,
       box_size := 0, n_subscribers := 0\<rparr>]\<rparr>"

definition drop_box :: "nat \<Rightarrow> server \<Rightarrow> server" where
  "drop_box i s = s\<lparr>free_boxes := (free_boxes s)[i := FREE], n_boxes := n_boxes s - 1\<rparr>"

definition free_slot :: "server \<Rightarrow> nat option" where
  "free_slot s = List.find (\<lambda>i. free_boxes s ! i = FREE) [0..<slots s]"

lemma free_slot_Some: "free_slot s = Some i \<Longrightarrow> i < slots s \<and> free_boxes s ! i = FREE"
  by (simp add: free_slot_def find_upt_Some_iff)

lemma free_slot_traced [simp]: "free_slot (srv_traced t s) = free_slot s"
  by (simp add: free_slot_def)

lemma copy_name_eq:
  assumes "terminated bn" and "length (cstr bn) < BOX_NAME_MAX_LEN"
  shows "copy_name bn = Inr (cstr bn @ replicate (BOX_NAME_MAX_LEN - length (cstr bn)) NUL)"
proof -
  have "NUL # replicate (BOX_NAME_MAX_LEN - Suc (length (cstr bn))) NUL = replicate (BOX_NAME_MAX_LEN - length (cstr bn)) NUL"
    using assms(2) by (simp flip: replicate_Suc)
  then show ?thesis
    using assms by (simp add: copy_name_def patch_def)
qed

lemma box_create_eq:
  assumes "table_ok s" and "terminated bn" and "length (cstr bn) < BOX_NAME_MAX_LEN"
  shows "box_create bn s =
    (case free_slot s of
       None \<Rightarrow> Inr (-1, srv_traced boxes_write_trace s)
     | Some i \<Rightarrow> Inr (0, srv_traced (boxes_write_trace @ box_trace i) (new_box i (cstr bn) s)))"
proof (cases "free_slot s")
  case None
  then show ?thesis
    using table_okD(2) [OF assms(1)]
    by (simp add: box_create_def srv_log_traced slots_simp scan_find free_slot_def)
next
  case (Some i)
  then have "i < length (boxes_table s)"
    using free_slot_Some table_okD(1) [OF assms(1)] by simp
  then show ?thesis
    using table_okD(2) [OF assms(1)] Some copy_name_eq [OF assms(2,3)]
    by (simp add: box_create_def srv_log_traced slots_simp scan_find free_slot_def with_box_locked_def
        box_update_def new_box_def)
qed

lemma box_delete_eq:
  assumes "table_ok s" and "terminated bn"
  shows "box_delete bn s =
    (case slot_of s (cstr bn) of
       None \<Rightarrow> Inr (-1, srv_traced boxes_write_trace s)
     | Some i \<Rightarrow> Inr (0, srv_traced (Acquire_wr free_boxes_lock # box_trace i @ [Release free_boxes_lock]) (drop_box i s)))"
  using find_slot [of "srv_traced [Acquire_wr free_boxes_lock] s" bn] assms
  by (simp add: box_delete_def srv_log_traced slots_simp drop_box_def split: option.splits)

section \<open>Preservation\<close>

lemma terminated_replicate [simp]: "terminated (replicate n NUL) \<longleftrightarrow> 0 < n"
  by (simp add: terminated_def)

lemma cstr_padded [simp]:
  assumes "is_cstring nm" and "length nm < n"
  shows "cstr (nm @ replicate (n - length nm) NUL) = nm" and "terminated (nm @ replicate (n - length nm) NUL)"
proof -
  obtain k where k: "n - length nm = Suc k"
    using assms(2) by (cases "n - length nm") auto
  then show "cstr (nm @ replicate (n - length nm) NUL) = nm" "terminated (nm @ replicate (n - length nm) NUL)"
    using assms(1) by simp_all
qed

lemma new_box_select [simp]:
  "fs (new_box i nm s) = fs s" "requests_queue (new_box i nm s) = requests_queue s"
  "free_boxes (new_box i nm s) = (free_boxes s)[i := TAKEN]" "n_boxes (new_box i nm s) = n_boxes s + 1"
  "fs (drop_box i s) = fs s" "requests_queue (drop_box i s) = requests_queue s"
  "free_boxes (drop_box i s) = (free_boxes s)[i := FREE]" "n_boxes (drop_box i s) = n_boxes s - 1"
  "boxes_table (drop_box i s) = boxes_table s"
  by (simp_all add: new_box_def drop_box_def)

lemma nth_new_box:
  assumes "table_ok s" and "i < slots s" and "j < slots s"
  shows "boxes_table (new_box i nm s) ! j =
    (if j = i then (boxes_table s ! i)\<lparr>name := nm @ replicate (BOX_NAME_MAX_LEN - length nm) NUL, box_size := 0, n_subscribers := 0\<rparr>
     else boxes_table s ! j)"
  using assms(2,3) table_okD(1) [OF assms(1)] by (simp add: new_box_def nth_list_update_if)

lemma new_box_ok:
  assumes s: "table_ok s" and i: "free_slot s = Some i"
    and nm: "is_cstring nm" "length nm < BOX_NAME_MAX_LEN" "slot_of s nm = None"
  shows "table_ok (new_box i nm s)" and "slot_of (new_box i nm s) = (slot_of s)(nm \<mapsto> i)"
proof -
  note T = table_okD [OF s] and I = free_slot_Some [OF i]
  have len: "length (boxes_table (new_box i nm s)) = slots s"
    using T(1) by (simp add: new_box_def)
  note nth = nth_new_box [OF s, of i]
  have taken: "box_taken (new_box i nm s) j \<longleftrightarrow> box_taken s j \<or> j = i" for j
    using T(2) I by (auto simp: nth_list_update)
  have label: "label_of (new_box i nm s) j = (if j = i then nm else label_of s j)" if "box_taken (new_box i nm s) j" for j
    using that nth [of j nm] I nm(1,2) by (auto simp: taken)
  have not: "label_of s j \<noteq> nm" if "box_taken s j" for j
    using nm(3) that by (auto simp: slot_of_None)
  have "count_list ((free_boxes s)[i := TAKEN]) TAKEN = Suc (count_list (free_boxes s) TAKEN)"
    using count_list_update [of i "free_boxes s" TAKEN TAKEN] T(2) I by simp
  moreover have "length (name (boxes_table (new_box i nm s) ! j)) = BOX_NAME_MAX_LEN" if "j < slots s" for j
    using nth [of j nm] that T(4) I nm(2) by simp
  moreover have "terminated (name (boxes_table (new_box i nm s) ! j))" if "box_taken (new_box i nm s) j" for j
    using that nth [of j nm] T(5) [of j] I nm(1,2) by (auto simp: taken)
  moreover have "j = k" if "box_taken (new_box i nm s) j" "box_taken (new_box i nm s) k"
      "label_of (new_box i nm s) j = label_of (new_box i nm s) k" for j k
    using that(3) label [OF that(1)] label [OF that(2)] that(1,2) not [of j] not [of k] T(6) [of j k]
    unfolding taken by (auto split: if_splits)
  ultimately show ok: "table_ok (new_box i nm s)"
    unfolding table_ok_def using T(2,3,7) len by auto
  show "slot_of (new_box i nm s) = (slot_of s)(nm \<mapsto> i)"
  proof (rule ext)
    fix m
    show "slot_of (new_box i nm s) m = ((slot_of s)(nm \<mapsto> i)) m"
    proof (cases "slot_of (new_box i nm s) m")
      case None
      then have "m \<noteq> nm" "slot_of s m = None"
        using taken label I unfolding slot_of_None by (metis, metis I allocation_state_t.distinct(1))
      then show ?thesis using None by simp
    next
      case (Some j)
      then have "box_taken (new_box i nm s) j" "label_of (new_box i nm s) j = m"
        using slot_of_Some [OF ok] by blast+
      then show ?thesis
        using Some label [of j] taken [of j] not slot_of_Some [OF s, of m j] by (auto split: if_splits)
    qed
  qed
qed

lemma drop_box_ok:
  assumes s: "table_ok s" and i: "slot_of s nm = Some i"
  shows "table_ok (drop_box i s)" and "slot_of (drop_box i s) = (slot_of s)(nm := None)"
proof -
  note T = table_okD [OF s]
  have I: "box_taken s i" "label_of s i = nm"
    using i slot_of_Some [OF s] by blast+
  have taken: "box_taken (drop_box i s) j \<longleftrightarrow> box_taken s j \<and> j \<noteq> i" for j
    using T(2) I by (auto simp: nth_list_update)
  have "Suc (count_list ((free_boxes s)[i := FREE]) TAKEN) = count_list (free_boxes s) TAKEN"
    using count_list_update [of i "free_boxes s" FREE TAKEN] T(2) I by simp
  then show ok: "table_ok (drop_box i s)"
    unfolding table_ok_def using T taken by auto
  show "slot_of (drop_box i s) = (slot_of s)(nm := None)"
  proof (rule ext)
    fix m
    show "slot_of (drop_box i s) m = ((slot_of s)(nm := None)) m"
    proof (cases "slot_of (drop_box i s) m")
      case None
      then have "box_taken s j \<Longrightarrow> j \<noteq> i \<Longrightarrow> label_of s j \<noteq> m" for j
        using taken [of j] by (auto simp: slot_of_None)
      then have "slot_of s m = None" if "m \<noteq> nm"
        unfolding slot_of_None using I that by metis
      then show ?thesis
        using None by simp
    next
      case (Some j)
      then have j: "box_taken s j" "j \<noteq> i" "label_of s j = m"
        using slot_of_Some [OF ok, of m j] taken [of j] by auto
      then have "m \<noteq> nm"
        using T(6) [of j i] I by auto
      then show ?thesis
        using Some j slot_of_Some [OF s, of m j] by simp
    qed
  qed
qed

section \<open>The contract\<close>

text \<open>
  The operations on names without terminators, as the handlers call them: the name is followed by its
  terminator in the request.
\<close>

definition find_box :: "string \<Rightarrow> server \<Rightarrow> nat option" where
  "find_box nm s = (case box_find (nm @ [NUL]) s of Inr (r, _) \<Rightarrow> if r = -1 then None else Some (nat r) | Inl _ \<Rightarrow> None)"

definition create_box :: "string \<Rightarrow> server \<Rightarrow> (nat \<times> server) option" where
  "create_box nm s =
     (case box_create (nm @ [NUL]) s of
        Inr (r, s') \<Rightarrow> if r = 0 then map_option (\<lambda>i. (i, s')) (find_box nm s') else None
      | Inl _ \<Rightarrow> None)"

definition delete_box :: "string \<Rightarrow> server \<Rightarrow> server option" where
  "delete_box nm s = (case box_delete (nm @ [NUL]) s of Inr (r, s') \<Rightarrow> if r = 0 then Some s' else None | Inl _ \<Rightarrow> None)"

definition box_name_ok :: "string \<Rightarrow> bool" where
  "box_name_ok nm \<longleftrightarrow> is_cstring nm \<and> length nm < BOX_NAME_MAX_LEN"

lemma find_box_eq: "table_ok s \<Longrightarrow> is_cstring nm \<Longrightarrow> find_box nm s = slot_of s nm"
  by (simp add: find_box_def box_find_eq split: option.splits)

interpretation box_table: name_table table_ok slot_of box_name_ok "\<lambda>s. free_slot s \<noteq> None" find_box create_box delete_box
proof
  fix s n v
  assume s: "table_ok s" and "box_name_ok n"
  then have n: "is_cstring n" "length n < BOX_NAME_MAX_LEN"
    by (simp_all add: box_name_ok_def)
  show "find_box n s = slot_of s n"
    using s n(1) by (rule find_box_eq)
  show "\<exists>v s'. create_box n s = Some (v, s') \<and> table_ok s' \<and> slot_of s' = (slot_of s)(n \<mapsto> v)"
    if "slot_of s n = None" and "free_slot s \<noteq> None"
  proof -
    from that(2) obtain i where i: "free_slot s = Some i" by blast
    note N = new_box_ok [OF s i n that(1)]
    have "box_create (n @ [NUL]) s = Inr (0, srv_traced (boxes_write_trace @ box_trace i) (new_box i n s))"
      using box_create_eq [OF s, of "n @ [NUL]"] n i by simp
    then show ?thesis
      using N n(1) find_box_eq [of "srv_traced (boxes_write_trace @ box_trace i) (new_box i n s)" n]
      by (simp add: create_box_def)
  qed
  show "\<exists>s'. delete_box n s = Some s' \<and> table_ok s' \<and> slot_of s' = (slot_of s)(n := None)" if "slot_of s n = Some v"
    using drop_box_ok [OF s that] box_delete_eq [OF s, of "n @ [NUL]"] n(1) that by (simp add: delete_box_def)
  show "delete_box n s = None" if "slot_of s n = None"
    using box_delete_eq [OF s, of "n @ [NUL]"] n(1) that by (simp add: delete_box_def)
qed

end
