(* ===== verification/Connection.thy ===== *)
theory Connection
  imports MBroker_Boxes FS_Props
begin

text \<open>
  The way of a request from a client through the register pipe into the queue of the server:
  \<^verbatim>\<open>client_request_connection\<close>, the listener of \<^verbatim>\<open>main\<close> and \<^verbatim>\<open>mbroker_receive_connection\<close>.
\<close>

lemma code_byte:
  assumes "0 \<le> c" and "c < 256"
  shows "int (le_val (take 1 (int32_bytes c))) = c"
proof -
  have "take 1 (le_bytes k n) = [char_of (n mod 256)]" if "0 < k" for k n
    using that by (cases k) simp_all
  then have "take 1 (int32_bytes c) = [char_of (nat (c mod 2 ^ 32) mod 256)]"
    unfolding int32_bytes_def by simp
  then show ?thesis
    using assms by (simp add: nat_mod_distrib)
qed

lemma packet_write_step:
  assumes "k \<le> length data" and "n = k + m" and "off = length pre"
  shows "packet_write (pre @ replicate n NUL) off data k = Inr ((pre @ take k data) @ replicate m NUL, off + k)"
  using packet_write_prefix [OF assms(1)] packet_write_next [of "take k data" n pre] assms by simp

section \<open>What a client sends\<close>

definition request_bytes :: "int \<Rightarrow> mem \<Rightarrow> string option \<Rightarrow> mem" where
  "request_bytes c session_pipename box_name =
     take 1 (int32_bytes c) @ session_pipename @
     (case box_name of None \<Rightarrow> [] | Some b \<Rightarrow> b @ replicate (BOX_NAME_MAX_LEN - length b) NUL)"

definition register_ready :: "register_env \<Rightarrow> mem \<Rightarrow> bool" where
  "register_ready env out \<longleftrightarrow> register_opens env \<and> register_closes env \<and> on_pipe (register_pipe env) out"

lemma request_packet:
  assumes "length sp = CLIENT_NAMED_PIPE_MAX_LEN" and "n = 257 + m"
  shows "packet_write (replicate n NUL) 0 (int32_bytes c) 1 = Inr (take 1 (int32_bytes c) @ replicate (256 + m) NUL, 1)"
    and "packet_write (take 1 (int32_bytes c) @ replicate (256 + m) NUL) 1 sp CLIENT_NAMED_PIPE_MAX_LEN =
      Inr ((take 1 (int32_bytes c) @ sp) @ replicate m NUL, 257)"
  using packet_write_step [of 1 "int32_bytes c" n "256 + m" 0 "[]"]
    packet_write_step [of CLIENT_NAMED_PIPE_MAX_LEN sp "256 + m" m 1 "take 1 (int32_bytes c)"] assms
  by (simp_all add: CLIENT_NAMED_PIPE_MAX_LEN_def)

lemma client_request_eq:
  assumes env: "register_ready env out" and sp: "length sp = CLIENT_NAMED_PIPE_MAX_LEN"
    and box: "\<And>b. box = Some b \<Longrightarrow> length b \<le> BOX_NAME_MAX_LEN"
  obtains p' where "client_request_connection env c sp box = Inr (0, p')" and "on_pipe p' (out @ request_bytes c sp box)"
proof -
  let ?bs = "request_bytes c sp box"
  have len: "0 < length ?bs" "length ?bs < 2 ^ 63"
    using sp box by (auto simp: request_bytes_def protocol_sizes split: option.splits)
  obtain p' where pw: "pipe_write (register_pipe env) ?bs = (int (length ?bs), p')" "on_pipe p' (out @ ?bs)"
    using pipe_write_packet [of "register_pipe env" out ?bs] env len by (auto simp: register_ready_def)
  have "client_request_connection env c sp box = Inr (0, p')"
  proof (cases box)
    case None
    note request_packet [OF sp, of 257 0 c]
    with None env pw(1) len(1) show ?thesis
      by (simp add: client_request_connection_def packet_ensure_len_limit_def register_ready_def request_bytes_def protocol_sizes)
  next
    case (Some b)
    have "packet_write ((take 1 (int32_bytes c) @ sp) @ replicate 32 NUL) 257 b (length b) =
        Inr (((take 1 (int32_bytes c) @ sp) @ b) @ replicate (32 - length b) NUL, 257 + length b)"
      using packet_write_step [of "length b" b 32 "32 - length b" 257 "take 1 (int32_bytes c) @ sp"] sp box [OF Some]
      by (simp add: protocol_sizes)
    moreover note request_packet [OF sp, of 289 32 c]
    ultimately show ?thesis
      using Some env pw(1) len(1)
      by (simp add: client_request_connection_def packet_ensure_len_limit_def register_ready_def request_bytes_def protocol_sizes)
  qed
  with pw(2) that show thesis by blast
qed

section \<open>What the server makes of it\<close>

lemma strcpy_into_eq:
  assumes "terminated src" and "pos + length (cstr src) < length dst"
  shows "strcpy_into dst pos src = Inr (patch dst pos (cstr src @ [NUL]))"
  using assms by (simp add: strcpy_into_def)

lemma strcpy_into_overflow:
  assumes "terminated src" and "length dst \<le> pos + length (cstr src)"
  shows "strcpy_into dst pos src = Inl OutOfBounds"
  using assms by (simp add: strcpy_into_def mem_write_def)

lemma cstr_patch_start: "is_cstring str \<Longrightarrow> cstr (patch dst 0 (str @ [NUL])) = str" "terminated (patch dst 0 (str @ [NUL]))"
  by (simp_all add: patch_def cstr_append is_cstring_def terminated_def)

text \<open>The listener has read the code; the rest of the request is on the pipe.\<close>

lemma receive_path:
  assumes p: "on_pipe p (sp @ rest)" and sp: "length sp = CLIENT_NAMED_PIPE_MAX_LEN" "terminated sp"
  obtains p' where "pipe_read p CLIENT_NAMED_PIPE_MAX_LEN = (int CLIENT_NAMED_PIPE_MAX_LEN, sp, p')" and "on_pipe p' rest"
    and "strcpy_into (map g [0..<CLIENT_NAMED_PIPE_MAX_LEN]) 0 sp = Inr (patch (map g [0..<CLIENT_NAMED_PIPE_MAX_LEN]) 0 (cstr sp @ [NUL]))"
proof -
  obtain p' where "pipe_read p (length sp) = (int (length sp), sp, p')" "on_pipe p' rest"
    using pipe_read_field [OF p] sp(1) by (auto simp: protocol_sizes)
  moreover have "length (cstr sp) < CLIENT_NAMED_PIPE_MAX_LEN"
    using terminated_length [OF sp(2)] sp(1) by simp
  ultimately show thesis
    using that sp strcpy_into_eq [OF sp(2), of 0 "map g [0..<CLIENT_NAMED_PIPE_MAX_LEN]"] by simp
qed

lemma receive_box_name:
  assumes p: "on_pipe p (bn @ rest)" and bn: "length bn = BOX_NAME_MAX_LEN"
  obtains p' where "pipe_read p BOX_NAME_MAX_LEN = (int BOX_NAME_MAX_LEN, bn, p')" and "on_pipe p' rest"
proof -
  obtain p' where "pipe_read p (length bn) = (int (length bn), bn, p')" "on_pipe p' rest"
    using pipe_read_field [OF p] bn by (auto simp: protocol_sizes)
  with that bn show thesis by simp
qed
type_synonym client_request = "int \<times> mem \<times> string option"

fun bytes_of :: "client_request \<Rightarrow> mem" where
  "bytes_of (c, sp, box) = request_bytes c sp box"

fun well_formed :: "client_request \<Rightarrow> bool" where
  "well_formed (c, sp, box) \<longleftrightarrow>
     is_request c \<and> length sp = CLIENT_NAMED_PIPE_MAX_LEN \<and> terminated sp \<and>
     (if c = PROTOCOL_CODE_LIST_REQUEST then box = None
      else box \<noteq> None \<and> is_cstring (the box) \<and> length (the box) \<le> BOX_NAME_MAX_LEN - 2)"

fun received :: "client_request \<Rightarrow> request_t \<Rightarrow> bool" where
  "received (c, sp, box) req \<longleftrightarrow>
     req_code req = c \<and> terminated (client_named_pipe_path req) \<and> cstr (client_named_pipe_path req) = cstr sp \<and>
     (box \<noteq> None \<longrightarrow> terminated (req_box_name req) \<and> cstr (req_box_name req) = CHR ''/'' # the box)"

lemma box_name_patch:
  assumes "length nm = BOX_NAME_MAX_LEN" and "is_cstring b" and "length b \<le> BOX_NAME_MAX_LEN - 2"
  shows "strcpy_into (nm[0 := CHR ''/'']) 1 (b @ replicate (BOX_NAME_MAX_LEN - length b) NUL) =
      Inr (CHR ''/'' # b @ NUL # drop (length b + 2) nm)"
proof -
  have b: "length b < BOX_NAME_MAX_LEN"
    using assms(3) by (simp add: BOX_NAME_MAX_LEN_def)
  obtain x xs where nm: "nm = x # xs"
    using assms(1) by (cases nm) (auto simp: BOX_NAME_MAX_LEN_def)
  have "strcpy_into (nm[0 := CHR ''/'']) 1 (b @ replicate (BOX_NAME_MAX_LEN - length b) NUL) = Inr (patch (nm[0 := CHR ''/'']) 1 (b @ [NUL]))"
    using strcpy_into_eq [OF cstr_padded(2) [OF assms(2) b], of 1 "nm[0 := CHR ''/'']"] cstr_padded(1) [OF assms(2) b] assms(1,3)
    by (simp add: BOX_NAME_MAX_LEN_def)
  then show ?thesis
    by (simp add: patch_def nm)
qed

lemma receive_ok:
  assumes r: "well_formed (c, sp, box)" and p: "on_pipe p (drop 1 (bytes_of (c, sp, box)) @ rest)"
    and q: "requests_queue s = Some q" "pcq_wf q" "\<not> pcq_full q"
  obtains p' req where "mbroker_receive_connection (Some g) c p s = Inr (Some (0, p', s\<lparr>requests_queue := Some (pcq_put req q)\<rparr>))"
    and "received (c, sp, box) req" and "on_pipe p' rest"
proof -
  have sp: "length sp = CLIENT_NAMED_PIPE_MAX_LEN" "terminated sp"
    using r by simp_all
  define tl_bytes where "tl_bytes = (case box of None \<Rightarrow> [] | Some b \<Rightarrow> b @ replicate (BOX_NAME_MAX_LEN - length b) NUL)"
  have p: "on_pipe p (sp @ tl_bytes @ rest)"
    using p by (simp add: request_bytes_def tl_bytes_def)
  define path where "path = patch (map g [0..<CLIENT_NAMED_PIPE_MAX_LEN]) 0 (cstr sp @ [NUL])"
  obtain p1 where p1: "pipe_read p CLIENT_NAMED_PIPE_MAX_LEN = (int CLIENT_NAMED_PIPE_MAX_LEN, sp, p1)" "on_pipe p1 (tl_bytes @ rest)"
      "strcpy_into (map g [0..<CLIENT_NAMED_PIPE_MAX_LEN]) 0 sp = Inr path"
    using receive_path [OF p sp, of g] unfolding path_def by blast
  have path: "terminated path" "cstr path = cstr sp"
    using cstr_patch_start(1) [of "cstr sp"] cstr_patch_start(2) by (simp_all add: path_def)
  have buf: "pcq_buffer q \<noteq> None"
    using q(2) by (auto simp: pcq_wf_def)
  have pos: "0 < CLIENT_NAMED_PIPE_MAX_LEN" "0 < BOX_NAME_MAX_LEN"
    by (simp_all add: protocol_sizes)
  show thesis
  proof (cases "c = PROTOCOL_CODE_LIST_REQUEST")
    case True
    define req where "req = \<lparr>req_code = c, client_named_pipe_path = path, req_box_name = map g [0..<BOX_NAME_MAX_LEN]\<rparr>"
    have "mbroker_receive_connection (Some g) c p s = Inr (Some (0, p1, s\<lparr>requests_queue := Some (pcq_put req q)\<rparr>))"
      using True p1(1,3) q(1,3) buf pos by (simp add: mbroker_receive_connection_def req_def Let_def)
    moreover have "received (c, sp, box) req"
      using r True path by (simp add: req_def)
    ultimately show thesis
      using that p1(2) r True by (simp add: tl_bytes_def)
  next
    case False
    then obtain b where b: "box = Some b" "is_cstring b" "length b \<le> BOX_NAME_MAX_LEN - 2"
      using r by auto
    have blen: "length tl_bytes = BOX_NAME_MAX_LEN"
      using b by (simp add: tl_bytes_def BOX_NAME_MAX_LEN_def)
    obtain p2 where p2: "pipe_read p1 BOX_NAME_MAX_LEN = (int BOX_NAME_MAX_LEN, tl_bytes, p2)" "on_pipe p2 rest"
      using receive_box_name [OF p1(2) blen] .
    define nm where "nm = CHR ''/'' # b @ NUL # drop (length b + 2) (map g [0..<BOX_NAME_MAX_LEN])"
    define req where "req = \<lparr>req_code = c, client_named_pipe_path = path, req_box_name = nm\<rparr>"
    have "arr_set (map g [0..<BOX_NAME_MAX_LEN]) 0 CHR ''/'' = Inr ((map g [0..<BOX_NAME_MAX_LEN])[0 := CHR ''/''])"
      using pos by simp
    moreover have "strcpy_into ((map g [0..<BOX_NAME_MAX_LEN])[0 := CHR ''/'']) 1 tl_bytes = Inr nm"
      using box_name_patch [OF _ b(2,3), of "map g [0..<BOX_NAME_MAX_LEN]"] b(1) by (simp add: tl_bytes_def nm_def)
    ultimately have "mbroker_receive_connection (Some g) c p s = Inr (Some (0, p2, s\<lparr>requests_queue := Some (pcq_put req q)\<rparr>))"
      using False p1(1,3) p2(1) q(1,3) buf pos by (simp add: mbroker_receive_connection_def req_def Let_def)
    moreover have "cstr nm = CHR ''/'' # b" "terminated nm"
      using b(2) by (simp_all add: nm_def cstr_append is_cstring_def terminated_def)
    then have "received (c, sp, box) req"
      using b(1) path by (simp add: req_def)
    ultimately show thesis
      using that p2(2) by blast
  qed
qed

section \<open>The listener\<close>

lemma read_code:
  assumes "on_pipe p (bytes_of (c, sp, box) @ rest)"
  obtains p' where "pipe_read p 1 = (1, take 1 (int32_bytes c), p')" and "on_pipe p' (drop 1 (bytes_of (c, sp, box)) @ rest)"
proof -
  have "on_pipe p (take 1 (int32_bytes c) @ drop 1 (bytes_of (c, sp, box)) @ rest)"
    using assms by (simp add: request_bytes_def)
  from pipe_read_field [OF this] that show thesis
    by auto
qed

lemma request_code: "is_request c \<Longrightarrow> int (le_val (take 1 (int32_bytes c))) = c"
  by (rule code_byte) (auto simp: is_request_def protocol_codes)

lemma listen_eq:
  assumes "on_pipe p (concat (map bytes_of rs))" and "list_all well_formed rs" and "requests_queue s = Some q" and "pcq_wf q"
    and "length (ring q) + length rs \<le> pcq_capacity q"
  shows "\<exists>p' q' reqs. listen (Some g) p s = ret (At_end_of_pipe, p', s\<lparr>requests_queue := Some q'\<rparr>) \<and> pcq_wf q' \<and>
    pcq_capacity q' = pcq_capacity q \<and> ring q' = ring q @ reqs \<and> list_all2 received rs reqs"
  using assms
proof (induction rs arbitrary: p s q)
  case Nil
  obtain p' where "pipe_read p 1 = (0, [], p')"
    using pipe_read_at_end [of p 1] Nil.prems(1) by auto
  then have "listen (Some g) p s = ret (At_end_of_pipe, p', s\<lparr>requests_queue := Some q\<rparr>)"
    using Nil.prems(3) by (simp add: listen_def listen_loop.simps)
  with Nil.prems show ?case
    by (intro exI [of _ p'] exI [of _ q] exI [of _ "[]"]) simp
next
  case (Cons r rs)
  obtain c sp box where r: "r = (c, sp, box)"
    by (cases r)
  have full: "\<not> pcq_full q"
    using Cons.prems(4,5) ring.full_iff [of q] by simp
  have wf: "well_formed (c, sp, box)" and is_req: "is_request c"
    using Cons.prems(2) by (simp_all add: r)
  have "on_pipe p (bytes_of (c, sp, box) @ concat (map bytes_of rs))"
    using Cons.prems(1) by (simp add: r)
  then obtain p1 where p1: "pipe_read p 1 = (1, take 1 (int32_bytes c), p1)"
      "on_pipe p1 (drop 1 (bytes_of (c, sp, box)) @ concat (map bytes_of rs))"
    using read_code by blast
  obtain p2 req where p2: "mbroker_receive_connection (Some g) c p1 s = Inr (Some (0, p2, s\<lparr>requests_queue := Some (pcq_put req q)\<rparr>))"
      "received (c, sp, box) req" "on_pipe p2 (concat (map bytes_of rs))"
    using receive_ok [OF wf p1(2) Cons.prems(3,4) full] by blast
  note Q = ring.wf_put [OF Cons.prems(4) full, of req] ring.content_put [OF Cons.prems(4) full, of req]
    ring.bound_put [OF Cons.prems(4) full, of req]
  have step: "listen (Some g) p s = listen (Some g) p2 (s\<lparr>requests_queue := Some (pcq_put req q)\<rparr>)"
    using p1(1) p2(1) is_req request_code [OF is_req]
    by (simp add: listen_def listen_loop.simps [of _ 1] split: prod.split)
  have "\<exists>p' q' reqs. listen (Some g) p2 (s\<lparr>requests_queue := Some (pcq_put req q)\<rparr>) =
        ret (At_end_of_pipe, p', s\<lparr>requests_queue := Some (pcq_put req q)\<rparr>\<lparr>requests_queue := Some q'\<rparr>) \<and> pcq_wf q' \<and>
      pcq_capacity q' = pcq_capacity (pcq_put req q) \<and> ring q' = ring (pcq_put req q) @ reqs \<and> list_all2 received rs reqs"
    by (rule Cons.IH [OF p2(3)]) (use Cons.prems(2,5) Q in \<open>simp_all\<close>)
  then obtain p' q' reqs where R: "listen (Some g) p2 (s\<lparr>requests_queue := Some (pcq_put req q)\<rparr>) =
        ret (At_end_of_pipe, p', s\<lparr>requests_queue := Some q'\<rparr>)" "pcq_wf q'"
      "pcq_capacity q' = pcq_capacity q" "ring q' = ring q @ req # reqs" "list_all2 received rs reqs"
    using Q by auto
  then show ?case
    using step p2(2) by (intro exI [of _ p'] exI [of _ q'] exI [of _ "req # reqs"]) (simp add: r)
qed

lemma unknown_code_loops:
  assumes "listen_loop malloc r c p s = Some res" and "0 < r"
  shows "is_request c"
proof -
  have "0 < r \<longrightarrow> is_request c"
    by (rule listen_loop.raw_induct [where P = "\<lambda>m r c p s res. 0 < r \<longrightarrow> is_request c", OF _ assms(1)])
      (metis (no_types, lifting))
  with assms(2) show ?thesis by simp
qed

section \<open>Properties\<close>

text \<open>Clients that connect one after the other; \<open>None\<close> when one of them does not succeed.\<close>

fun connect_all :: "register_env \<Rightarrow> client_request list \<Rightarrow> fifo option" where
  "connect_all env [] = Some (register_pipe env)"
| "connect_all env ((c, sp, box) # rs) =
     (case client_request_connection env c sp box of
        Inr (r, p) \<Rightarrow> if r = 0 then connect_all (env\<lparr>register_pipe := p\<rparr>) rs else None
      | Inl _ \<Rightarrow> None)"

lemma connect_all_eq:
  assumes "register_ready env out" and "list_all well_formed rs"
  shows "\<exists>p. connect_all env rs = Some p \<and> on_pipe p (out @ concat (map bytes_of rs))"
  using assms
proof (induction rs arbitrary: env out)
  case Nil
  then show ?case by (simp add: register_ready_def)
next
  case (Cons r rs)
  obtain c sp box where r: "r = (c, sp, box)"
    by (cases r)
  have "length b \<le> BOX_NAME_MAX_LEN" if "box = Some b" for b
    using Cons.prems(2) that by (auto simp: r split: if_splits)
  then obtain p where p: "client_request_connection env c sp box = Inr (0, p)" "on_pipe p (out @ request_bytes c sp box)"
    using client_request_eq [OF Cons.prems(1), of sp box c] Cons.prems(2) by (auto simp: r)
  have "register_ready (env\<lparr>register_pipe := p\<rparr>) (out @ request_bytes c sp box)"
    using Cons.prems(1) p(2) by (simp add: register_ready_def)
  from Cons.IH [OF this] show ?case
    using Cons.prems(2) p(1) by (simp add: r)
qed

text \<open>
  C28. Requests are neither lost nor mixed up: when clients connect one after the other, with box names of
  at most 30 characters, and the queue has room, the listener puts exactly their requests into the
  queue in that order, each with its code, the path of its session pipe and its box name behind a slash.
\<close>

theorem requests_queued_in_order:
  assumes "register_ready env []" and "list_all well_formed rs" and "requests_queue s = Some q" and "pcq_wf q"
    and "length (ring q) + length rs \<le> pcq_capacity q"
  shows "\<exists>p p' q' reqs. connect_all env rs = Some p \<and>
    listen (Some g) p s = ret (At_end_of_pipe, p', s\<lparr>requests_queue := Some q'\<rparr>) \<and>
    ring q' = ring q @ reqs \<and> list_all2 received rs reqs"
proof -
  obtain p where p: "connect_all env rs = Some p" "on_pipe p (concat (map bytes_of rs))"
    using connect_all_eq [OF assms(1,2)] by auto
  with listen_eq [OF p(2) assms(2-5), of g] show ?thesis
    by blast
qed

definition demo_register :: register_env where
  "demo_register = \<lparr>register_opens = True, register_closes = True, register_pipe = \<lparr>fifo_bytes = [], fifo_outcomes = [Interrupted]\<rparr>\<rparr>"

definition demo_path :: mem where
  "demo_path = ''/tmp/s'' @ replicate 250 NUL"

definition demo_requests :: "client_request list" where
  "demo_requests = [(PROTOCOL_CODE_CREATE_REQUEST, demo_path, Some ''news''), (PROTOCOL_CODE_LIST_REQUEST, demo_path, None)]"

definition demo_pending :: server where
  "demo_pending = \<lparr>fs = off_fs, requests_queue = snd (pcq_create (Some (\<lambda>_. \<lparr>req_code = 0, client_named_pipe_path = [], req_box_name = []\<rparr>))
     (Some \<lparr>pcq_buffer = None, pcq_capacity = 0, pcq_current_size = 0, pcq_head = 0, pcq_tail = 0\<rparr>) 2), n_boxes = 0, boxes_table = [], free_boxes = []\<rparr>"

lemma demo_pending_ok: obtains q where "requests_queue demo_pending = Some q" and "pcq_wf q" and "ring q = []" and "pcq_capacity q = 2"
  using that by (simp add: demo_pending_def pcq_create_def pcq_wf_def ring_def)

lemma demo_path_ok: "length demo_path = CLIENT_NAMED_PIPE_MAX_LEN" "terminated demo_path" "cstr demo_path = ''/tmp/s''"
  by (simp_all add: demo_path_def CLIENT_NAMED_PIPE_MAX_LEN_def terminated_def)

lemma demo_register_ready: "register_ready demo_register []"
  by (simp add: register_ready_def demo_register_def on_pipe_def quiet_def)

theorem requests_queued_in_order_witness:
  "\<exists>p p' q' reqs. connect_all demo_register demo_requests = Some p \<and>
    listen (Some (\<lambda>_. CHR ''x'')) p demo_pending = ret (At_end_of_pipe, p', demo_pending\<lparr>requests_queue := Some q'\<rparr>) \<and>
    ring q' = reqs \<and> list_all2 received demo_requests reqs"
proof -
  obtain q where q: "requests_queue demo_pending = Some q" "pcq_wf q" "ring q = []" "pcq_capacity q = 2"
    by (rule demo_pending_ok)
  have "list_all well_formed demo_requests"
    using demo_path_ok by (simp add: demo_requests_def is_request_def protocol_codes is_cstring_def BOX_NAME_MAX_LEN_def)
  from requests_queued_in_order [OF demo_register_ready this q(1,2)] q(3,4) show ?thesis
    by (simp add: demo_requests_def)
qed

text \<open>
  C35. A box name of 31 or 32 characters fits the request of the client, but the server puts a slash in front
  of it and copies it without a bound into its own field of 32 bytes: it writes past the end of the request.
\<close>

theorem request_name_overflows_server:
  assumes "register_ready env []" and "length sp = CLIENT_NAMED_PIPE_MAX_LEN" and "terminated sp"
    and "is_cstring b" and "length b \<in> {31, 32}" and "is_request c" and "c \<noteq> PROTOCOL_CODE_LIST_REQUEST"
  shows "\<exists>p. client_request_connection env c sp (Some b) = Inr (0, p) \<and> listen (Some g) p s = Some (Inl OutOfBounds)"
proof -
  define bn where "bn = b @ replicate (BOX_NAME_MAX_LEN - length b) NUL"
  obtain p where p: "client_request_connection env c sp (Some b) = Inr (0, p)" "on_pipe p (bytes_of (c, sp, Some b) @ [])"
    by (rule client_request_eq [OF assms(1,2), of "Some b" c]) (use assms(5) in \<open>auto simp: BOX_NAME_MAX_LEN_def\<close>)
  obtain p1 where p1: "pipe_read p 1 = (1, take 1 (int32_bytes c), p1)" "on_pipe p1 (drop 1 (bytes_of (c, sp, Some b)) @ [])"
    using read_code [OF p(2)] .
  have "on_pipe p1 (sp @ bn)"
    using p1(2) by (simp add: request_bytes_def bn_def)
  then obtain p2 path where p2: "pipe_read p1 CLIENT_NAMED_PIPE_MAX_LEN = (int CLIENT_NAMED_PIPE_MAX_LEN, sp, p2)" "on_pipe p2 (bn @ [])"
      "strcpy_into (map g [0..<CLIENT_NAMED_PIPE_MAX_LEN]) 0 sp = Inr path"
    using receive_path [OF _ assms(2,3), of p1 bn g] unfolding append_Nil2 by blast
  obtain p3 where p3: "pipe_read p2 BOX_NAME_MAX_LEN = (int BOX_NAME_MAX_LEN, bn, p3)"
    by (rule receive_box_name [OF p2(2)]) (use assms(5) in \<open>auto simp: bn_def BOX_NAME_MAX_LEN_def\<close>)
  have over: "strcpy_into ((map g [0..<BOX_NAME_MAX_LEN])[0 := CHR ''/'']) 1 bn = Inl OutOfBounds"
  proof (cases "terminated bn")
    case True
    then have "length b = 31" and "cstr bn = b"
      using assms(4,5) by (auto simp: bn_def BOX_NAME_MAX_LEN_def is_cstring_def terminated_def cstr_append)
    then show ?thesis
      using strcpy_into_overflow [OF True, of "(map g [0..<BOX_NAME_MAX_LEN])[0 := CHR ''/'']" 1] by (simp add: BOX_NAME_MAX_LEN_def)
  qed (simp add: strcpy_into_def cstr_at_unterminated)
  have "0 < CLIENT_NAMED_PIPE_MAX_LEN" "0 < BOX_NAME_MAX_LEN"
    by (simp_all add: protocol_sizes)
  then have "mbroker_receive_connection (Some g) c p1 s = Inl OutOfBounds"
    using p2(1,3) p3 over assms(7) by (simp add: mbroker_receive_connection_def Let_def)
  then show ?thesis
    using p(1) p1(1) assms(6) request_code [OF assms(6)] by (simp add: listen_def listen_loop.simps [of _ 1])
qed

theorem request_name_overflows_server_witness:
  "\<exists>p. client_request_connection demo_register PROTOCOL_CODE_CREATE_REQUEST demo_path (Some (replicate 31 CHR ''n'')) = Inr (0, p) \<and>
    listen (Some (\<lambda>_. NUL)) p demo_pending = Some (Inl OutOfBounds)"
  by (rule request_name_overflows_server [OF demo_register_ready demo_path_ok(1,2)])
    (simp_all add: is_cstring_def is_request_def protocol_codes)

text \<open>
  C34. A byte on the register pipe that is not the code of a request makes the listener loop for ever: it
  neither reads on nor returns, so the server takes no further request.
\<close>

theorem unknown_code_hangs_listener:
  assumes "on_pipe p (b # rest)" and "\<not> is_request (int (of_char b))"
  shows "listen malloc p s = None"
proof -
  obtain p' where "pipe_read p 1 = (1, [b], p')"
    using pipe_read_field [of p "[b]" rest] assms(1) by auto
  then have "listen malloc p s = listen_loop malloc 1 (int (of_char b)) p' s"
    by (simp add: listen_def)
  then show ?thesis
    using unknown_code_loops [of malloc 1 "int (of_char b)" p' s] assms(2) by fastforce
qed

theorem unknown_code_hangs_listener_witness:
  "listen None \<lparr>fifo_bytes = [CHR 0x00], fifo_outcomes = []\<rparr> demo_pending = None"
  by (rule unknown_code_hangs_listener [of _ "CHR 0x00" "[]"]) (simp_all add: on_pipe_def quiet_def is_request_def protocol_codes)

end
