(* ===== verification/Manager_Listing.thy ===== *)
theory Manager_Listing
  imports Connection
begin

text \<open>
  The packets the server sends for a listing: one for each box in the order of the table, the last one
  marked, or a single packet without a name when there is no box.
\<close>

section \<open>One packet\<close>

definition listing_bytes :: "bool \<Rightarrow> box_t \<Rightarrow> mem" where
  "listing_bytes last_flag b =
     take 1 (int32_bytes PROTOCOL_CODE_LIST_ANSWER) @ [if last_flag then CHR 0x01 else CHR 0x00] @
     take BOX_NAME_MAX_LEN (drop 1 (box_bytes b)) @
     le_bytes 8 (box_size b) @ le_bytes 8 (n_publishers b) @ le_bytes 8 (n_subscribers b)"

definition no_box_bytes :: mem where
  "no_box_bytes = take 1 (int32_bytes PROTOCOL_CODE_LIST_ANSWER) @ [CHR 0x01] @ replicate (listing_len - 2) NUL"

lemma listing_header:
  "packet_write (replicate listing_len NUL) 0 (int32_bytes PROTOCOL_CODE_LIST_ANSWER) 1 =
    Inr (take 1 (int32_bytes PROTOCOL_CODE_LIST_ANSWER) @ replicate 57 NUL, 1)"
  "length pre = 1 \<Longrightarrow> packet_write (pre @ replicate 57 NUL) 1 [c] 1 = Inr ((pre @ [c]) @ replicate 56 NUL, 2)"
  using packet_write_step [of 1 "int32_bytes PROTOCOL_CODE_LIST_ANSWER" 58 57 0 "[]"]
    packet_write_step [of 1 "[c]" 57 56 1 pre] by (simp_all add: listing_len_def BOX_NAME_MAX_LEN_def)

lemma listing_packet_none: "listing_packet True False b = Inr no_box_bytes"
  using listing_header(2) [of "take 1 (int32_bytes PROTOCOL_CODE_LIST_ANSWER)" "CHR 0x01"]
    listing_header(1)
  by (simp add: listing_packet_def no_box_bytes_def listing_len_def BOX_NAME_MAX_LEN_def)

lemma listing_packet_box:
  assumes "length (name b) = BOX_NAME_MAX_LEN"
  shows "listing_packet last_flag True b = Inr (listing_bytes last_flag b)"
proof -
  let ?c = "take 1 (int32_bytes PROTOCOL_CODE_LIST_ANSWER)"
  define hd where "hd = ?c @ [if last_flag then CHR 0x01 else CHR 0x00]"
  define nm where "nm = take BOX_NAME_MAX_LEN (drop 1 (box_bytes b))"
  have len: "length hd = 2" "length nm = 32" "32 \<le> length (drop 1 (box_bytes b))"
    using assms by (simp_all add: hd_def nm_def box_bytes_def BOX_NAME_MAX_LEN_def)
  have h: "packet_write (?c @ replicate 57 NUL) 1 [if last_flag then CHR 0x01 else CHR 0x00] 1 = Inr (hd @ replicate 56 NUL, 2)"
    using listing_header(2) [of ?c] by (simp add: hd_def)
  have n: "packet_write (hd @ replicate 56 NUL) 2 (drop 1 (box_bytes b)) BOX_NAME_MAX_LEN = Inr ((hd @ nm) @ replicate 24 NUL, 34)"
    using packet_write_step [OF len(3), of 56 24 2 hd] len(1) by (simp add: nm_def BOX_NAME_MAX_LEN_def)
  have f: "packet_write (pre @ replicate (8 + m) NUL) off (le_bytes 8 v) 8 = Inr ((pre @ le_bytes 8 v) @ replicate m NUL, off + 8)"
    if "off = length pre" for pre m off v
    using packet_write_step [of 8 "le_bytes 8 v" "8 + m" m off pre] that by simp
  show ?thesis
    using listing_header(1) h n f [of 34 "hd @ nm" 16 "box_size b"] f [of 42 "(hd @ nm) @ le_bytes 8 (box_size b)" 8 "n_publishers b"]
      f [of 50 "((hd @ nm) @ le_bytes 8 (box_size b)) @ le_bytes 8 (n_publishers b)" 0 "n_subscribers b"] len
    by (simp add: listing_packet_def) (simp add: listing_bytes_def hd_def nm_def)
qed
lemma length_listing_bytes:
  "length (name b) = BOX_NAME_MAX_LEN \<Longrightarrow> length (listing_bytes last_flag b) = listing_len"
  "length no_box_bytes = listing_len"
  by (simp_all add: listing_bytes_def no_box_bytes_def listing_len_def box_bytes_def BOX_NAME_MAX_LEN_def)

section \<open>The loop\<close>

text \<open>The taken slots from \<open>i\<close> on, and the packets for them.\<close>

definition taken_from :: "nat \<Rightarrow> server \<Rightarrow> nat list" where
  "taken_from i s = filter (\<lambda>j. free_boxes s ! j = TAKEN) [i..<slots s]"

definition packets_from :: "nat \<Rightarrow> server \<Rightarrow> mem" where
  "packets_from i s =
     concat (map (\<lambda>j. listing_bytes (taken_from (Suc j) s = []) (boxes_table s ! j)) (taken_from i s))"

lemma taken_from_traced [simp]: "taken_from i (srv_traced t s) = taken_from i s" "packets_from i (srv_traced t s) = packets_from i s"
  by (simp_all add: taken_from_def packets_from_def)

lemma taken_from_step:
  "i < slots s \<Longrightarrow> taken_from i s = (if free_boxes s ! i = TAKEN then i # taken_from (Suc i) s else taken_from (Suc i) s)"
  by (simp add: taken_from_def upt_conv_Cons)

lemma taken_from_end: "slots s \<le> i \<Longrightarrow> taken_from i s = []"
  by (simp add: taken_from_def)

lemma packets_from_step:
  "i < slots s \<Longrightarrow> packets_from i s =
    (if free_boxes s ! i = TAKEN then listing_bytes (taken_from (Suc i) s = []) (boxes_table s ! i) @ packets_from (Suc i) s
     else packets_from (Suc i) s)"
  by (simp add: packets_from_def taken_from_step)

lemma n_boxes_taken: "table_ok s \<Longrightarrow> n_boxes s = int (length (taken_from 0 s))"
proof -
  assume s: "table_ok s"
  have "count_list xs TAKEN = length (filter (\<lambda>j. xs ! j = TAKEN) [0..<length xs])" for xs
  proof (induction xs rule: rev_induct)
    case (snoc x xs)
    have "filter (\<lambda>j. (xs @ [x]) ! j = TAKEN) [0..<length xs] = filter (\<lambda>j. xs ! j = TAKEN) [0..<length xs]"
      by (rule filter_cong) (auto simp: nth_append)
    then show ?case
      using snoc by simp
  qed simp
  then show ?thesis
    using table_okD(2,7) [OF s] by (simp add: taken_from_def)
qed

lemma listing_loop_boxes:
  assumes "table_ok s" and "on_pipe pipe out" and "i \<le> slots s" and "0 < n_boxes s"
    and "k + length (taken_from i s) = length (taken_from 0 s)" and "last_flag \<longrightarrow> taken_from i s = []"
  shows "\<exists>pipe' t. listing_loop i (int k) last_flag pipe s = Inr (True, pipe', srv_traced t s) \<and>
    on_pipe pipe' (out @ packets_from i s)"
  using assms
proof (induction "slots s - i" arbitrary: i k last_flag pipe out s)
  case 0
  then show ?case
    by (intro exI [of _ pipe] exI [of _ "[]"])
      (simp add: listing_loop.simps [of i] slots_simp packets_from_def taken_from_end srv_traced_def)
next
  case (Suc n)
  note T = table_okD [OF Suc.prems(1)]
  have i: "i < slots s" and n: "n = slots s - Suc i"
    using Suc.hyps(2) by simp_all
  have k: "int k \<le> n_boxes s"
    using n_boxes_taken [OF Suc.prems(1)] Suc.prems(5) by simp
  show ?case
  proof (cases "free_boxes s ! i")
    case FREE
    then have "\<exists>pipe' t. listing_loop (Suc i) (int k) last_flag pipe s = Inr (True, pipe', srv_traced t s) \<and>
        on_pipe pipe' (out @ packets_from (Suc i) s)"
      using Suc.prems i by (intro Suc.hyps(1) [OF n]) (simp_all add: taken_from_step)
    with FREE i k Suc.prems(4) T show ?thesis
      by (simp add: listing_loop.simps [of i] slots_simp packets_from_step)
  next
    case TAKEN
    let ?s = "srv_traced (box_trace i) s" and ?last = "taken_from (Suc i) s = []"
    let ?bs = "listing_bytes ?last (boxes_table s ! i)"
    have "int k + 1 = n_boxes s \<longleftrightarrow> length (taken_from (Suc i) s) = 0"
      using Suc.prems(5) TAKEN n_boxes_taken [OF Suc.prems(1)] by (simp add: taken_from_step [OF i] del: length_0_conv) linarith
    then have nolast: "\<not> last_flag" "int k + 1 = n_boxes s \<longleftrightarrow> ?last"
      using Suc.prems(6) TAKEN by (auto simp: taken_from_step [OF i])
    have len: "length ?bs = listing_len"
      using T(4) [OF i] by (rule length_listing_bytes)
    obtain pipe1 where pw: "pipe_write pipe ?bs = (int (length ?bs), pipe1)" "on_pipe pipe1 (out @ ?bs)"
      using pipe_write_packet [OF Suc.prems(2), of ?bs] len by (auto simp: listing_len_def BOX_NAME_MAX_LEN_def)
    have "\<exists>pipe' t. listing_loop (Suc i) (int (Suc k)) ?last pipe1 ?s = Inr (True, pipe', srv_traced t ?s) \<and>
        on_pipe pipe' ((out @ ?bs) @ packets_from (Suc i) ?s)"
      using Suc.prems TAKEN i pw(2) by (intro Suc.hyps(1)) (simp_all add: n taken_from_step [OF i])
    then obtain pipe' t where R: "listing_loop (Suc i) (1 + int k) ?last pipe1 ?s = Inr (True, pipe', srv_traced t ?s)"
        "on_pipe pipe' ((out @ ?bs) @ packets_from (Suc i) s)"
      by auto
    have "0 < listing_len"
      by (simp add: listing_len_def)
    then have "listing_loop i (int k) last_flag pipe s = Inr (True, pipe', srv_traced t ?s)"
      using TAKEN i k Suc.prems(4) T pw(1) nolast R(1) len listing_packet_box [OF T(4) [OF i]]
      by (simp add: listing_loop.simps [of i] slots_simp srv_log_traced add.commute)
    then show ?thesis
      using R(2) TAKEN i by (auto simp: packets_from_step)
  qed
qed

lemma listing_loop_none:
  assumes "table_ok s" and "on_pipe pipe out" and "n_boxes s = 0" and "0 < slots s"
  shows "\<exists>pipe' t. listing_loop 0 0 False pipe s = Inr (True, pipe', srv_traced t s) \<and> on_pipe pipe' (out @ no_box_bytes)"
proof -
  obtain pipe1 where pw: "pipe_write pipe no_box_bytes = (int (length no_box_bytes), pipe1)" "on_pipe pipe1 (out @ no_box_bytes)"
    using pipe_write_packet [OF assms(2), of no_box_bytes] length_listing_bytes(2) by (auto simp: listing_len_def BOX_NAME_MAX_LEN_def)
  have "0 < listing_len"
    by (simp add: listing_len_def)
  then show ?thesis
    using assms(3,4) table_okD(1) [OF assms(1)] pw listing_packet_none length_listing_bytes(2)
    by (intro exI [of _ pipe1] exI [of _ "box_trace 0"])
      (simp add: listing_loop.simps [of 0] listing_loop.simps [of "Suc 0" 1] slots_simp srv_log_traced)
qed

text \<open>What a listing sends.\<close>

definition listing_stream :: "server \<Rightarrow> mem" where
  "listing_stream s = (if taken_from 0 s = [] then no_box_bytes else packets_from 0 s)"

lemma listing_eq:
  assumes "table_ok s" and "0 < slots s" and "session_opens env" and "on_pipe (session_pipe env) out"
  shows "\<exists>pipe' t. workers_handle_manager_listing env req s = ret (0, pipe', srv_traced t s) \<and>
    on_pipe pipe' (out @ listing_stream s)"
proof -
  let ?s = "srv_traced [Acquire_rd free_boxes_lock] s"
  have "\<exists>pipe' t. listing_loop 0 0 False (session_pipe env) ?s = Inr (True, pipe', srv_traced t ?s) \<and>
      on_pipe pipe' (out @ listing_stream s)"
    using listing_loop_boxes [of ?s "session_pipe env" out 0 0 False] listing_loop_none [of ?s "session_pipe env" out]
      assms n_boxes_taken [of s] by (simp add: listing_stream_def)
  then obtain pipe' t where "listing_loop 0 0 False (session_pipe env) ?s = Inr (True, pipe', srv_traced t ?s)"
      "on_pipe pipe' (out @ listing_stream s)"
    by blast
  then show ?thesis
    using assms(3)
    by (auto simp: workers_handle_manager_listing_def srv_log_traced packet_ensure_len_limit_def listing_len_def protocol_sizes)
qed

end
