(* ===== verification/MBroker_Manager.thy ===== *)
theory MBroker_Manager
  imports MBroker_Boxes File_Store
begin

text \<open>
  The server between requests: its table of boxes and the directory of its file system hold the same
  names (\<open>srv_inv\<close>). Creating and removing boxes keeps it so, and answers as the protocol says.
\<close>

declare abs_fs_select [simp del]

section \<open>Calls of the file system\<close>

abbreviation store :: "server \<Rightarrow> afs" where
  "store s \<equiv> abs_fs (fs s)"

lemma srv_open_does:
  "tfs.does (Open (cstr bn) mode) (fs s) (r, []) f \<Longrightarrow> terminated bn \<Longrightarrow> srv_open bn mode s = ret (r, s\<lparr>fs := f\<rparr>)"
  unfolding tfs.does_def exec_call_def srv_open_def
  by (auto simp: bindR_eq_Inr split: prod.splits)

lemma srv_close_does: "tfs.does (Close h) (fs s) (r, []) f \<Longrightarrow> srv_close h s = Inr (r, s\<lparr>fs := f\<rparr>)"
  unfolding tfs.does_def exec_call_def srv_close_def by (auto simp: bindR_eq_Inr split: prod.splits)

lemma srv_close_does_fs: "tfs.does (Close h) f (r, []) f' \<Longrightarrow> srv_close h (s\<lparr>fs := f\<rparr>) = Inr (r, s\<lparr>fs := f'\<rparr>)"
  using srv_close_does [of h "s\<lparr>fs := f\<rparr>"] by simp

lemma srv_unlink_does:
  "tfs.does (Unlink (cstr bn)) (fs s) (r, []) f \<Longrightarrow> terminated bn \<Longrightarrow> srv_unlink bn s = Inr (r, s\<lparr>fs := f\<rparr>)"
  unfolding tfs.does_def exec_call_def srv_unlink_def by (auto simp: bindR_eq_Inr split: prod.splits)

lemma srv_write_does: "tfs.does (Write h buf) (fs s) (r, []) f \<Longrightarrow> srv_write h buf s = Inr (r, s\<lparr>fs := f\<rparr>)"
  unfolding tfs.does_def exec_call_def srv_write_def by (auto simp: bindR_eq_Inr split: prod.splits)

lemma srv_read_does:
  "tfs.does (Read h n) (fs s) (r, bs) f \<Longrightarrow>
    \<exists>buf. srv_read h n s = Inr (r, buf, s\<lparr>fs := f\<rparr>) \<and> take (nat r) buf = bs"
  unfolding tfs.does_def exec_call_def srv_read_def by (auto simp: bindR_eq_Inr split: prod.splits)

lemma does_facts:
  assumes "tfs.does c f r f'"
  shows "fs_inv f'" and "fs_params f' = fs_params f" and "\<exists>t. bracketed Link_lock t \<and> lock_trace f' = lock_trace f @ t"
  using assms by (auto simp: tfs.does_def)

section \<open>The invariant\<close>

definition srv_inv :: "server \<Rightarrow> bool" where
  "srv_inv s \<longleftrightarrow>
     table_ok s \<and> fs_inv (fs s) \<and> plain (store s) \<and>
     (\<forall>nm. slot_of s nm \<noteq> None \<longrightarrow> valid_pathname (Some nm)) \<and>
     (\<forall>n. names (store s) n \<noteq> None \<longleftrightarrow> slot_of s (CHR ''/'' # n) \<noteq> None) \<and>
     inj_on (names (store s)) (dom (names (store s)))"

lemma srv_invD:
  assumes "srv_inv s"
  shows "table_ok s" and "fs_inv (fs s)" and "plain (store s)"
    and "slot_of s nm \<noteq> None \<Longrightarrow> valid_pathname (Some nm)"
    and "names (store s) n \<noteq> None \<longleftrightarrow> slot_of s (CHR ''/'' # n) \<noteq> None"
    and "names (store s) n = Some i \<Longrightarrow> names (store s) m = Some i \<Longrightarrow> n = m"
proof -
  show "names (store s) n = Some i \<Longrightarrow> names (store s) m = Some i \<Longrightarrow> n = m"
    using assms inj_onD [of "names (store s)" "dom (names (store s))" n m] by (simp add: srv_inv_def domI)
qed (use assms in \<open>auto simp: srv_inv_def\<close>)

text \<open>The invariant depends on the table and on the view of the store only.\<close>

lemma slot_of_cong:
  "free_boxes s' = free_boxes s \<Longrightarrow> boxes_table s' = boxes_table s \<Longrightarrow> fs_params (fs s') = fs_params (fs s) \<Longrightarrow>
    slot_of s' = slot_of s"
  by (simp add: slot_of_def fun_eq_iff)

lemma table_ok_fs [simp]: "fs_params f = fs_params (fs s) \<Longrightarrow> table_ok (s\<lparr>fs := f\<rparr>) = table_ok s"
  by (simp add: table_ok_def)

lemma slot_of_fs [simp]: "fs_params f = fs_params (fs s) \<Longrightarrow> slot_of (s\<lparr>fs := f\<rparr>) = slot_of s"
  by (rule slot_of_cong) simp_all

lemma traced_inv [simp]: "fs_inv (traced t f) = fs_inv f"
  by (simp add: fs_inv_def no_orphans_def)

lemma abs_traced [simp]: "abs_fs (traced t f) = abs_fs f"
  by (simp add: abs_fs_def)

lemma srv_inv_traced [simp]: "srv_inv (srv_traced t s) = srv_inv s"
  by (simp add: srv_inv_def)

lemma srv_inv_same_view:
  assumes "srv_inv s" and "fs_inv f" and "fs_params f = fs_params (fs s)"
    and "names (abs_fs f) = names (store s)" and "plain (abs_fs f)"
  shows "srv_inv (s\<lparr>fs := f\<rparr>)"
  using assms by (simp add: srv_inv_def)

section \<open>Room for a new box\<close>

lemma valid_path_split: "valid_pathname (Some nm) \<Longrightarrow> nm = CHR ''/'' # tl nm \<and> tl nm \<noteq> []"
  by (cases nm) auto

lemma slot_iff_name:
  assumes "srv_inv s" and "valid_pathname (Some nm)"
  shows "slot_of s nm \<noteq> None \<longleftrightarrow> names (store s) (tl nm) \<noteq> None"
  using srv_invD(5) [OF assms(1), of "tl nm"] valid_path_split [OF assms(2)] by simp

lemma free_slot_exists:
  assumes s: "srv_inv s" and i: "fresh_inode (fs_params (fs s)) (store s) i"
  shows "free_slot s \<noteq> None"
proof
  assume full: "free_slot s = None"
  have taken: "box_taken s j" if "j < slots s" for j
    using full that unfolding free_slot_def find_upt_None_iff by (metis allocation_state_t.exhaust)
  let ?k = "\<lambda>j. the (names (store s) (tl (label_of s j)))"
  have bound: "names (store s) (tl (label_of s j)) = Some (?k j)" "valid_pathname (Some (label_of s j))" if "j < slots s" for j
  proof -
    have "slot_of s (label_of s j) \<noteq> None"
      using taken [OF that] slot_of_Some [OF srv_invD(1) [OF s]] by (metis option.distinct(1))
    then show v: "valid_pathname (Some (label_of s j))"
      by (rule srv_invD(4) [OF s])
    show "names (store s) (tl (label_of s j)) = Some (?k j)"
      using slot_iff_name [OF s v] \<open>slot_of s (label_of s j) \<noteq> None\<close> by simp
  qed
  have "inj_on ?k {..<slots s}"
  proof (rule inj_onI)
    fix j j'
    assume j: "j \<in> {..<slots s}" "j' \<in> {..<slots s}" and eq: "?k j = ?k j'"
    have "tl (label_of s j) = tl (label_of s j')"
      using srv_invD(6) [OF s bound(1)] bound(1) j eq by (metis lessThan_iff)
    then have "label_of s j = label_of s j'"
      using valid_path_split [OF bound(2)] j by (metis lessThan_iff)
    then show "j = j'"
      using table_okD(6) [OF srv_invD(1) [OF s]] taken j by blast
  qed
  moreover have "?k ` {..<slots s} \<subseteq> {0<..<slots s}"
    using tfs.name_bound [OF srv_invD(2) [OF s]] bound(1) by fastforce
  ultimately have "slots s \<le> slots s - 1"
    using card_inj_on_le [of ?k "{..<slots s}" "{0<..<slots s}"] by simp
  moreover have "0 < slots s"
    using i by (simp add: fresh_inode_def)
  ultimately show False by simp
qed

section \<open>Answers\<close>

definition answer_bytes :: "int \<Rightarrow> int \<Rightarrow> string \<Rightarrow> mem" where
  "answer_bytes c rc msg = take 1 (int32_bytes c) @ int32_bytes rc @ msg @ replicate (MSG_MAX_LEN - length msg) NUL"

lemma answer_packet_eq:
  assumes "length msg \<le> MSG_MAX_LEN"
  shows "answer_packet c rc msg = Inr (answer_bytes c rc msg)"
proof -
  have one: "packet_write (replicate answer_len NUL) 0 (int32_bytes c) 1 =
      Inr (take 1 (int32_bytes c) @ replicate (4 + MSG_MAX_LEN) NUL, 1)"
    using packet_write_first [of "take 1 (int32_bytes c)" answer_len] packet_write_prefix [of 1 "int32_bytes c"]
    by (simp add: answer_len_def)
  have two: "packet_write (take 1 (int32_bytes c) @ replicate (4 + MSG_MAX_LEN) NUL) 1 (int32_bytes rc) 4 =
      Inr ((take 1 (int32_bytes c) @ int32_bytes rc) @ replicate MSG_MAX_LEN NUL, 5)"
    using packet_write_next [of "int32_bytes rc" "4 + MSG_MAX_LEN" "take 1 (int32_bytes c)"] by simp
  show ?thesis
    using packet_write_next [OF assms, of "take 1 (int32_bytes c) @ int32_bytes rc"] one two
    by (simp add: answer_packet_def answer_bytes_def)
qed

lemma length_answer_bytes [simp]: "length msg \<le> MSG_MAX_LEN \<Longrightarrow> length (answer_bytes c rc msg) = answer_len"
  by (simp add: answer_bytes_def answer_len_def)

text \<open>The pipe of a client after an answer.\<close>

definition answered :: "session_env \<Rightarrow> mem \<Rightarrow> fifo" where
  "answered env bs = (if session_opens env then snd (pipe_write (session_pipe env) bs) else session_pipe env)"

lemma answered_quiet:
  assumes "session_opens env" and "on_pipe (session_pipe env) out" and "length bs < 2 ^ 64"
  shows "on_pipe (answered env bs) (out @ bs)"
  using pipe_write_packet [OF assms(2,3)] assms(1) by (metis answered_def snd_conv)

lemma len_limits [simp]:
  "packet_ensure_len_limit answer_len a b = b" "packet_ensure_len_limit listing_len a b = b"
  "packet_ensure_len_limit (Suc MSG_MAX_LEN) a b = b"
  by (simp_all add: packet_ensure_len_limit_def answer_len_def listing_len_def protocol_sizes)

section \<open>Creating a box\<close>

lemma new_box_fs [simp]: "(new_box j nm s)\<lparr>fs := f\<rparr> = new_box j nm (s\<lparr>fs := f\<rparr>)"
  by (simp add: new_box_def)

lemma drop_box_fs [simp]: "(drop_box j s)\<lparr>fs := f\<rparr> = drop_box j (s\<lparr>fs := f\<rparr>)"
  by (simp add: drop_box_def)

lemma srv_traced_fs [simp]: "(srv_traced t s)\<lparr>fs := f\<rparr> = s\<lparr>fs := f\<rparr>"
  by (simp add: srv_traced_def)

lemma free_slot_fs [simp]: "fs_params f = fs_params (fs s) \<Longrightarrow> free_slot (s\<lparr>fs := f\<rparr>) = free_slot s"
  by (simp add: free_slot_def)

lemma attached_closed:
  assumes "handles a f = None" and "i \<in> ran (names a)"
  shows "collect i (a\<lparr>handles := (handles a)(f := None)\<rparr>) = a"
  using assms by (simp add: collect_def unreferenced_def fun_upd_idem)

lemma open_and_close:
  assumes s: "srv_inv s" and bn: "terminated bn" "slot_of s (cstr bn) = Some j"
    and room: "\<not> handles_full (fs_params (fs s)) (store s)"
  obtains h f1 f2 where "srv_open bn 0 s = ret (int h, s\<lparr>fs := f1\<rparr>)" and "srv_close (int h) (s\<lparr>fs := f1\<rparr>) = Inr (0, s\<lparr>fs := f2\<rparr>)"
    and "fs_inv f2" and "fs_params f2 = fs_params (fs s)" and "abs_fs f2 = store s"
proof -
  note S = srv_invD [OF s]
  have v: "valid_pathname (Some (cstr bn))"
    using S(4) bn(2) by simp
  obtain i where i: "names (store s) (tl (cstr bn)) = Some i"
    using slot_iff_name [OF s v] bn(2) by auto
  obtain c where c: "nodes (store s) i = Some (AFile c)"
    using tfs.file_bound [OF S(2,3) i] .
  obtain h f1 where o: "tfs.does (Open (cstr bn) 0) (fs s) (int h, []) f1" "handles (store s) h = None"
      "abs_fs f1 = (store s)\<lparr>handles := (handles (store s))(h \<mapsto> (i, 0))\<rparr>"
    by (rule tfs.open_file [OF S(2,3) is_cstring_cstr v i c _ room, of 0]) simp_all
  note F1 = does_facts [OF o(1)]
  have p1: "plain (abs_fs f1)" and h1: "handles (abs_fs f1) h = Some (i, 0)"
    using S(3) by (simp_all add: o(3) plain_def)
  obtain f2 where cl: "tfs.does (Close (int h)) f1 (0, []) f2"
      "abs_fs f2 = collect i ((abs_fs f1)\<lparr>handles := (handles (abs_fs f1))(h := None)\<rparr>)"
    using tfs.close_handle [OF F1(1) p1 h1] by blast
  have "abs_fs f2 = collect i ((store s)\<lparr>handles := (handles (store s))(h := None)\<rparr>)"
    unfolding cl(2) o(3) by simp
  also have "\<dots> = store s"
    using o(2) i by (intro attached_closed) (auto intro: ranI)
  finally show thesis
    using that [OF srv_open_does [OF o(1) bn(1)] srv_close_does_fs [OF cl(1)]] does_facts [OF cl(1)] F1(2)
    by simp
qed

lemma close_nothing:
  assumes "fs_inv f" and "plain (abs_fs f)"
  obtains f' where "srv_close (-1) (s\<lparr>fs := f\<rparr>) = Inr (-1, s\<lparr>fs := f'\<rparr>)" and "fs_inv f'"
    and "fs_params f' = fs_params f" and "abs_fs f' = abs_fs f"
proof -
  obtain f' where f': "tfs.does (Close (-1)) f (-1, []) f'" "abs_fs f' = abs_fs f"
    using tfs.close_bad [OF assms, of "-1"] by auto
  show thesis
    using that [OF srv_close_does_fs [OF f'(1)]] does_facts [OF f'(1)] f'(2) by simp
qed

definition creatable :: "string \<Rightarrow> server \<Rightarrow> bool" where
  "creatable nm s \<longleftrightarrow>
     valid_pathname (Some nm) \<and> slot_of s nm = None \<and> can_bind (fs_params (fs s)) (store s) (tl nm) \<and>
     \<not> inodes_full (fs_params (fs s)) (store s)"

lemma open_refused:
  assumes s: "srv_inv s" and bn: "terminated bn" and no: "slot_of s (cstr bn) = None"
    and mode: "mode = 0 \<or> \<not> creatable (cstr bn) s"
  obtains f where "srv_open bn mode s = ret (-1, s\<lparr>fs := f\<rparr>)"
    and "fs_inv f" and "fs_params f = fs_params (fs s)" and "abs_fs f = store s"
proof -
  note S = srv_invD [OF s]
  have "\<exists>f. tfs.does (Open (cstr bn) mode) (fs s) (-1, []) f \<and> abs_fs f = store s"
  proof (cases "valid_pathname (Some (cstr bn))")
    case False
    then show ?thesis
      using tfs.open_bad_path [OF S(2,3) is_cstring_cstr] by blast
  next
    case True
    then have "names (store s) (tl (cstr bn)) = None"
      using slot_iff_name [OF s True] no by auto
    moreover have "\<not> has_flag mode TFS_O_CREAT \<or> inodes_full (fs_params (fs s)) (store s) \<or>
        \<not> can_bind (fs_params (fs s)) (store s) (tl (cstr bn))"
      using mode True no by (auto simp: creatable_def)
    ultimately show ?thesis
      using tfs.open_missing [OF S(2,3) is_cstring_cstr] by blast
  qed
  then show thesis
    using that srv_open_does [OF _ bn] does_facts by blast
qed

lemma srv_inv_after_create:
  assumes s: "srv_inv s" and ok: "creatable nm s" and nm: "is_cstring nm" "length nm < BOX_NAME_MAX_LEN"
    and j: "free_slot s = Some j" and f: "fs_inv f" "fs_params f = fs_params (fs s)"
    and v: "abs_fs f = (store s)\<lparr>names := (names (store s))(tl nm \<mapsto> i), nodes := (nodes (store s))(i \<mapsto> AFile [])\<rparr>"
    and i: "fresh_inode (fs_params (fs s)) (store s) i"
  shows "srv_inv (new_box j nm (s\<lparr>fs := f\<rparr>))" and "slot_of (new_box j nm (s\<lparr>fs := f\<rparr>)) = (slot_of s)(nm \<mapsto> j)"
proof -
  note S = srv_invD [OF s]
  let ?s = "s\<lparr>fs := f\<rparr>"
  have T: "table_ok ?s" "free_slot ?s = Some j" "slot_of ?s nm = None"
    using S(1) f j ok by (simp_all add: creatable_def)
  note N = new_box_ok [OF T(1,2) nm T(3)]
  show sl: "slot_of (new_box j nm ?s) = (slot_of s)(nm \<mapsto> j)"
    using N(2) f by simp
  have path: "valid_pathname (Some nm)" "nm = CHR ''/'' # tl nm"
    using ok valid_path_split by (auto simp: creatable_def)
  have fresh: "names (store s) n \<noteq> Some i" for n
    using tfs.name_bound [OF S(2), of n i] i by (auto simp: fresh_inode_def)
  have "inj_on ((names (store s))(tl nm \<mapsto> i)) (dom ((names (store s))(tl nm \<mapsto> i)))"
    using S(6) fresh by (auto simp: inj_on_def dom_def split: if_splits)
  moreover have "((names (store s))(tl nm \<mapsto> i)) n \<noteq> None \<longleftrightarrow> ((slot_of s)(nm \<mapsto> j)) (CHR ''/'' # n) \<noteq> None" for n
  proof -
    have "CHR ''/'' # n = nm \<longleftrightarrow> n = tl nm"
      using path(2) by (metis list.sel(3))
    then show ?thesis
      using S(5) [of n] by simp
  qed
  moreover have "valid_pathname (Some m)" if "((slot_of s)(nm \<mapsto> j)) m \<noteq> None" for m
    using that path(1) S(4) [of m] by (cases "m = nm") auto
  moreover have "plain (abs_fs f)"
    using S(3) by (simp add: v plain_def)
  ultimately show "srv_inv (new_box j nm ?s)"
    using N(1) f(1) by (simp add: srv_inv_def sl v)
qed

text \<open>What the handler does, by cases.\<close>

lemma create_existing:
  assumes s: "srv_inv s" and bn: "terminated bn" "slot_of s (cstr bn) = Some j"
    and room: "\<not> handles_full (fs_params (fs s)) (store s)" and req: "req_box_name req = bn"
  obtains f where "fs_inv f" and "fs_params f = fs_params (fs s)" and "abs_fs f = store s"
    and "workers_handle_manager_create env req s =
      ret (0, answered env (answer_bytes PROTOCOL_CODE_CREATE_ANSWER (-1) ''Couldn't create box''), s\<lparr>fs := f\<rparr>)"
proof -
  obtain h f1 f2 where o: "srv_open bn 0 s = ret (int h, s\<lparr>fs := f1\<rparr>)" "srv_close (int h) (s\<lparr>fs := f1\<rparr>) = Inr (0, s\<lparr>fs := f2\<rparr>)"
      "fs_inv f2" "fs_params f2 = fs_params (fs s)" "abs_fs f2 = store s"
    using open_and_close [OF s bn room] .
  show thesis
    by (rule that [OF o(3-5)]) (simp add: workers_handle_manager_create_def answer_packet_eq answered_def MSG_MAX_LEN_def req o(1,2))
qed

lemma create_refused:
  assumes s: "srv_inv s" and bn: "terminated bn" "slot_of s (cstr bn) = None" and no: "\<not> creatable (cstr bn) s"
    and req: "req_box_name req = bn"
  obtains f where "fs_inv f" and "fs_params f = fs_params (fs s)" and "abs_fs f = store s"
    and "workers_handle_manager_create env req s =
      ret (0, answered env (answer_bytes PROTOCOL_CODE_CREATE_ANSWER (-1) ''Couldn't create box''), s\<lparr>fs := f\<rparr>)"
proof -
  obtain f1 where o1: "srv_open bn 0 s = ret (-1, s\<lparr>fs := f1\<rparr>)" "fs_inv f1" "fs_params f1 = fs_params (fs s)" "abs_fs f1 = store s"
    using open_refused [OF s bn] by blast
  have s1: "srv_inv (s\<lparr>fs := f1\<rparr>)"
    using srv_inv_same_view [OF s o1(2,3)] srv_invD(3) [OF s] o1(4) by simp
  obtain f2 where o2: "srv_open bn TFS_O_CREAT (s\<lparr>fs := f1\<rparr>) = ret (-1, s\<lparr>fs := f2\<rparr>)" "fs_inv f2"
      "fs_params f2 = fs_params (fs s)" "abs_fs f2 = store s"
    using open_refused [OF s1 bn(1), of TFS_O_CREAT] bn(2) no o1(3,4) by (auto simp: creatable_def)
  obtain f3 where o3: "srv_close (-1) (s\<lparr>fs := f2\<rparr>) = Inr (-1, s\<lparr>fs := f3\<rparr>)" "fs_inv f3" "fs_params f3 = fs_params f2" "abs_fs f3 = abs_fs f2"
    using close_nothing [OF o2(2)] srv_invD(3) [OF s] o2(4) by metis
  show thesis
    by (rule that [of f3]) (simp_all add: workers_handle_manager_create_def answer_packet_eq answered_def MSG_MAX_LEN_def req o1 o2 o3)
qed

lemma create_new:
  assumes s: "srv_inv s" and bn: "terminated bn" "length (cstr bn) < BOX_NAME_MAX_LEN" and ok: "creatable (cstr bn) s"
    and room: "\<not> handles_full (fs_params (fs s)) (store s)" and req: "req_box_name req = bn"
  obtains f j i where "free_slot s = Some j" and "fs_inv f" and "fs_params f = fs_params (fs s)"
    and "fresh_inode (fs_params (fs s)) (store s) i"
    and "abs_fs f = (store s)\<lparr>names := (names (store s))(tl (cstr bn) \<mapsto> i), nodes := (nodes (store s))(i \<mapsto> AFile [])\<rparr>"
    and "workers_handle_manager_create env req s =
      ret (0, answered env (answer_bytes PROTOCOL_CODE_CREATE_ANSWER 0 []), new_box j (cstr bn) (s\<lparr>fs := f\<rparr>))"
proof -
  note S = srv_invD [OF s]
  have nm: "valid_pathname (Some (cstr bn))" "slot_of s (cstr bn) = None" "can_bind (fs_params (fs s)) (store s) (tl (cstr bn))"
      "\<not> inodes_full (fs_params (fs s)) (store s)"
    using ok by (simp_all add: creatable_def)
  obtain f1 where o1: "srv_open bn 0 s = ret (-1, s\<lparr>fs := f1\<rparr>)" "fs_inv f1" "fs_params f1 = fs_params (fs s)" "abs_fs f1 = store s"
    using open_refused [OF s bn(1) nm(2)] by blast
  have p1: "plain (abs_fs f1)"
    using S(3) o1(4) by simp
  obtain h i f2 where o2: "tfs.does (Open (cstr bn) TFS_O_CREAT) f1 (int h, []) f2" "fresh_inode (fs_params f1) (abs_fs f1) i"
      "handles (abs_fs f1) h = None"
      "abs_fs f2 = (abs_fs f1)\<lparr>names := (names (abs_fs f1))(tl (cstr bn) \<mapsto> i), nodes := (nodes (abs_fs f1))(i \<mapsto> AFile []),
        handles := (handles (abs_fs f1))(h \<mapsto> (i, 0))\<rparr>"
    by (rule tfs.open_create [OF o1(2) p1 is_cstring_cstr nm(1)]) (use nm room o1(3,4) in simp_all)
  note F2 = does_facts [OF o2(1)]
  have open2: "srv_open bn TFS_O_CREAT (s\<lparr>fs := f1\<rparr>) = ret (int h, s\<lparr>fs := f2\<rparr>)"
    using srv_open_does [OF _ bn(1), of TFS_O_CREAT "s\<lparr>fs := f1\<rparr>"] o2(1) by simp
  have i: "fresh_inode (fs_params (fs s)) (store s) i"
    using o2(2) o1(3,4) by simp
  then obtain j where j: "free_slot s = Some j"
    using free_slot_exists [OF s] by blast
  define t where "t = boxes_write_trace @ box_trace j"
  have bc: "box_create bn (s\<lparr>fs := f2\<rparr>) = Inr (0, srv_traced t (new_box j (cstr bn) (s\<lparr>fs := f2\<rparr>)))"
    using box_create_eq [OF _ bn, of "s\<lparr>fs := f2\<rparr>"] S(1) F2(2) o1(3) j by (simp add: t_def)
  have f2: "fs_inv (traced t f2)" "plain (abs_fs (traced t f2))" "handles (abs_fs (traced t f2)) h = Some (i, 0)"
    using F2(1) S(3) o1(4) by (simp_all add: o2(4) plain_def)
  obtain f3 where f3: "tfs.does (Close (int h)) (traced t f2) (0, []) f3"
      "abs_fs f3 = collect i ((abs_fs (traced t f2))\<lparr>handles := (handles (abs_fs (traced t f2)))(h := None)\<rparr>)"
    using tfs.close_handle [OF f2] by blast
  note F3 = does_facts [OF f3(1)]
  have cl: "srv_close (int h) (srv_traced t (new_box j (cstr bn) (s\<lparr>fs := f2\<rparr>))) = Inr (0, new_box j (cstr bn) (s\<lparr>fs := f3\<rparr>))"
    using srv_close_does [of "int h" "srv_traced t (new_box j (cstr bn) (s\<lparr>fs := f2\<rparr>))"] f3(1) by simp
  define a where "a = (store s)\<lparr>names := (names (store s))(tl (cstr bn) \<mapsto> i), nodes := (nodes (store s))(i \<mapsto> AFile [])\<rparr>"
  have "abs_fs f3 = collect i (a\<lparr>handles := (handles a)(h := None)\<rparr>)"
    unfolding f3(2) by (simp add: o2(4) o1(4) a_def)
  also have "\<dots> = a"
    using o2(3) o1(4) by (intro attached_closed) (auto simp: a_def intro: ranI)
  finally have abs: "abs_fs f3 = a" .
  show thesis
    by (rule that [OF j F3(1) _ i abs [unfolded a_def]])
      (use F2(2) F3(2) o1(1,3) in \<open>simp_all add: workers_handle_manager_create_def answer_packet_eq answered_def MSG_MAX_LEN_def req open2 bc cl\<close>)
qed

section \<open>The boxes a client sees\<close>

text \<open>The server as a map from the names of its boxes to what has been published in them.\<close>

definition file_content :: "afs \<Rightarrow> string \<Rightarrow> mem option" where
  "file_content a n =
     Option.bind (names a n) (\<lambda>i. Option.bind (nodes a i) (\<lambda>nd. case nd of AFile c \<Rightarrow> Some c | ALink _ \<Rightarrow> None))"

definition boxes :: "server \<Rightarrow> string \<Rightarrow> mem option" where
  "boxes s nm = (if valid_pathname (Some nm) then file_content (store s) (tl nm) else None)"

lemma boxes_traced [simp]: "boxes (srv_traced t s) = boxes s"
  by (simp add: boxes_def fun_eq_iff)

lemma boxes_new_box [simp]: "boxes (new_box j nm s) = boxes s" "boxes (drop_box j s) = boxes s"
  by (simp_all add: boxes_def fun_eq_iff)

lemma boxes_same_view: "abs_fs f = store s \<Longrightarrow> boxes (s\<lparr>fs := f\<rparr>) = boxes s"
  by (simp add: boxes_def fun_eq_iff)

lemma file_content_Some: "file_content a n = Some c \<longleftrightarrow> (\<exists>i. names a n = Some i \<and> nodes a i = Some (AFile c))"
  unfolding file_content_def bind_eq_Some_conv by (metis anode.exhaust anode.simps(5,6) option.distinct(1) option.inject)

lemma boxes_Some:
  "boxes s nm = Some c \<longleftrightarrow> valid_pathname (Some nm) \<and> (\<exists>i. names (store s) (tl nm) = Some i \<and> nodes (store s) i = Some (AFile c))"
  by (auto simp: boxes_def file_content_Some)

lemma boxes_None:
  assumes s: "srv_inv s"
  shows "boxes s nm = None \<longleftrightarrow> slot_of s nm = None"
proof -
  note S = srv_invD [OF s]
  have "slot_of s nm \<noteq> None \<longleftrightarrow> (\<exists>c. boxes s nm = Some c)"
  proof
    assume "slot_of s nm \<noteq> None"
    moreover have v: "valid_pathname (Some nm)"
      using S(4) calculation .
    ultimately obtain i where i: "names (store s) (tl nm) = Some i"
      using slot_iff_name [OF s] by blast
    show "\<exists>c. boxes s nm = Some c"
      by (rule tfs.file_bound [OF S(2,3) i]) (use v i boxes_Some in blast)
  qed (use slot_iff_name [OF s] boxes_Some in blast)
  then show ?thesis by auto
qed

lemma boxes_eqI: "(\<And>m c. boxes s m = Some c \<longleftrightarrow> g m = Some c) \<Longrightarrow> boxes s = g"
  by (intro ext option.expand) (metis option.collapse option.exhaust_sel option.inject, metis option.exhaust_sel option.sel)

lemma same_name: "valid_pathname (Some m) \<Longrightarrow> valid_pathname (Some nm) \<Longrightarrow> tl m = tl nm \<longleftrightarrow> m = nm"
  using valid_path_split by metis

lemma boxes_after_create:
  assumes "srv_inv s" and "valid_pathname (Some nm)" and "fresh_inode (fs_params (fs s)) (store s) i"
    and "abs_fs f = (store s)\<lparr>names := (names (store s))(tl nm \<mapsto> i), nodes := (nodes (store s))(i \<mapsto> AFile [])\<rparr>"
  shows "boxes (s\<lparr>fs := f\<rparr>) = (boxes s)(nm \<mapsto> [])"
proof (rule boxes_eqI)
  fix m c
  have "names (store s) n \<noteq> Some i" for n
    using tfs.name_bound [OF srv_invD(2) [OF assms(1)], of n i] assms(3) by (auto simp: fresh_inode_def)
  then have "nodes (abs_fs f) k = nodes (store s) k" if "names (store s) (tl m) = Some k" for k
    using that by (cases "k = i") (auto simp: assms(4))
  then show "boxes (s\<lparr>fs := f\<rparr>) m = Some c \<longleftrightarrow> ((boxes s)(nm \<mapsto> [])) m = Some c"
    using assms(2) same_name [of m nm] by (cases "m = nm") (auto simp: boxes_Some assms(4) simp del: valid_pathname.simps)
qed

section \<open>Removing a box\<close>

lemma collect_other [simp]:
  "names (collect i a) = names a" "handles (collect i a) = handles a" "j \<noteq> i \<Longrightarrow> nodes (collect i a) j = nodes a j"
  "plain a \<Longrightarrow> plain (collect i a)"
  by (simp_all add: collect_def plain_def)

lemma after_remove:
  assumes s: "srv_inv s" and j: "slot_of s nm = Some j" and i: "names (store s) (tl nm) = Some i"
    and f: "fs_inv f" "fs_params f = fs_params (fs s)"
    and v: "abs_fs f = collect i ((store s)\<lparr>names := (names (store s))(tl nm := None)\<rparr>)"
  shows "srv_inv (drop_box j (s\<lparr>fs := f\<rparr>))" and "slot_of (drop_box j (s\<lparr>fs := f\<rparr>)) = (slot_of s)(nm := None)"
    and "boxes (s\<lparr>fs := f\<rparr>) = (boxes s)(nm := None)"
proof -
  note S = srv_invD [OF s]
  let ?s = "s\<lparr>fs := f\<rparr>"
  have T: "table_ok ?s" "slot_of ?s nm = Some j"
    using S(1) f j by simp_all
  note N = drop_box_ok [OF T]
  show sl: "slot_of (drop_box j ?s) = (slot_of s)(nm := None)"
    using N(2) f by simp
  have path: "valid_pathname (Some nm)" "nm = CHR ''/'' # tl nm"
    using S(4) [of nm] j valid_path_split by auto
  have "inj_on ((names (store s))(tl nm := None)) (dom ((names (store s))(tl nm := None)))"
    using S(6) by (auto simp: inj_on_def dom_def split: if_splits)
  moreover have "((names (store s))(tl nm := None)) n \<noteq> None \<longleftrightarrow> ((slot_of s)(nm := None)) (CHR ''/'' # n) \<noteq> None" for n
  proof -
    have "CHR ''/'' # n = nm \<longleftrightarrow> n = tl nm"
      using path(2) by (metis list.sel(3))
    then show ?thesis
      using S(5) [of n] by simp
  qed
  moreover have "valid_pathname (Some m)" if "((slot_of s)(nm := None)) m \<noteq> None" for m
    using that S(4) [of m] by (cases "m = nm") auto
  moreover have "plain (abs_fs f)"
    unfolding v using S(3) by (intro collect_other) (simp add: plain_def)
  ultimately show "srv_inv (drop_box j ?s)"
    using N(1) f(1) by (simp add: srv_inv_def sl v)
  show "boxes ?s = (boxes s)(nm := None)"
  proof (rule boxes_eqI)
    fix m c
    have "nodes (abs_fs f) k = nodes (store s) k" if "names (store s) (tl m) = Some k" "tl m \<noteq> tl nm" for k
      using that S(6) [OF i, of "tl m"] by (cases "k = i") (auto simp: v)
    then show "boxes ?s m = Some c \<longleftrightarrow> ((boxes s)(nm := None)) m = Some c"
      using same_name [OF _ path(1), of m] by (cases "m = nm") (auto simp: boxes_Some v simp del: valid_pathname.simps)
  qed
qed

lemma remove_existing:
  assumes s: "srv_inv s" and bn: "terminated bn" "slot_of s (cstr bn) = Some j" and req: "req_box_name req = bn"
  obtains f i where "names (store s) (tl (cstr bn)) = Some i" and "fs_inv f" and "fs_params f = fs_params (fs s)"
    and "abs_fs f = collect i ((store s)\<lparr>names := (names (store s))(tl (cstr bn) := None)\<rparr>)"
    and "workers_handle_manager_remove env req s =
      ret (if session_opens env then 0 else -1, answered env (answer_bytes PROTOCOL_CODE_REMOVE_ANSWER 0 []), drop_box j (s\<lparr>fs := f\<rparr>))"
proof -
  note S = srv_invD [OF s]
  have v: "valid_pathname (Some (cstr bn))"
    using S(4) bn(2) by simp
  obtain i where i: "names (store s) (tl (cstr bn)) = Some i"
    using slot_iff_name [OF s v] bn(2) by auto
  define t where "t = Acquire_wr free_boxes_lock # box_trace j @ [Release free_boxes_lock]"
  have bd: "box_delete bn s = Inr (0, srv_traced t (drop_box j s))"
    using box_delete_eq [OF S(1) bn(1)] bn(2) by (simp add: t_def)
  have inv: "fs_inv (traced t (fs s))" "plain (abs_fs (traced t (fs s)))" "names (abs_fs (traced t (fs s))) (tl (cstr bn)) = Some i"
    using S(2,3) i by simp_all
  obtain f where f: "tfs.does (Unlink (cstr bn)) (traced t (fs s)) (0, []) f"
      "abs_fs f = collect i ((abs_fs (traced t (fs s)))\<lparr>names := (names (abs_fs (traced t (fs s))))(tl (cstr bn) := None)\<rparr>)"
    using tfs.unlink_name [OF inv(1,2) is_cstring_cstr v inv(3)] by blast
  have ul: "srv_unlink bn (srv_traced t (drop_box j s)) = Inr (0, drop_box j (s\<lparr>fs := f\<rparr>))"
    using srv_unlink_does [OF _ bn(1), of "srv_traced t (drop_box j s)"] f(1) by simp
  show thesis
    by (rule that [OF i, of f]) (use does_facts [OF f(1)] f(2) in
      \<open>simp_all add: workers_handle_manager_remove_def bd ul req answer_packet_eq answered_def\<close>)
qed

lemma remove_missing:
  assumes "table_ok s" and "terminated bn" and "slot_of s (cstr bn) = None" and "req_box_name req = bn"
  shows "workers_handle_manager_remove env req s =
    ret (if session_opens env then 0 else -1, answered env (answer_bytes PROTOCOL_CODE_REMOVE_ANSWER (-1) ''Couldn't remove box''),
      srv_traced boxes_write_trace s)"
  using assms box_delete_eq [of s bn] by (simp add: workers_handle_manager_remove_def answer_packet_eq answered_def MSG_MAX_LEN_def)

end
