(* ===== verification/MBroker_Init.thy ===== *)
theory MBroker_Init
  imports MBroker_Manager FS_Props
begin

text \<open>
  \<^verbatim>\<open>mbroker_init\<close>: when everything it asks of the system is granted, the server starts with an empty,
  consistent table of boxes and file system and an empty queue of requests.
\<close>

section \<open>The tables of a fresh server\<close>

lemma mark_free_eq:
  "n \<le> length xs \<Longrightarrow> mark_free n xs = Inr (replicate n FREE @ drop n xs)"
proof (induction n)
  case (Suc n)
  then have "(replicate n FREE @ drop n xs)[n := FREE] = replicate n FREE @ FREE # drop (Suc n) xs"
    by (simp add: list_update_append flip: Cons_nth_drop_Suc)
  then show ?case
    using Suc by (simp add: replicate_app_Cons_same)
qed simp

lemma mark_free_missing: "0 < n \<Longrightarrow> mark_free n [] = Inl OutOfBounds"
proof (induction n)
  case (Suc n)
  then show ?case by (cases n) simp_all
qed simp

text \<open>What the system grants a server that starts.\<close>

definition boot_ok :: "boot_env \<Rightarrow> nat \<Rightarrow> bool" where
  "boot_ok env n \<longleftrightarrow>
     all_mallocs_ok (tfs_env env) \<and> queue_malloc env \<noteq> None \<and> buffer_malloc env \<noteq> None \<and> workers_malloc env \<and>
     (\<forall>i<n. thread_starts env i) \<and> boxes_malloc env \<noteq> None \<and> free_boxes_malloc env \<noteq> None \<and> pipe_made env \<and>
     (\<forall>i. length (name (the (boxes_malloc env) i)) = BOX_NAME_MAX_LEN)"

text \<open>The process has just started: no file system, no box.\<close>

definition just_started :: "server \<Rightarrow> bool" where
  "just_started s \<longleftrightarrow> \<not> inode_table_set (fs s) \<and> n_boxes s = 0"

lemma mbroker_params_simps [simp]:
  "max_inode_count (mbroker_params n) = 64" "max_block_count (mbroker_params n) = 1024"
  "max_open_files_count (mbroker_params n) = n" "block_size (mbroker_params n) = 1048576"
  by (simp_all add: mbroker_params_def tfs_default_params_def)

lemma params_ok_mbroker: "n < 2 ^ 31 \<Longrightarrow> params_ok (mbroker_params n)"
  by (simp add: params_ok_def)

lemma mbroker_init_eq:
  assumes env: "boot_ok env n" and s: "just_started s" and n: "0 < n" "n < 2 ^ 31"
  obtains f q where "fs_inv f" and "fs_params f = mbroker_params n" and "abs_fs f = empty_afs 1023"
    and "pcq_create (buffer_malloc env) (queue_malloc env) n = (0, Some q)"
    and "mbroker_init env n s = Inr (0, s\<lparr>fs := f, requests_queue := Some q,
      boxes_table := map (the (boxes_malloc env)) [0..<64], free_boxes := replicate 64 FREE\<rparr>)"
proof -
  obtain f where f: "tfs_init (tfs_env env) (Some (mbroker_params n)) (fs s) = Inr (0, f)" "fs_inv f"
      "fs_params f = mbroker_params n" "abs_fs f = empty_afs 1023"
    using tfs_init_ok [of "tfs_env env" "fs s" "mbroker_params n"] params_ok_mbroker n env s
    by (auto simp: boot_ok_def just_started_def)
  obtain q0 g fm gb where G: "queue_malloc env = Some q0" "buffer_malloc env = Some g" "free_boxes_malloc env = Some fm"
      "boxes_malloc env = Some gb" "workers_malloc env" "pipe_made env" "workers_init (thread_starts env) n = 0"
    using env by (auto simp: boot_ok_def workers_init_def)
  then obtain q where q: "pcq_create (buffer_malloc env) (queue_malloc env) n = (0, Some q)"
    using n by (auto simp: pcq_create_def)
  have fb: "mark_free 64 (map fm [0..<64]) = Inr (replicate 64 FREE)"
    using mark_free_eq [of 64 "map fm [0..<64]"] by simp
  have size: "inode_table_size f = 64"
    using f(3) by (simp add: inode_table_size_def INODE_TABLE_SIZE_def)
  show thesis
    by (rule that [OF f(2-4) q]) (use f(1) q G fb size in
      \<open>simp add: mbroker_init_def Let_def inode_table_size_def del: upt_rec_numeral\<close>)
qed
lemma all_free_table:
  assumes "fs_inv f" and "abs_fs f = empty_afs k" and "max_inode_count (fs_params f) = n" and "n < 2 ^ 31" and "n_boxes s = 0"
    and "\<forall>i. length (name (g i)) = BOX_NAME_MAX_LEN"
    and s'_def: "s' = s\<lparr>fs := f, requests_queue := q, boxes_table := map g [0..<n], free_boxes := replicate n FREE\<rparr>"
  shows "srv_inv s'" and "boxes s' = Map.empty" and "slot_of s' = Map.empty"
proof -
  have none: "count_list (replicate m FREE) TAKEN = 0" for m
    by (induction m) simp_all
  have "table_ok s'"
    using assms(3-6) none by (auto simp: table_ok_def s'_def)
  moreover show sl: "slot_of s' = Map.empty"
    using assms(3) by (auto simp: s'_def fun_eq_iff slot_of_None)
  ultimately show "srv_inv s'"
    using assms(1,2) by (simp add: srv_inv_def s'_def plain_def)
  show "boxes s' = Map.empty"
    using assms(2) by (simp add: boxes_def fun_eq_iff s'_def file_content_def)
qed

section \<open>Properties\<close>

text \<open>
  C32. When the system grants the server what it asks for, \<^verbatim>\<open>mbroker_init\<close> returns 0 and leaves a consistent
  server without boxes, whose queue of requests is empty and holds \<^verbatim>\<open>max_sessions\<close> of them.
\<close>

theorem mbroker_init_establishes_invariant:
  assumes "boot_ok env n" and "just_started s" and "0 < n" and "n < 2 ^ 31"
  shows "\<exists>s' q. mbroker_init env n s = Inr (0, s') \<and> srv_inv s' \<and> boxes s' = Map.empty \<and>
    requests_queue s' = Some q \<and> pcq_wf q \<and> ring q = [] \<and> pcq_capacity q = n"
proof -
  obtain f q where B: "fs_inv f" "fs_params f = mbroker_params n" "abs_fs f = empty_afs 1023"
      "pcq_create (buffer_malloc env) (queue_malloc env) n = (0, Some q)"
      "mbroker_init env n s = Inr (0, s\<lparr>fs := f, requests_queue := Some q,
        boxes_table := map (the (boxes_malloc env)) [0..<64], free_boxes := replicate 64 FREE\<rparr>)"
    using mbroker_init_eq [OF assms] .
  have "pcq_wf q \<and> ring q = [] \<and> pcq_capacity q = n"
    using B(4) pcq_create_wf [OF assms(3)] assms(1) unfolding boot_ok_def
    by (metis option.exhaust option.inject prod.inject)
  moreover note all_free_table [OF B(1,3) _ _ _ _ refl, of 64 s "the (boxes_malloc env)" "Some q"]
  ultimately show ?thesis
    using B(2,5) assms(1,2) by (auto simp: boot_ok_def just_started_def simp del: upt_rec_numeral)
qed

text \<open>A server to try things on. Its allocated boxes hold what the memory held before.\<close>

definition demo_boot :: boot_env where
  "demo_boot = \<lparr>tfs_env = demo_env, queue_malloc = Some \<lparr>pcq_buffer = None, pcq_capacity = 9, pcq_current_size = 9, pcq_head = 9, pcq_tail = 9\<rparr>,
     buffer_malloc = Some (\<lambda>_. \<lparr>req_code = 0, client_named_pipe_path = [], req_box_name = []\<rparr>), workers_malloc = True,
     thread_starts = \<lambda>_. True, boxes_malloc = Some (\<lambda>_. \<lparr>name = replicate 32 CHR ''x'', box_size = 7, n_publishers = 0, n_subscribers = 7\<rparr>),
     free_boxes_malloc = Some (\<lambda>_. TAKEN), pipe_made = True\<rparr>"

definition off_server :: server where
  "off_server = \<lparr>fs = off_fs, requests_queue = None, n_boxes = 0, boxes_table = [], free_boxes = []\<rparr>"

lemma demo_boot_ok: "boot_ok demo_boot n" "just_started off_server"
  by (simp_all add: boot_ok_def demo_boot_def just_started_def off_server_def off_fs_def demo_env_def all_mallocs_ok_def BOX_NAME_MAX_LEN_def)

theorem mbroker_init_establishes_invariant_witness:
  "\<exists>s' q. mbroker_init demo_boot 2 off_server = Inr (0, s') \<and> srv_inv s' \<and> boxes s' = Map.empty \<and>
    requests_queue s' = Some q \<and> pcq_wf q \<and> ring q = [] \<and> pcq_capacity q = 2"
  using mbroker_init_establishes_invariant [OF demo_boot_ok, of 2] by simp

text \<open>
  \<^verbatim>\<open>mbroker_init\<close> tests the allocation of \<^verbatim>\<open>boxes_table\<close> but not that of \<^verbatim>\<open>free_boxes\<close>: when the second one
  fails, the server writes through a null pointer.
\<close>

theorem mbroker_init_free_boxes_unchecked:
  assumes "boot_ok (env\<lparr>free_boxes_malloc := Some g\<rparr>) n" and "just_started s" and "0 < n" and "n < 2 ^ 31"
  shows "mbroker_init (env\<lparr>free_boxes_malloc := None\<rparr>) n s = Inl OutOfBounds"
proof -
  obtain f where f: "tfs_init (tfs_env env) (Some (mbroker_params n)) (fs s) = Inr (0, f)"
      "fs_params f = mbroker_params n"
    using tfs_init_ok [of "tfs_env env" "fs s" "mbroker_params n"] params_ok_mbroker assms
    by (auto simp: boot_ok_def just_started_def)
  obtain q0 gb where G: "queue_malloc env = Some q0" "buffer_malloc env \<noteq> None"
      "boxes_malloc env = Some gb" "workers_malloc env" "pipe_made env" "workers_init (thread_starts env) n = 0"
    using assms(1) by (auto simp: boot_ok_def workers_init_def)
  obtain q where "pcq_create (buffer_malloc env) (queue_malloc env) n = (0, Some q)"
    using G assms(3) by (auto simp: pcq_create_def)
  then show ?thesis
    using f G mark_free_missing [of 64] by (simp add: mbroker_init_def Let_def inode_table_size_def INODE_TABLE_SIZE_def del: upt_rec_numeral)
qed

theorem mbroker_init_free_boxes_unchecked_witness:
  "mbroker_init (demo_boot\<lparr>free_boxes_malloc := None\<rparr>) 2 off_server = Inl OutOfBounds"
proof -
  have "boot_ok (demo_boot\<lparr>free_boxes_malloc := Some (\<lambda>_. FREE)\<rparr>) 2"
    using demo_boot_ok(1) [of 2] by (simp add: boot_ok_def)
  then show ?thesis
    by (rule mbroker_init_free_boxes_unchecked) (simp_all add: demo_boot_ok)
qed

end
