(* ===== verification/Manager_Requests.thy ===== *)
theory Manager_Requests
  imports MBroker_Init
begin

text \<open>
  What a manager gets from the server. The server is seen as the map \<open>boxes\<close> from names to contents:
  a request to create a box adds an empty one, a request to remove a box takes it out, each with the
  answer the protocol asks for, and a listing sends one packet for each box.
\<close>

declare abs_fs_select [simp del]

section \<open>A server to try requests on\<close>

definition state_of :: "(int \<times> server) res \<Rightarrow> server" where
  "state_of x = (case x of Inr (_, s) \<Rightarrow> s | Inl _ \<Rightarrow> off_server)"

definition demo_server :: server where
  "demo_server = state_of (mbroker_init demo_boot 2 off_server)"

definition demo_request :: "int \<Rightarrow> request_t" where
  "demo_request c = \<lparr>req_code = c, client_named_pipe_path = ''/tmp/m'' @ [NUL], req_box_name = ''/news'' @ [NUL]\<rparr>"

definition demo_session :: session_env where
  "demo_session = \<lparr>session_opens = True, session_pipe = \<lparr>fifo_bytes = [], fifo_outcomes = [Interrupted]\<rparr>\<rparr>"

lemma demo_server_ok:
  shows "srv_inv demo_server" and "boxes demo_server = Map.empty" and "slot_of demo_server = Map.empty"
    and "store demo_server = empty_afs 1023" and "fs_params (fs demo_server) = mbroker_params 2"
    and demo_server_table: "boxes_table demo_server = map (the (boxes_malloc demo_boot)) [0..<64]"
proof -
  obtain f q where B: "fs_inv f" "fs_params f = mbroker_params 2" "abs_fs f = empty_afs 1023"
      "mbroker_init demo_boot 2 off_server = Inr (0, off_server\<lparr>fs := f, requests_queue := Some q,
        boxes_table := map (the (boxes_malloc demo_boot)) [0..<64], free_boxes := replicate 64 FREE\<rparr>)"
    by (rule mbroker_init_eq [OF demo_boot_ok, of 2]) simp_all
  then have d: "demo_server = off_server\<lparr>fs := f, requests_queue := Some q,
        boxes_table := map (the (boxes_malloc demo_boot)) [0..<64], free_boxes := replicate 64 FREE\<rparr>"
    by (simp add: demo_server_def state_of_def)
  have "max_inode_count (fs_params f) = 64" "n_boxes off_server = 0"
      "\<forall>i. length (name (the (boxes_malloc demo_boot) i)) = BOX_NAME_MAX_LEN"
    using B(2) demo_boot_ok(1) by (auto simp: off_server_def boot_ok_def)
  from all_free_table [OF B(1,3) this(1) _ this(2,3) d] B(2,3)
  show "srv_inv demo_server" "boxes demo_server = Map.empty" "slot_of demo_server = Map.empty"
      "store demo_server = empty_afs 1023" "fs_params (fs demo_server) = mbroker_params 2"
      "boxes_table demo_server = map (the (boxes_malloc demo_boot)) [0..<64]"
    by (simp_all add: d del: upt_rec_numeral)
qed

lemma demo_request_simps [simp]:
  "terminated (req_box_name (demo_request c))" "cstr (req_box_name (demo_request c)) = ''/news''"
  by (simp_all add: demo_request_def)

lemma demo_creatable: "creatable ''/news'' demo_server" "\<not> handles_full (fs_params (fs demo_server)) (store demo_server)"
  using demo_server_ok
  by (auto simp: creatable_def can_bind_def dir_full_def inodes_full_def handles_full_def sizeof_dir_entry_def
      invalid_sub_name_def MAX_FILE_NAME_def intro: exI [of _ 0])

section \<open>Creating and removing boxes\<close>

lemma create_request:
  assumes s: "srv_inv s" and bn: "terminated (req_box_name req)" "length (cstr (req_box_name req)) < BOX_NAME_MAX_LEN"
    and room: "\<not> handles_full (fs_params (fs s)) (store s)"
  defines "nm \<equiv> cstr (req_box_name req)"
  obtains s' where "workers_handle_manager_create env req s =
      ret (0, answered env (if creatable nm s then answer_bytes PROTOCOL_CODE_CREATE_ANSWER 0 []
          else answer_bytes PROTOCOL_CODE_CREATE_ANSWER (-1) ''Couldn't create box''), s')"
    and "srv_inv s'" and "boxes s' = (if creatable nm s then (boxes s)(nm \<mapsto> []) else boxes s)"
    and "fs_params (fs s') = fs_params (fs s)" and "requests_queue s' = requests_queue s" and "handles (store s') = handles (store s)"
proof (cases "creatable nm s")
  case True
  then have ok: "creatable (cstr (req_box_name req)) s"
    by (simp add: nm_def)
  obtain f j i where C: "free_slot s = Some j" "fs_inv f" "fs_params f = fs_params (fs s)"
      "fresh_inode (fs_params (fs s)) (store s) i"
      "abs_fs f = (store s)\<lparr>names := (names (store s))(tl nm \<mapsto> i), nodes := (nodes (store s))(i \<mapsto> AFile [])\<rparr>"
      "workers_handle_manager_create env req s =
        ret (0, answered env (answer_bytes PROTOCOL_CODE_CREATE_ANSWER 0 []), new_box j nm (s\<lparr>fs := f\<rparr>))"
    using create_new [OF s bn ok room refl, of env] unfolding nm_def by blast
  have "is_cstring nm" "length nm < BOX_NAME_MAX_LEN"
    using bn by (simp_all add: nm_def)
  note A = srv_inv_after_create [OF s True this C(1-3,5,4)]
  show thesis
    by (rule that [of "new_box j nm (s\<lparr>fs := f\<rparr>)"])
      (use True A(1) C(3,5,6) boxes_after_create [OF s _ C(4,5)] in \<open>simp_all add: creatable_def\<close>)
next
  case False
  have "\<exists>f. fs_inv f \<and> fs_params f = fs_params (fs s) \<and> abs_fs f = store s \<and>
      workers_handle_manager_create env req s =
        ret (0, answered env (answer_bytes PROTOCOL_CODE_CREATE_ANSWER (-1) ''Couldn't create box''), s\<lparr>fs := f\<rparr>)"
  proof (cases "slot_of s nm")
    case None
    then show ?thesis
      using create_refused [OF s bn(1) _ _ refl, of env] False unfolding nm_def by metis
  next
    case (Some j)
    then show ?thesis
      using create_existing [OF s bn(1) _ room refl, of j env] unfolding nm_def by metis
  qed
  then obtain f where "fs_inv f" "fs_params f = fs_params (fs s)" "abs_fs f = store s"
      "workers_handle_manager_create env req s =
        ret (0, answered env (answer_bytes PROTOCOL_CODE_CREATE_ANSWER (-1) ''Couldn't create box''), s\<lparr>fs := f\<rparr>)"
    by blast
  with False show thesis
    by (intro that [of "s\<lparr>fs := f\<rparr>"]) (simp_all add: boxes_same_view srv_inv_same_view [OF s] srv_invD(3) [OF s])
qed
lemma remove_request:
  assumes s: "srv_inv s" and bn: "terminated (req_box_name req)"
  defines "nm \<equiv> cstr (req_box_name req)"
  obtains s' where "workers_handle_manager_remove env req s =
      ret (if session_opens env then 0 else -1,
        answered env (if boxes s nm \<noteq> None then answer_bytes PROTOCOL_CODE_REMOVE_ANSWER 0 []
          else answer_bytes PROTOCOL_CODE_REMOVE_ANSWER (-1) ''Couldn't remove box''), s')"
    and "srv_inv s'" and "boxes s' = (boxes s)(nm := None)"
    and "fs_params (fs s') = fs_params (fs s)" and "requests_queue s' = requests_queue s" and "handles (store s') = handles (store s)"
proof (cases "slot_of s nm")
  case None
  then have "boxes s nm = None"
    using boxes_None [OF s] by simp
  moreover have "boxes s = (boxes s)(nm := None)"
    using \<open>boxes s nm = None\<close> by (simp add: fun_eq_iff)
  moreover note remove_missing [OF srv_invD(1) [OF s] bn _ refl, of env] None
  ultimately show thesis
    using s by (intro that [of "srv_traced boxes_write_trace s"]) (simp_all add: nm_def)
next
  case (Some j)
  have "boxes s nm \<noteq> None"
    using boxes_None [OF s] Some by simp
  moreover obtain f i where R: "names (store s) (tl nm) = Some i" "fs_inv f" "fs_params f = fs_params (fs s)"
      "abs_fs f = collect i ((store s)\<lparr>names := (names (store s))(tl nm := None)\<rparr>)"
      "workers_handle_manager_remove env req s = ret (if session_opens env then 0 else -1,
        answered env (answer_bytes PROTOCOL_CODE_REMOVE_ANSWER 0 []), drop_box j (s\<lparr>fs := f\<rparr>))"
    using remove_existing [OF s bn _ refl, of j env] Some unfolding nm_def by blast
  moreover note after_remove [OF s Some R(1-4)]
  ultimately show thesis
    by (intro that [of "drop_box j (s\<lparr>fs := f\<rparr>)"]) (simp_all add: collect_def)
qed

text \<open>
  C29. A request to create a box, with a handle of the file system free for the worker, is answered with 0
  and adds an empty box of that name when the name is new and valid and the file system has room for it;
  otherwise it is answered with -1 and changes no box. The table of boxes and the directory of the
  file system agree afterwards.
\<close>

theorem manager_create_request:
  assumes "srv_inv s" and "terminated (req_box_name req)" and "length (cstr (req_box_name req)) < BOX_NAME_MAX_LEN"
    and "\<not> handles_full (fs_params (fs s)) (store s)"
  shows "\<exists>s'. workers_handle_manager_create env req s =
      ret (0, answered env (if creatable (cstr (req_box_name req)) s then answer_bytes PROTOCOL_CODE_CREATE_ANSWER 0 []
          else answer_bytes PROTOCOL_CODE_CREATE_ANSWER (-1) ''Couldn't create box''), s') \<and>
    srv_inv s' \<and>
    boxes s' = (if creatable (cstr (req_box_name req)) s then (boxes s)(cstr (req_box_name req) \<mapsto> []) else boxes s)"
  by (rule create_request [OF assms, of env]) blast

theorem manager_create_request_witness:
  "\<exists>s'. workers_handle_manager_create demo_session (demo_request PROTOCOL_CODE_CREATE_REQUEST) demo_server =
      ret (0, answered demo_session (answer_bytes PROTOCOL_CODE_CREATE_ANSWER 0 []), s') \<and>
    srv_inv s' \<and> boxes s' = [''/news'' \<mapsto> []]"
  using manager_create_request [OF demo_server_ok(1) _ _ demo_creatable(2), of "demo_request PROTOCOL_CODE_CREATE_REQUEST" demo_session]
    demo_creatable(1) demo_server_ok(2) by (simp add: BOX_NAME_MAX_LEN_def)

text \<open>
  C30. A request to remove a box is answered with 0 when there is such a box and with -1 when there is none;
  in either case there is none afterwards, every other box is as before, and the table of boxes and
  the directory agree.
\<close>

theorem manager_remove_request:
  assumes "srv_inv s" and "terminated (req_box_name req)"
  shows "\<exists>s'. workers_handle_manager_remove env req s =
      ret (if session_opens env then 0 else -1,
        answered env (if boxes s (cstr (req_box_name req)) \<noteq> None then answer_bytes PROTOCOL_CODE_REMOVE_ANSWER 0 []
          else answer_bytes PROTOCOL_CODE_REMOVE_ANSWER (-1) ''Couldn't remove box''), s') \<and>
    srv_inv s' \<and> boxes s' = (boxes s)(cstr (req_box_name req) := None)"
  by (rule remove_request [OF assms, of env]) blast

theorem manager_remove_request_witness:
  "\<exists>s'. workers_handle_manager_remove demo_session (demo_request PROTOCOL_CODE_REMOVE_REQUEST) demo_server =
      ret (0, answered demo_session (answer_bytes PROTOCOL_CODE_REMOVE_ANSWER (-1) ''Couldn't remove box''), s') \<and>
    srv_inv s' \<and> boxes s' = Map.empty"
  using manager_remove_request [OF demo_server_ok(1), of "demo_request PROTOCOL_CODE_REMOVE_REQUEST" demo_session]
    demo_server_ok(2) by (simp add: demo_session_def)

text \<open>
  C31. Removing a box that has just been created restores everything: the names, files and handles of the
  file system, its number of free blocks, and the table of boxes.
\<close>

theorem manager_create_remove_roundtrip:
  assumes s: "srv_inv s" and bn: "terminated (req_box_name req)" "length (cstr (req_box_name req)) < BOX_NAME_MAX_LEN"
    and ok: "creatable (cstr (req_box_name req)) s" and room: "\<not> handles_full (fs_params (fs s)) (store s)"
  shows "\<exists>s1 s2 r. workers_handle_manager_create env req s =
      ret (0, answered env (answer_bytes PROTOCOL_CODE_CREATE_ANSWER 0 []), s1) \<and>
    workers_handle_manager_remove env' req s1 = ret (r, answered env' (answer_bytes PROTOCOL_CODE_REMOVE_ANSWER 0 []), s2) \<and>
    store s2 = store s \<and> slot_of s2 = slot_of s \<and> n_boxes s2 = n_boxes s"
proof -
  define nm where "nm = cstr (req_box_name req)"
  note S = srv_invD [OF s]
  obtain f j i where C: "free_slot s = Some j" "fs_inv f" "fs_params f = fs_params (fs s)"
      "fresh_inode (fs_params (fs s)) (store s) i"
      "abs_fs f = (store s)\<lparr>names := (names (store s))(tl nm \<mapsto> i), nodes := (nodes (store s))(i \<mapsto> AFile [])\<rparr>"
      "workers_handle_manager_create env req s =
        ret (0, answered env (answer_bytes PROTOCOL_CODE_CREATE_ANSWER 0 []), new_box j nm (s\<lparr>fs := f\<rparr>))"
    using create_new [OF s bn ok room refl, of env] unfolding nm_def by blast
  let ?s1 = "new_box j nm (s\<lparr>fs := f\<rparr>)"
  have "is_cstring nm" "length nm < BOX_NAME_MAX_LEN" "creatable nm s"
    using bn ok by (simp_all add: nm_def)
  note A = srv_inv_after_create [OF s this(3,1,2) C(1-3,5,4)]
  have j: "slot_of ?s1 (cstr (req_box_name req)) = Some j"
    by (simp add: A(2) flip: nm_def)
  obtain f2 i2 where R: "names (store ?s1) (tl nm) = Some i2" "fs_inv f2" "fs_params f2 = fs_params (fs ?s1)"
      "abs_fs f2 = collect i2 ((store ?s1)\<lparr>names := (names (store ?s1))(tl nm := None)\<rparr>)"
      "workers_handle_manager_remove env' req ?s1 = ret (if session_opens env' then 0 else -1,
        answered env' (answer_bytes PROTOCOL_CODE_REMOVE_ANSWER 0 []), drop_box j (?s1\<lparr>fs := f2\<rparr>))"
    using remove_existing [OF A(1) bn(1) j refl, of env'] unfolding nm_def by blast
  have gone: "names (store s) (tl nm) = None" "nodes (store s) i = None"
    using ok C(4) by (simp_all add: creatable_def can_bind_def fresh_inode_def nm_def)
  have "unreferenced (store s) i"
    unfolding unreferenced_def ran_def using tfs.name_bound [OF S(2)] tfs.handle_bound [OF S(2)] gone(2) by blast
  then have st: "abs_fs f2 = store s"
    using R(1,4) gone by (simp add: C(5) collect_def blocks_held_def fun_upd_idem)
  have "slot_of s nm = None"
    using ok by (simp add: creatable_def nm_def)
  then have "slot_of (drop_box j (?s1\<lparr>fs := f2\<rparr>)) = slot_of s"
    using after_remove(2) [OF A(1) _ R(1-4), of j] by (simp add: A(2) fun_upd_idem)
  then show ?thesis
    using C(6) R(5) st by (auto simp flip: nm_def)
qed

theorem manager_create_remove_roundtrip_witness:
  "\<exists>s1 s2 r. workers_handle_manager_create demo_session (demo_request PROTOCOL_CODE_CREATE_REQUEST) demo_server =
      ret (0, answered demo_session (answer_bytes PROTOCOL_CODE_CREATE_ANSWER 0 []), s1) \<and>
    workers_handle_manager_remove demo_session (demo_request PROTOCOL_CODE_CREATE_REQUEST) s1 =
      ret (r, answered demo_session (answer_bytes PROTOCOL_CODE_REMOVE_ANSWER 0 []), s2) \<and>
    store s2 = store demo_server \<and> slot_of s2 = slot_of demo_server \<and> n_boxes s2 = n_boxes demo_server"
  by (rule manager_create_remove_roundtrip [OF demo_server_ok(1) _ _ _ demo_creatable(2)])
    (simp_all add: demo_creatable(1) BOX_NAME_MAX_LEN_def)

end
