(* ===== verification/Listing_Client.thy ===== *)
theory Listing_Client
  imports Clients Manager_Listing Manager_Requests
begin

text \<open>
  A listing from the table of the server to the output of the manager: what \<open>workers_handle_manager_listing\<close> sends,
  \<open>manager_handle_box_listing\<close> receives, and prints sorted by name.
\<close>

section \<open>Receiving one box\<close>

lemma read_field_ok:
  assumes "on_pipe p (bs @ rest)" and "length bs = n" and "0 < n" and "n < 2 ^ 63"
  obtains p' where "read_field p n = Some (bs, p')" and "on_pipe p' rest"
proof -
  obtain p' where "pipe_read p (length bs) = (int (length bs), bs, p')" "on_pipe p' rest"
    using pipe_read_field [OF assms(1)] assms(2,4) by auto
  with assms that show thesis
    by (auto simp: read_field_def)
qed

text \<open>The box as the manager gets it: its name without the slash.\<close>

definition client_box :: "box_t \<Rightarrow> box_t" where
  "client_box b = b\<lparr>name := take BOX_NAME_MAX_LEN (drop 1 (box_bytes b))\<rparr>"

definition encodable :: "box_t \<Rightarrow> bool" where
  "encodable b \<longleftrightarrow>
     length (name b) = BOX_NAME_MAX_LEN \<and> box_size b < 2 ^ 64 \<and> n_publishers b < 2 ^ 64 \<and> n_subscribers b < 2 ^ 64"

definition sendable :: "box_t \<Rightarrow> bool" where
  "sendable b \<longleftrightarrow> encodable b \<and> terminated (name b) \<and> valid_pathname (Some (cstr (name b)))"

lemma client_box_name:
  assumes "sendable b"
  shows "terminated (name (client_box b))" and "cstr (name (client_box b)) = tl (cstr (name b))"
    and "name (client_box b) ! 0 \<noteq> NUL"
proof -
  obtain rest where nm: "name b = CHR ''/'' # rest" "length rest = 31" "terminated rest" "cstr rest \<noteq> []"
    using assms by (cases "name b") (auto simp: sendable_def encodable_def BOX_NAME_MAX_LEN_def split: if_splits)
  have bb: "name (client_box b) = rest @ take 1 (le_bytes 8 (box_size b) @ le_bytes 8 (n_publishers b) @ le_bytes 8 (n_subscribers b))"
    using nm(1,2) by (simp add: client_box_def box_bytes_def BOX_NAME_MAX_LEN_def)
  show "terminated (name (client_box b))" "cstr (name (client_box b)) = tl (cstr (name b))"
    unfolding bb using nm by (simp_all add: cstr_append)
  show "name (client_box b) ! 0 \<noteq> NUL"
    unfolding bb using nm by (cases rest) (auto split: if_splits)
qed

lemma read_box_ok:
  assumes b: "encodable b" and p: "on_pipe p (listing_bytes last_flag b @ rest)"
  obtains p' where "read_box p = Some (if last_flag then 1 else 0, client_box b, p')" and "on_pipe p' rest"
proof -
  let ?nm = "take BOX_NAME_MAX_LEN (drop 1 (box_bytes b))" and ?c = "take 1 (int32_bytes PROTOCOL_CODE_LIST_ANSWER)"
    and ?l = "[if last_flag then CHR 0x01 else CHR 0x00]"
  have len: "length ?nm = BOX_NAME_MAX_LEN" "length ?c = 1" "length ?l = 1" "\<And>v. length (le_bytes 8 v) = 8"
    using b by (simp_all add: encodable_def box_bytes_def BOX_NAME_MAX_LEN_def)
  have small: "0 < BOX_NAME_MAX_LEN" "BOX_NAME_MAX_LEN < 2 ^ 63" "(0::nat) < 1" "(1::nat) < 2 ^ 63" "(0::nat) < 8" "(8::nat) < 2 ^ 63"
    by (simp_all add: BOX_NAME_MAX_LEN_def)
  have p: "on_pipe p (?c @ ?l @ ?nm @ le_bytes 8 (box_size b) @ le_bytes 8 (n_publishers b) @ le_bytes 8 (n_subscribers b) @ rest)"
    using p by (simp add: listing_bytes_def)
  obtain p1 where p1: "read_field p 1 = Some (?c, p1)"
      "on_pipe p1 (?l @ ?nm @ le_bytes 8 (box_size b) @ le_bytes 8 (n_publishers b) @ le_bytes 8 (n_subscribers b) @ rest)"
    using read_field_ok [OF p len(2) small(3,4)] .
  obtain p2 where p2: "read_field p1 1 = Some (?l, p2)"
      "on_pipe p2 (?nm @ le_bytes 8 (box_size b) @ le_bytes 8 (n_publishers b) @ le_bytes 8 (n_subscribers b) @ rest)"
    using read_field_ok [OF p1(2) len(3) small(3,4)] .
  obtain p3 where p3: "read_field p2 BOX_NAME_MAX_LEN = Some (?nm, p3)"
      "on_pipe p3 (le_bytes 8 (box_size b) @ le_bytes 8 (n_publishers b) @ le_bytes 8 (n_subscribers b) @ rest)"
    using read_field_ok [OF p2(2) len(1) small(1,2)] .
  obtain p4 where p4: "read_field p3 8 = Some (le_bytes 8 (box_size b), p4)"
      "on_pipe p4 (le_bytes 8 (n_publishers b) @ le_bytes 8 (n_subscribers b) @ rest)"
    using read_field_ok [OF p3(2) len(4) small(5,6)] .
  obtain p5 where p5: "read_field p4 8 = Some (le_bytes 8 (n_publishers b), p5)" "on_pipe p5 (le_bytes 8 (n_subscribers b) @ rest)"
    using read_field_ok [OF p4(2) len(4) small(5,6)] .
  obtain p6 where p6: "read_field p5 8 = Some (le_bytes 8 (n_subscribers b), p6)" "on_pipe p6 rest"
    using read_field_ok [OF p5(2) len(4) small(5,6)] .
  have code: "int (le_val ?c) = PROTOCOL_CODE_LIST_ANSWER"
    by (rule code_byte) (simp_all add: PROTOCOL_CODE_LIST_ANSWER_def)
  have "client_box b = \<lparr>name = ?nm, box_size = box_size b, n_publishers = n_publishers b, n_subscribers = n_subscribers b\<rparr>"
    by (simp add: client_box_def)
  then show thesis
    by (intro that [of p6])
      (use p1(1) p2(1) p3(1) p4(1) p5(1) p6 code b in \<open>simp_all add: read_box_def encodable_def le_val_le_bytes\<close>)
qed
section \<open>Receiving the listing\<close>

text \<open>The packets of a nonempty list of boxes: the last one is marked.\<close>

fun listing_of :: "box_t list \<Rightarrow> mem" where
  "listing_of [] = []"
| "listing_of (b # bs) = listing_bytes (bs = []) b @ listing_of bs"

definition listed :: "nat \<Rightarrow> server \<Rightarrow> box_t list" where
  "listed i s = map (\<lambda>j. boxes_table s ! j) (taken_from i s)"

lemma packets_from_listing: "packets_from i s = listing_of (listed i s)"
proof (induction "slots s - i" arbitrary: i)
  case 0
  then show ?case by (simp add: packets_from_def listed_def taken_from_end)
next
  case (Suc n)
  then have i: "i < slots s" and IH: "packets_from (Suc i) s = listing_of (listed (Suc i) s)"
    by (simp_all add: Suc.hyps(1))
  then show ?case
    by (simp add: packets_from_step listed_def taken_from_step)
qed

definition insert_all :: "box_t list \<Rightarrow> box_t list \<Rightarrow> box_t list" where
  "insert_all acc bs = foldl (\<lambda>acc b. insert_after (client_box b) acc) acc bs"

lemma insert_all_simps [simp]:
  "insert_all acc [] = acc" "insert_all acc (b # bs) = insert_all (insert_after (client_box b) acc) bs"
  by (simp_all add: insert_all_def)

lemma insert_all_facts:
  "length (insert_all acc bs) = length acc + length bs"
  "mset (insert_all acc bs) = mset acc + mset (map client_box bs)"
  "sorted (map label acc) \<Longrightarrow> sorted (map label (insert_all acc bs))"
  by (induction bs arbitrary: acc) (simp_all add: sorted_insert_after)

lemma receive_boxes_eq:
  assumes "\<forall>b \<in> set bs. sendable b" and "on_pipe pipe (listing_of bs)" and "bs \<noteq> []"
    and "k + length bs \<le> length arr" and "sorted (map label (take k arr))" and "\<forall>b \<in> set (take k arr). terminated (name b)"
  shows "\<exists>arr'. receive_boxes arr (int k - 1) 0 pipe = Inr (Some (arr', int (k + length bs) - 1)) \<and>
    k + length bs \<le> length arr' \<and> take (k + length bs) arr' = insert_all (take k arr) bs"
  using assms
proof (induction bs arbitrary: k arr pipe)
  case (Cons b bs)
  have b: "sendable b" and k: "k < length arr"
    using Cons.prems(1,4) by simp_all
  note N = client_box_name [OF b]
  obtain p' where p': "read_box pipe = Some (if bs = [] then 1 else 0, client_box b, p')" "on_pipe p' (listing_of bs)"
    using read_box_ok [of b pipe] b Cons.prems(2) by (metis listing_of.simps(2) sendable_def)
  define arr1 where "arr1 = insert_after (client_box b) (take k arr) @ drop (Suc k) arr"
  have ins: "sorted_insert arr (int k - 1) (client_box b) = Inr arr1"
    using sorted_insert_eq [OF k Cons.prems(5,6) N(1)] by (simp add: arr1_def)
  have len: "length arr1 = length arr" and take1: "take (Suc k) arr1 = insert_after (client_box b) (take k arr)"
    using k by (simp_all add: arr1_def)
  have step: "receive_boxes arr (int k - 1) 0 pipe = receive_boxes arr1 (int k) (if bs = [] then 1 else 0) p'"
    using p'(1) ins N(3) by (simp add: receive_boxes.simps [of arr])
  show ?case
  proof (cases "bs = []")
    case True
    then show ?thesis
      using step k len take1 by (intro exI [of _ arr1]) (simp add: receive_boxes.simps [of arr1])
  next
    case False
    have "\<exists>arr'. receive_boxes arr1 (int (Suc k) - 1) 0 p' = Inr (Some (arr', int (Suc k + length bs) - 1)) \<and>
        Suc k + length bs \<le> length arr' \<and> take (Suc k + length bs) arr' = insert_all (take (Suc k) arr1) bs"
      using Cons.prems len sorted_insert_after [OF Cons.prems(5)] N(1) False
      by (intro Cons.IH p'(2)) (simp_all add: take1)
    then show ?thesis
      using step False by (simp add: take1)
  qed
qed simp

section \<open>Printing\<close>

definition box_line :: "box_t \<Rightarrow> string" where
  "box_line b = cstr (name b) @ '' '' @ decimal (box_size b) @ '' '' @ decimal (n_publishers b) @ '' '' @
     decimal (n_subscribers b) @ [newline]"

lemma print_boxes_eq:
  assumes "n \<le> length bs" and "\<forall>b \<in> set (take n bs). terminated (name b)"
  shows "print_boxes bs n = Inr (concat (map box_line (take n bs)))"
  using assms
proof (induction n)
  case (Suc n)
  then show ?case
    by (simp add: take_Suc_conv_app_nth print_box_def box_line_def)
qed simp

definition listing_output :: "box_t list \<Rightarrow> string" where
  "listing_output bs = (if bs = [] then ''NO BOXES FOUND'' @ [newline] else concat (map box_line bs))"

lemma no_box_packet: "no_box_bytes = listing_bytes True \<lparr>name = replicate 32 NUL, box_size = 0, n_publishers = 0, n_subscribers = 0\<rparr>"
proof -
  have zero: "le_bytes k 0 = replicate k NUL" for k
    by (induction k) (simp_all add: char_of_def)
  have "replicate 56 NUL = replicate 32 NUL @ replicate 8 NUL @ replicate 8 NUL @ replicate 8 NUL"
    by (simp flip: replicate_add)
  then show ?thesis
    by (simp add: no_box_bytes_def listing_bytes_def box_bytes_def zero listing_len_def BOX_NAME_MAX_LEN_def flip: replicate_add)
qed

lemma receive_none:
  assumes "on_pipe pipe no_box_bytes"
  shows "receive_boxes arr last_i 0 pipe = Inr (Some (arr, last_i))"
proof -
  let ?b = "\<lparr>name = replicate 32 NUL, box_size = 0, n_publishers = 0, n_subscribers = 0\<rparr>"
  obtain p' where "read_box pipe = Some (1, client_box ?b, p')"
    using read_box_ok [of ?b pipe True "[]"] assms by (auto simp: no_box_packet encodable_def BOX_NAME_MAX_LEN_def)
  moreover have "name (client_box ?b) ! 0 = NUL"
    by (simp add: client_box_def box_bytes_def BOX_NAME_MAX_LEN_def nth_append)
  ultimately show ?thesis
    by (simp add: receive_boxes.simps [of arr])
qed

lemma listing_received:
  assumes env: "register_ready (register env) out" "session_opened env" "on_pipe (session env) (listing_stream s)"
    and sp: "length sp = CLIENT_NAMED_PIPE_MAX_LEN"
    and bs: "\<forall>b \<in> set (listed 0 s). sendable b" "length (listed 0 s) \<le> MAX_BOX_AMOUNT"
  obtains reg where "manager_handle_box_listing garbage env sp = Inr (0, listing_output (insert_all [] (listed 0 s)), reg)"
proof -
  let ?arr = "map garbage [0..<MAX_BOX_AMOUNT]" and ?bs = "listed 0 s"
  obtain reg where reg: "client_request_connection (register env) PROTOCOL_CODE_LIST_REQUEST sp None = Inr (0, reg)"
    using client_request_eq [OF env(1) sp, of None] by blast
  have none: "listed 0 s = [] \<longleftrightarrow> taken_from 0 s = []"
    by (simp add: listed_def)
  show thesis
  proof (cases "?bs = []")
    case True
    then have "receive_boxes ?arr (-1) 0 (session env) = Inr (Some (?arr, -1))"
      using env(3) none by (intro receive_none) (simp add: listing_stream_def)
    with True reg env(2) show thesis
      by (intro that [of reg]) (simp add: manager_handle_box_listing_def listing_output_def)
  next
    case False
    then have "on_pipe (session env) (listing_of ?bs)"
      using env(3) none by (simp add: listing_stream_def packets_from_listing)
    then obtain arr' where R: "receive_boxes ?arr (-1) 0 (session env) = Inr (Some (arr', int (length ?bs) - 1))"
        "length ?bs \<le> length arr'" "take (length ?bs) arr' = insert_all [] ?bs"
      using receive_boxes_eq [OF bs(1) _ False, of "session env" 0 ?arr] bs(2) by auto
    have "terminated (name x)" if x: "x \<in> set (take (length ?bs) arr')" for x
    proof -
      have "x \<in># mset (insert_all [] ?bs)"
        using x R(3) by simp
      then obtain b where "b \<in> set ?bs" "x = client_box b"
        by (auto simp: insert_all_facts)
      then show ?thesis
        using bs(1) client_box_name(1) by blast
    qed
    then have "print_boxes arr' (length ?bs) = Inr (concat (map box_line (insert_all [] ?bs)))"
      using print_boxes_eq [OF R(2)] R(3) by simp
    moreover have "insert_all [] ?bs \<noteq> []"
      using False insert_all_facts(1) [of "[]" ?bs] by (metis add_0 length_0_conv list.size(3))
    ultimately show thesis
      using reg env(2) R(1) False by (intro that [of reg]) (simp add: manager_handle_box_listing_def listing_output_def)
  qed
qed

section \<open>Properties\<close>

definition counters_ok :: "server \<Rightarrow> bool" where
  "counters_ok s \<longleftrightarrow>
     (\<forall>b \<in> set (boxes_table s). box_size b < 2 ^ 64 \<and> n_publishers b < 2 ^ 64 \<and> n_subscribers b < 2 ^ 64)"

lemma listed_facts:
  assumes s: "srv_inv s" and c: "counters_ok s"
  shows "\<forall>b \<in> set (listed 0 s). sendable b" and "length (listed 0 s) \<le> slots s"
    and "(\<lambda>b. cstr (name b)) ` set (listed 0 s) = dom (boxes s)"
proof -
  note S = srv_invD [OF s] and T = table_okD [OF srv_invD(1) [OF s]]
  have in_list: "b \<in> set (listed 0 s) \<longleftrightarrow> (\<exists>j. box_taken s j \<and> b = boxes_table s ! j)" for b
    by (auto simp: listed_def taken_from_def)
  have "valid_pathname (Some (label_of s j))" if "box_taken s j" for j
    using S(4) [of "label_of s j"] slot_of_Some [OF S(1)] that by (metis option.distinct(1))
  moreover have "encodable (boxes_table s ! j)" if "box_taken s j" for j
    using that c T(1,4) by (simp add: encodable_def counters_ok_def)
  ultimately show "\<forall>b \<in> set (listed 0 s). sendable b"
    using T(5) by (auto simp: in_list sendable_def simp del: valid_pathname.simps)
  show "length (listed 0 s) \<le> slots s"
    using length_filter_le [of _ "[0..<slots s]"] by (simp add: listed_def taken_from_def)
  have "nm \<in> dom (boxes s) \<longleftrightarrow> (\<exists>j. box_taken s j \<and> label_of s j = nm)" for nm
    using boxes_None [OF s, of nm] slot_of_Some [OF S(1), of nm] by (metis domIff not_None_eq)
  then show "(\<lambda>b. cstr (name b)) ` set (listed 0 s) = dom (boxes s)"
    unfolding set_eq_iff image_iff Bex_def in_list by metis
qed

text \<open>
  C21. A listing, from the table of the server to the screen of the manager: whatever the state of a consistent
  server with at most 64 slots, the manager prints one line for each box of the server, with its name, size
  and numbers of publishers and subscribers, sorted by name; when there is no box it says so.
\<close>

theorem listing_prints_all_boxes_sorted:
  assumes "srv_inv s" and "counters_ok s" and "0 < slots s" and "slots s \<le> MAX_BOX_AMOUNT"
    and "session_opens senv" and "on_pipe (session_pipe senv) []"
    and "register_ready (register env) out" and "session_opened env" and "length sp = CLIENT_NAMED_PIPE_MAX_LEN"
  shows "\<exists>pipe s' reg bs. workers_handle_manager_listing senv req s = ret (0, pipe, s') \<and>
    manager_handle_box_listing garbage (env\<lparr>session := pipe\<rparr>) sp = Inr (0, listing_output bs, reg) \<and>
    sorted (map label bs) \<and> mset bs = mset (map client_box (listed 0 s)) \<and>
    (\<lambda>b. CHR ''/'' # label b) ` set bs = dom (boxes s)"
proof -
  note L = listed_facts [OF assms(1,2)]
  obtain pipe t where srv: "workers_handle_manager_listing senv req s = ret (0, pipe, srv_traced t s)"
      "on_pipe pipe (listing_stream s)"
    using listing_eq [OF srv_invD(1) [OF assms(1)] assms(3,5,6), of req] by auto
  let ?bs = "insert_all [] (listed 0 s)"
  have "length (listed 0 s) \<le> MAX_BOX_AMOUNT"
    using L(2) assms(4) by simp
  then obtain reg where "manager_handle_box_listing garbage (env\<lparr>session := pipe\<rparr>) sp = Inr (0, listing_output ?bs, reg)"
    using listing_received [of "env\<lparr>session := pipe\<rparr>" out s sp garbage] L(1) assms(7-9) srv(2) by auto
  moreover have m: "mset ?bs = mset (map client_box (listed 0 s))" "sorted (map label ?bs)"
    by (simp_all add: insert_all_facts)
  moreover have "(\<lambda>b. CHR ''/'' # label b) ` set ?bs = dom (boxes s)"
  proof -
    have "CHR ''/'' # label (client_box b) = label b" if "b \<in> set (listed 0 s)" for b
      using L(1) that client_box_name(2) [of b] valid_path_split [of "label b"] by (auto simp: sendable_def)
    then have "(\<lambda>b. CHR ''/'' # label (client_box b)) ` set (listed 0 s) = dom (boxes s)"
      unfolding L(3) [symmetric] by (intro image_cong) auto
    then show ?thesis
      using mset_eq_setD [OF m(1)] by (simp add: image_image)
  qed
  ultimately show ?thesis
    using srv(1) by blast
qed

definition demo_client :: client_env where
  "demo_client = \<lparr>register = demo_register, session_made = True, session_opened = True,
     session = \<lparr>fifo_bytes = [], fifo_outcomes = []\<rparr>\<rparr>"

lemma demo_server_counters: "counters_ok demo_server" "slots demo_server = 64"
proof -
  show "slots demo_server = 64"
    using demo_server_ok(5) by simp
  show "counters_ok demo_server"
    using demo_server_table by (auto simp: counters_ok_def demo_boot_def)
qed

theorem listing_prints_all_boxes_sorted_witness:
  "\<exists>pipe s' reg. workers_handle_manager_listing demo_session (demo_request PROTOCOL_CODE_LIST_REQUEST) demo_server = ret (0, pipe, s') \<and>
    manager_handle_box_listing (\<lambda>_. demo_box ''junk'') (demo_client\<lparr>session := pipe\<rparr>) demo_path =
      Inr (0, ''NO BOXES FOUND'' @ [newline], reg)"
proof -
  have env: "session_opens demo_session" "on_pipe (session_pipe demo_session) []" "register_ready (register demo_client) []"
      "session_opened demo_client"
    using demo_register_ready by (simp_all add: demo_session_def demo_client_def on_pipe_def quiet_def)
  have slots: "0 < slots demo_server" "slots demo_server \<le> MAX_BOX_AMOUNT"
    using demo_server_counters(2) by (simp_all add: MAX_BOX_AMOUNT_def)
  from listing_prints_all_boxes_sorted [OF demo_server_ok(1) demo_server_counters(1) slots env demo_path_ok(1),
      of "demo_request PROTOCOL_CODE_LIST_REQUEST" "\<lambda>_. demo_box ''junk''"] demo_server_ok(2)
  show ?thesis
    by (auto simp: listing_output_def)
qed

end
