(* ===== verification/Publisher_Session.thy ===== *)
theory Publisher_Session
  imports Manager_Requests Connection
begin

text \<open>
  A publisher's session at the server, from its request to its end: the messages that arrive on the
  session pipe are appended to the file of the box, each as a block of 1024 bytes, until the
  publisher closes its pipe or the box is full.
\<close>

declare abs_fs_select [simp del]

context file_store
begin

text \<open>A write at the end of a full block stores nothing.\<close>

lemma write_full:
  assumes "inv s" and "plain (view s)" and "handles (view s) f = Some (i, length c)" and "nodes (view s) i = Some (AFile c)"
    and "length c = block_size (params s)" and "length buf < 2 ^ 63"
  obtains s' where "does (Write (int f) buf) s (0, []) s'" and "view s' = view s"
proof -
  obtain r x s' where D: "does (Write (int f) buf) s (r, x) s'" "client_step (params s) (view s) (Write (int f) buf) (r, x) (view s')"
    using some_result [OF assms(1,2), of "Write (int f) buf"] assms(6) by auto
  have h: "open_handle (view s) (int f) = Some (f, i, length c)"
    using assms(3) by (simp add: open_handle_Some)
  from D(2) have "(r, x) = (0, []) \<and> view s' = view s"
    by (cases rule: client_step_WriteE) (use h assms(3-5) in \<open>auto simp: fun_upd_idem\<close>)
  with D(1) that show thesis by auto
qed

end

section \<open>One message\<close>

definition message_in :: "mem \<Rightarrow> mem" where
  "message_in m = take 1 (int32_bytes PROTOCOL_CODE_MESSAGE_RECEIVE) @ m"

text \<open>The session of a publisher: the slot of its box, its handle, the file behind it and its content.\<close>

definition writing :: "nat \<Rightarrow> nat \<Rightarrow> nat \<Rightarrow> mem \<Rightarrow> server \<Rightarrow> bool" where
  "writing j h i c s \<longleftrightarrow>
     table_ok s \<and> fs_inv (fs s) \<and> plain (store s) \<and> box_taken s j \<and>
     handles (store s) h = Some (i, length c) \<and> nodes (store s) i = Some (AFile c) \<and> (c \<noteq> [] \<or> 0 < spare (store s)) \<and>
     box_size (boxes_table s ! j) = length c"

abbreviation box_sized :: "nat \<Rightarrow> nat \<Rightarrow> server \<Rightarrow> server" where
  "box_sized j n s \<equiv> s\<lparr>boxes_table := (boxes_table s)[j := (boxes_table s ! j)\<lparr>box_size := n\<rparr>]\<rparr>"

lemma msg_len: "0 < MSG_MAX_LEN" "MSG_MAX_LEN < 2 ^ 63" "size_of_ssize (int MSG_MAX_LEN) = MSG_MAX_LEN" "size_of_ssize 0 \<noteq> MSG_MAX_LEN"
proof -
  show small: "0 < MSG_MAX_LEN" "MSG_MAX_LEN < 2 ^ 63"
    by (simp_all add: MSG_MAX_LEN_def)
  then show "size_of_ssize (int MSG_MAX_LEN) = MSG_MAX_LEN"
    by (intro size_of_ssize_nat) simp
  show "size_of_ssize 0 \<noteq> MSG_MAX_LEN"
    by (simp add: size_of_ssize_def MSG_MAX_LEN_def)
qed

lemma box_alive_eq:
  assumes "table_ok s" and "i < slots s"
  shows "box_alive i s = Inr (free_boxes s ! i = TAKEN, srv_traced boxes_read_trace s)"
  using assms table_okD(2) [OF assms(1)] by (simp add: box_alive_def srv_log_traced)

lemma with_box_locked_eq:
  assumes "table_ok s" and "i < slots s"
  shows "with_box_locked i g s = Inr (srv_traced (box_trace i) (s\<lparr>boxes_table := (boxes_table s)[i := g (boxes_table s ! i)]\<rparr>))"
  using assms table_okD(1) [OF assms(1)] by (simp add: with_box_locked_def box_update_def srv_log_traced)

lemma read_message_pipe:
  assumes "on_pipe pipe (message_in m @ rest)" and "length m = MSG_MAX_LEN"
  obtains p1 p2 where "pipe_read pipe 1 = (1, take 1 (int32_bytes PROTOCOL_CODE_MESSAGE_RECEIVE), p1)"
    and "pipe_read p1 MSG_MAX_LEN = (int MSG_MAX_LEN, m, p2)" and "on_pipe p2 rest"
proof -
  have p: "on_pipe pipe (take 1 (int32_bytes PROTOCOL_CODE_MESSAGE_RECEIVE) @ m @ rest)"
    using assms(1) by (simp add: message_in_def)
  obtain p1 where p1: "pipe_read pipe 1 = (1, take 1 (int32_bytes PROTOCOL_CODE_MESSAGE_RECEIVE), p1)" "on_pipe p1 (m @ rest)"
    using pipe_read_field [OF p] by auto
  obtain p2 where "pipe_read p1 MSG_MAX_LEN = (int MSG_MAX_LEN, m, p2)" "on_pipe p2 rest"
    using pipe_read_field [OF p1(2)] assms(2) by (auto simp: MSG_MAX_LEN_def)
  with p1(1) that show thesis by blast
qed

lemma receive_code: "int (le_val (take 1 (int32_bytes PROTOCOL_CODE_MESSAGE_RECEIVE))) = PROTOCOL_CODE_MESSAGE_RECEIVE"
  by (rule code_byte) (simp_all add: protocol_codes)

lemma pub_message_fits:
  assumes w: "writing j h i c s" and p: "on_pipe pipe (message_in m @ rest)" and m: "length m = MSG_MAX_LEN"
    and fits: "length c + MSG_MAX_LEN \<le> block_size (fs_params (fs s))"
  obtains p' f n where "pub_message j (int h) pipe s = Inr (True, p', box_sized j (length (c @ m)) (s\<lparr>fs := f\<rparr>))"
    and "on_pipe p' rest" and "fs_inv f" and "fs_params f = fs_params (fs s)"
    and "abs_fs f = (store s)\<lparr>nodes := (nodes (store s))(i \<mapsto> AFile (c @ m)), handles := (handles (store s))(h \<mapsto> (i, length (c @ m))), spare := n\<rparr>"
proof -
  have W: "table_ok s" "fs_inv (fs s)" "plain (store s)" "j < slots s" "free_boxes s ! j = TAKEN"
      "handles (store s) h = Some (i, length c)" "nodes (store s) i = Some (AFile c)" "c \<noteq> [] \<or> 0 < spare (store s)" "box_size (boxes_table s ! j) = length c"
    using w by (simp_all add: writing_def)
  obtain p1 p2 where P: "pipe_read pipe 1 = (1, take 1 (int32_bytes PROTOCOL_CODE_MESSAGE_RECEIVE), p1)"
      "pipe_read p1 MSG_MAX_LEN = (int MSG_MAX_LEN, m, p2)" "on_pipe p2 rest"
    using read_message_pipe [OF p m] .
  let ?f = "traced boxes_read_trace (fs s)"
  have F: "fs_inv ?f" "plain (abs_fs ?f)" "handles (abs_fs ?f) h = Some (i, length c)" "nodes (abs_fs ?f) i = Some (AFile c)"
      "length c + length m \<le> block_size (fs_params ?f)" "c \<noteq> [] \<or> 0 < spare (abs_fs ?f)" "length m < 2 ^ 63"
    using W fits m by (simp_all add: MSG_MAX_LEN_def)
  obtain f where f: "tfs.does (Write (int h) m) ?f (int (length m), []) f"
      "abs_fs f = (abs_fs ?f)\<lparr>nodes := (nodes (abs_fs ?f))(i \<mapsto> AFile (c @ m)),
        handles := (handles (abs_fs ?f))(h \<mapsto> (i, length c + length m)), spare := spare (abs_fs ?f) - (if c = [] \<and> m \<noteq> [] then 1 else 0)\<rparr>"
    using tfs.write_end [OF F] by blast
  note D = does_facts [OF f(1)]
  have wr: "srv_write (int h) m (srv_traced boxes_read_trace s) = Inr (int MSG_MAX_LEN, s\<lparr>fs := f\<rparr>)"
    using srv_write_does [of "int h" m "srv_traced boxes_read_trace s"] f(1) m by simp
  have lk: "with_box_locked j (\<lambda>b. b\<lparr>box_size := size_add (box_size b) MSG_MAX_LEN\<rparr>) (s\<lparr>fs := f\<rparr>) =
      Inr (srv_traced (box_trace j) (box_sized j (length (c @ m)) (s\<lparr>fs := f\<rparr>)))"
  proof -
    have "length c + MSG_MAX_LEN < SIZE_MOD"
      using tfs.size_bound [OF W(2,7)] fits by simp
    then show ?thesis
      using with_box_locked_eq [of "s\<lparr>fs := f\<rparr>" j] W(1,4,9) D(2) m by simp
  qed
  have alive: "box_alive j s = Inr (True, srv_traced boxes_read_trace s)"
    using box_alive_eq [OF W(1,4)] W(5) by simp
  have "pub_message j (int h) pipe s = Inr (True, p2, box_sized j (length (c @ m)) (s\<lparr>fs := traced (box_trace j) f\<rparr>))"
    using P(1,2) msg_len alive wr lk receive_code
    by (simp add: pub_message_def srv_traced_def)
  then show thesis
    by (rule that [OF _ P(3)]) (use D f(2) in simp_all)
qed

lemma pub_message_full:
  assumes w: "writing j h i c s" and p: "on_pipe pipe (message_in m @ rest)" and m: "length m = MSG_MAX_LEN"
    and full: "length c = block_size (fs_params (fs s))"
  obtains p' f where "pub_message j (int h) pipe s = Inr (False, p', s\<lparr>fs := f\<rparr>)"
    and "fs_inv f" and "fs_params f = fs_params (fs s)" and "abs_fs f = store s"
proof -
  have W: "table_ok s" "fs_inv (fs s)" "plain (store s)" "j < slots s" "free_boxes s ! j = TAKEN"
      "handles (store s) h = Some (i, length c)" "nodes (store s) i = Some (AFile c)"
    using w by (simp_all add: writing_def)
  obtain p1 p2 where P: "pipe_read pipe 1 = (1, take 1 (int32_bytes PROTOCOL_CODE_MESSAGE_RECEIVE), p1)"
      "pipe_read p1 MSG_MAX_LEN = (int MSG_MAX_LEN, m, p2)"
    using read_message_pipe [OF p m] .
  let ?f = "traced boxes_read_trace (fs s)"
  have F: "fs_inv ?f" "plain (abs_fs ?f)" "handles (abs_fs ?f) h = Some (i, length c)" "nodes (abs_fs ?f) i = Some (AFile c)"
      "length c = block_size (fs_params ?f)" "length m < 2 ^ 63"
    using W full m by (simp_all add: MSG_MAX_LEN_def)
  obtain f where f: "tfs.does (Write (int h) m) ?f (0, []) f" "abs_fs f = abs_fs ?f"
    using tfs.write_full [OF F] by blast
  note D = does_facts [OF f(1)]
  have wr: "srv_write (int h) m (srv_traced boxes_read_trace s) = Inr (0, s\<lparr>fs := f\<rparr>)"
    using srv_write_does [of "int h" m "srv_traced boxes_read_trace s"] f(1) by simp
  have alive: "box_alive j s = Inr (True, srv_traced boxes_read_trace s)"
    using box_alive_eq [OF W(1,4)] W(5) by simp
  have "pub_message j (int h) pipe s = Inr (False, p2, s\<lparr>fs := f\<rparr>)"
    using P(1,2) msg_len alive wr receive_code by (simp add: pub_message_def)
  then show thesis
    by (rule that) (use D f(2) in simp_all)
qed
section \<open>The loop\<close>

lemma table_ok_sized:
  assumes "table_ok s"
  shows "table_ok (box_sized j n s)" and "slot_of (box_sized j n s) = slot_of s"
proof -
  have nm: "name ((boxes_table s)[j := (boxes_table s ! j)\<lparr>box_size := n\<rparr>] ! k) = name (boxes_table s ! k)" for k
    by (cases "j < length (boxes_table s)"; cases "k = j") (simp_all add: nth_list_update list_update_beyond)
  then show "table_ok (box_sized j n s)"
    using assms by (simp add: table_ok_def)
  show "slot_of (box_sized j n s) = slot_of s"
    by (simp add: slot_of_def nm fun_eq_iff)
qed

lemma box_sized_same:
  assumes "box_size (boxes_table s ! j) = n"
  shows "box_sized j n s = s"
proof -
  have "(boxes_table s ! j)\<lparr>box_size := n\<rparr> = boxes_table s ! j"
    using assms by auto
  then show ?thesis
    by (simp only: list_update_id) simp
qed

text \<open>How many messages find room behind \<open>c\<close>.\<close>

definition stored_in :: "nat \<Rightarrow> mem \<Rightarrow> mem list \<Rightarrow> mem" where
  "stored_in bs c msgs = c @ concat (take ((bs - length c) div MSG_MAX_LEN) msgs)"

lemma stored_in_full: "length c = bs \<Longrightarrow> stored_in bs c msgs = c"
  by (simp add: stored_in_def)

lemma stored_in_Cons:
  assumes "length m = MSG_MAX_LEN" and "length c + MSG_MAX_LEN \<le> bs"
  shows "stored_in bs c (m # msgs) = stored_in bs (c @ m) msgs"
proof -
  have "bs - length c = MSG_MAX_LEN + (bs - (length c + MSG_MAX_LEN))"
    using assms(2) by simp
  then have "(bs - length c) div MSG_MAX_LEN = Suc ((bs - (length c + MSG_MAX_LEN)) div MSG_MAX_LEN)"
    using msg_len(1) by (metis div_add_self1 Suc_eq_plus1 add.commute less_numeral_extra(3))
  then show ?thesis
    using assms(1) by (simp add: stored_in_def)
qed

lemma pub_loop_eq:
  assumes "writing j h i c s" and "\<forall>m \<in> set msgs. length m = MSG_MAX_LEN" and "on_pipe pipe (concat (map message_in msgs))"
    and "MSG_MAX_LEN dvd length c" and "MSG_MAX_LEN dvd block_size (fs_params (fs s))"
  shows "\<exists>p' f n. pub_loop j (int h) pipe s =
      Inr (p', box_sized j (length (stored_in (block_size (fs_params (fs s))) c msgs)) (s\<lparr>fs := f\<rparr>)) \<and>
    fs_inv f \<and> fs_params f = fs_params (fs s) \<and>
    abs_fs f = (store s)\<lparr>nodes := (nodes (store s))(i \<mapsto> AFile (stored_in (block_size (fs_params (fs s))) c msgs)),
      handles := (handles (store s))(h \<mapsto> (i, length (stored_in (block_size (fs_params (fs s))) c msgs))), spare := n\<rparr>"
  using assms
proof (induction msgs arbitrary: c s pipe)
  case Nil
  have W: "fs_inv (fs s)" "handles (store s) h = Some (i, length c)" "nodes (store s) i = Some (AFile c)"
      "box_size (boxes_table s ! j) = length c"
    using Nil.prems(1) by (simp_all add: writing_def)
  obtain p' where "pipe_read pipe 1 = (0, [], p')"
    using pipe_read_at_end [of pipe 1] Nil.prems(3) by auto
  then have "pub_loop j (int h) pipe s = Inr (p', s)"
    by (simp add: pub_loop.simps [of j] pub_message_def)
  then show ?case
    using W box_sized_same [OF W(4)] by (intro exI [of _ p'] exI [of _ "fs s"] exI [of _ "spare (store s)"]) (simp add: stored_in_def fun_upd_idem)
next
  case (Cons m msgs)
  let ?bs = "block_size (fs_params (fs s))"
  have W: "table_ok s" "j < slots s" "fs_inv (fs s)" "plain (store s)" "handles (store s) h = Some (i, length c)"
      "nodes (store s) i = Some (AFile c)" "box_size (boxes_table s ! j) = length c" "free_boxes s ! j = TAKEN"
    using Cons.prems(1) by (simp_all add: writing_def)
  have m: "length m = MSG_MAX_LEN" and p: "on_pipe pipe (message_in m @ concat (map message_in msgs))"
    using Cons.prems(2,3) by simp_all
  have le: "length c \<le> ?bs"
    using tfs.size_bound [OF W(3,6)] by simp
  show ?case
  proof (cases "length c = ?bs")
    case True
    obtain p' f where R: "pub_message j (int h) pipe s = Inr (False, p', s\<lparr>fs := f\<rparr>)" "fs_inv f" "fs_params f = fs_params (fs s)" "abs_fs f = store s"
      using pub_message_full [OF Cons.prems(1) p m True] .
    then show ?thesis
      using W(5-7) stored_in_full [OF True] box_sized_same [of "s\<lparr>fs := f\<rparr>" j "length c"]
      by (intro exI [of _ p'] exI [of _ f] exI [of _ "spare (store s)"]) (simp add: pub_loop.simps [of j] fun_upd_idem)
  next
    case False
    then have fits: "length c + MSG_MAX_LEN \<le> ?bs"
      using dvd_imp_le [OF dvd_diff_nat [OF Cons.prems(5,4)]] le by simp
    obtain p' f n where R: "pub_message j (int h) pipe s = Inr (True, p', box_sized j (length (c @ m)) (s\<lparr>fs := f\<rparr>))"
        "on_pipe p' (concat (map message_in msgs))" "fs_inv f" "fs_params f = fs_params (fs s)"
        "abs_fs f = (store s)\<lparr>nodes := (nodes (store s))(i \<mapsto> AFile (c @ m)), handles := (handles (store s))(h \<mapsto> (i, length (c @ m))), spare := n\<rparr>"
      using pub_message_fits [OF Cons.prems(1) p m fits] .
    let ?s = "box_sized j (length (c @ m)) (s\<lparr>fs := f\<rparr>)"
    have P: "fs_params (fs ?s) = fs_params (fs s)"
      by (simp add: R(4))
    have w: "writing j h i (c @ m) ?s" and d: "MSG_MAX_LEN dvd length (c @ m)" "MSG_MAX_LEN dvd block_size (fs_params (fs ?s))"
      using W R(3-5) m msg_len(1) table_ok_sized(1) [of "s\<lparr>fs := f\<rparr>" j] table_okD(1) [OF W(1)] Cons.prems(4,5)
      by (auto simp: writing_def plain_def)
    have "\<exists>p'' f' n'. pub_loop j (int h) p' ?s = Inr (p'', box_sized j (length (stored_in ?bs (c @ m) msgs)) (?s\<lparr>fs := f'\<rparr>)) \<and>
        fs_inv f' \<and> fs_params f' = fs_params (fs s) \<and>
        abs_fs f' = (store ?s)\<lparr>nodes := (nodes (store ?s))(i \<mapsto> AFile (stored_in ?bs (c @ m) msgs)),
          handles := (handles (store ?s))(h \<mapsto> (i, length (stored_in ?bs (c @ m) msgs))), spare := n'\<rparr>"
      using Cons.prems(2) by (intro Cons.IH [OF w _ R(2) d, unfolded P]) simp
    then obtain p'' f' n' where L: "pub_loop j (int h) p' ?s = Inr (p'', box_sized j (length (stored_in ?bs (c @ m) msgs)) (?s\<lparr>fs := f'\<rparr>))"
        "fs_inv f'" "fs_params f' = fs_params (fs s)"
        "abs_fs f' = (store ?s)\<lparr>nodes := (nodes (store ?s))(i \<mapsto> AFile (stored_in ?bs (c @ m) msgs)),
          handles := (handles (store ?s))(h \<mapsto> (i, length (stored_in ?bs (c @ m) msgs))), spare := n'\<rparr>"
      by blast
    have "pub_loop j (int h) pipe s = Inr (p'', box_sized j (length (stored_in ?bs (c @ m) msgs)) (s\<lparr>fs := f'\<rparr>))"
      using R(1) L(1) table_okD(1) [OF W(1)] W(2) by (simp add: pub_loop.simps [of j _ pipe])
    moreover have "abs_fs f' = (store s)\<lparr>nodes := (nodes (store s))(i \<mapsto> AFile (stored_in ?bs (c @ m) msgs)),
        handles := (handles (store s))(h \<mapsto> (i, length (stored_in ?bs (c @ m) msgs))), spare := n'\<rparr>"
      using L(4) R(5) by simp
    ultimately show ?thesis
      unfolding stored_in_Cons [OF m fits] using L(2,3) by blast
  qed
qed

section \<open>Beginning and end\<close>

text \<open>Changing counters of a box.\<close>

abbreviation box_with :: "nat \<Rightarrow> (box_t \<Rightarrow> box_t) \<Rightarrow> server \<Rightarrow> server" where
  "box_with j g s \<equiv> s\<lparr>boxes_table := (boxes_table s)[j := g (boxes_table s ! j)]\<rparr>"

lemma box_with_inv:
  assumes "\<And>b. name (g b) = name b"
  shows "srv_inv (box_with j g s) = srv_inv s" and "slot_of (box_with j g s) = slot_of s" and "boxes (box_with j g s) = boxes s"
    and "table_ok (box_with j g s) = table_ok s"
proof -
  have nm: "name ((boxes_table s)[j := g (boxes_table s ! j)] ! k) = name (boxes_table s ! k)" for k
    using assms by (cases "j < length (boxes_table s)"; cases "k = j") (simp_all add: nth_list_update list_update_beyond)
  show sl: "slot_of (box_with j g s) = slot_of s"
    by (simp add: slot_of_def nm fun_eq_iff)
  show T: "table_ok (box_with j g s) = table_ok s"
    by (simp add: table_ok_def nm)
  show "srv_inv (box_with j g s) = srv_inv s"
    unfolding srv_inv_def sl T by simp
  show "boxes (box_with j g s) = boxes s"
    by (simp add: boxes_def fun_eq_iff)
qed

lemma box_file:
  assumes s: "srv_inv s" and c: "boxes s nm = Some c"
  obtains i j where "valid_pathname (Some nm)" and "names (store s) (tl nm) = Some i" and "nodes (store s) i = Some (AFile c)"
    and "slot_of s nm = Some j" and "box_taken s j"
proof -
  obtain i where i: "valid_pathname (Some nm)" "names (store s) (tl nm) = Some i" "nodes (store s) i = Some (AFile c)"
    using c unfolding boxes_Some by blast
  obtain j where j: "slot_of s nm = Some j"
    using boxes_None [OF s, of nm] c by auto
  then have "box_taken s j"
    using slot_of_Some [OF srv_invD(1) [OF s]] by blast
  with i j that show thesis by blast
qed

lemma open_box:
  assumes s: "srv_inv s" and bn: "terminated bn" and nm: "nm = cstr bn" and i: "valid_pathname (Some nm)" "names (store s) (tl nm) = Some i"
    "nodes (store s) i = Some (AFile c)" and mode: "\<not> has_flag mode TFS_O_TRUNC"
    and room: "\<not> handles_full (fs_params (fs s)) (store s)"
  obtains h f where "srv_open bn mode s = ret (int h, s\<lparr>fs := f\<rparr>)" and "handles (store s) h = None" and "fs_inv f"
    and "fs_params f = fs_params (fs s)"
    and "abs_fs f = (store s)\<lparr>handles := (handles (store s))(h \<mapsto> (i, if has_flag mode TFS_O_APPEND then length c else 0))\<rparr>"
proof -
  note S = srv_invD [OF s]
  obtain h f where o: "tfs.does (Open (cstr bn) mode) (fs s) (int h, []) f" "handles (store s) h = None"
      "abs_fs f = (store s)\<lparr>handles := (handles (store s))(h \<mapsto> (i, if has_flag mode TFS_O_APPEND then length c else 0))\<rparr>"
    using tfs.open_file [OF S(2,3) is_cstring_cstr _ _ i(3) mode room, of bn] i(1,2) nm by metis
  show thesis
    by (rule that [OF srv_open_does [OF o(1) bn] o(2) _ _ o(3)]) (use does_facts [OF o(1)] in simp_all)
qed

lemma close_box:
  assumes f: "fs_inv f" "plain (abs_fs f)" and h: "handles (abs_fs f) h = Some (i, off)" and i: "i \<in> ran (names (abs_fs f))"
  obtains f' where "srv_close (int h) (s\<lparr>fs := f\<rparr>) = Inr (0, s\<lparr>fs := f'\<rparr>)" and "fs_inv f'"
    and "fs_params f' = fs_params f" and "abs_fs f' = (abs_fs f)\<lparr>handles := (handles (abs_fs f))(h := None)\<rparr>"
proof -
  obtain f' where f': "tfs.does (Close (int h)) f (0, []) f'"
      "abs_fs f' = collect i ((abs_fs f)\<lparr>handles := (handles (abs_fs f))(h := None)\<rparr>)"
    using tfs.close_handle [OF f h] by blast
  show thesis
    by (rule that [OF srv_close_does_fs [OF f'(1)]])
      (use does_facts [OF f'(1)] f'(2) i in \<open>simp_all add: collect_def unreferenced_def\<close>)
qed

lemma pub_start_ok:
  assumes s: "srv_inv s" and bn: "terminated (req_box_name req)" "nm = cstr (req_box_name req)" and j: "slot_of s nm = Some j"
    and i: "valid_pathname (Some nm)" "names (store s) (tl nm) = Some i" "nodes (store s) i = Some (AFile c)"
    and first: "n_publishers (boxes_table s ! j) = 0" and room: "\<not> handles_full (fs_params (fs s)) (store s)"
  obtains h f where "pub_start req s = ret (Some (j, int h), box_with j (\<lambda>b. b\<lparr>n_publishers := 1\<rparr>) (s\<lparr>fs := f\<rparr>))"
    and "handles (store s) h = None" and "fs_inv f" and "fs_params f = fs_params (fs s)"
    and "abs_fs f = (store s)\<lparr>handles := (handles (store s))(h \<mapsto> (i, length c))\<rparr>"
proof -
  note S = srv_invD [OF s]
  have tk: "j < slots s" "j < length (boxes_table s)"
    using j slot_of_Some [OF S(1)] table_okD(1) [OF S(1)] by auto
  define t where "t = boxes_read_trace @ [Acquire_wr (box_mutex j)]"
  let ?s = "box_with j (\<lambda>b. b\<lparr>n_publishers := 1\<rparr>) (srv_traced t s)"
  have s1: "srv_inv ?s"
    using s box_with_inv(1) [where g = "\<lambda>b. b\<lparr>n_publishers := 1\<rparr>" and j = j and s = "srv_traced t s"] by simp
  have "valid_pathname (Some nm)" "names (store ?s) (tl nm) = Some i" "nodes (store ?s) i = Some (AFile c)"
      "\<not> handles_full (fs_params (fs ?s)) (store ?s)"
    using i room by simp_all
  then obtain h f where o: "srv_open (req_box_name req) TFS_O_APPEND ?s = ret (int h, ?s\<lparr>fs := f\<rparr>)" "handles (store ?s) h = None" "fs_inv f"
      "fs_params f = fs_params (fs ?s)" "abs_fs f = (store ?s)\<lparr>handles := (handles (store ?s))(h \<mapsto> (i, length c))\<rparr>"
    using open_box [OF s1 bn, of i c TFS_O_APPEND] by (auto simp del: valid_pathname.simps)
  have find: "box_find (req_box_name req) s = Inr (int j, srv_traced boxes_read_trace s)"
    using box_find_eq [OF S(1) bn(1)] j bn(2) by simp
  have inc: "u64_inc 0 = 1"
    by simp
  have "pub_start req s = ret (Some (j, int h), box_with j (\<lambda>b. b\<lparr>n_publishers := 1\<rparr>) (s\<lparr>fs := traced [Release (box_mutex j)] f\<rparr>))"
    using find tk o(1) first
    by (simp add: pub_start_def srv_log_traced box_update_def t_def inc srv_traced_def)
  then show thesis
    by (rule that) (use o in simp_all)
qed

lemma pub_session:
  assumes s: "srv_inv s" and bn: "terminated (req_box_name req)" "nm = cstr (req_box_name req)"
    and c: "boxes s nm = Some c" and j: "slot_of s nm = Some j" and i: "names (store s) (tl nm) = Some i"
    and b: "n_publishers (boxes_table s ! j) = 0" "box_size (boxes_table s ! j) = length c"
    and room: "\<not> handles_full (fs_params (fs s)) (store s)" "c \<noteq> [] \<or> 0 < spare (store s)"
    and div: "MSG_MAX_LEN dvd length c" "MSG_MAX_LEN dvd block_size (fs_params (fs s))"
    and env: "session_opens env" "on_pipe (session_pipe env) (concat (map message_in msgs))" "\<forall>m \<in> set msgs. length m = MSG_MAX_LEN"
  defines "c' \<equiv> stored_in (block_size (fs_params (fs s))) c msgs"
  obtains p' f n where "workers_handle_pub_register env req s = ret (0, p', box_sized j (length c') (s\<lparr>fs := f\<rparr>))"
    and "fs_inv f" and "fs_params f = fs_params (fs s)"
    and "abs_fs f = (store s)\<lparr>nodes := (nodes (store s))(i \<mapsto> AFile c'), spare := n\<rparr>"
proof -
  note S = srv_invD [OF s]
  have nd: "valid_pathname (Some nm)" "nodes (store s) i = Some (AFile c)"
    using c i unfolding boxes_Some by auto
  have tk: "j < slots s" "free_boxes s ! j = TAKEN" "j < length (boxes_table s)"
    using j slot_of_Some [OF S(1)] table_okD(1) [OF S(1)] by auto
  obtain h f1 where B: "pub_start req s = ret (Some (j, int h), box_with j (\<lambda>b. b\<lparr>n_publishers := 1\<rparr>) (s\<lparr>fs := f1\<rparr>))"
      "handles (store s) h = None" "fs_inv f1" "fs_params f1 = fs_params (fs s)"
      "abs_fs f1 = (store s)\<lparr>handles := (handles (store s))(h \<mapsto> (i, length c))\<rparr>"
    using pub_start_ok [OF s bn j nd(1) i nd(2) b(1) room(1)] .
  define s1 where "s1 = box_with j (\<lambda>b. b\<lparr>n_publishers := 1\<rparr>) (s\<lparr>fs := f1\<rparr>)"
  have s1: "fs s1 = f1" "table_ok s1" "free_boxes s1 = free_boxes s"
      "boxes_table s1 = (boxes_table s)[j := (boxes_table s ! j)\<lparr>n_publishers := 1\<rparr>]"
    using S(1) B(4) box_with_inv(4) [where g = "\<lambda>b. b\<lparr>n_publishers := 1\<rparr>" and j = j and s = "s\<lparr>fs := f1\<rparr>"]
    by (simp_all add: s1_def)
  have w: "writing j h i c s1"
    using s1 B S(3) tk nd(2) b(2) room(2) by (simp add: writing_def plain_def)
  have "\<exists>p' f n. pub_loop j (int h) (session_pipe env) s1 = Inr (p', box_sized j (length c') (s1\<lparr>fs := f\<rparr>)) \<and>
      fs_inv f \<and> fs_params f = fs_params (fs s) \<and>
      abs_fs f = (store s1)\<lparr>nodes := (nodes (store s1))(i \<mapsto> AFile c'), handles := (handles (store s1))(h \<mapsto> (i, length c')), spare := n\<rparr>"
    using pub_loop_eq [OF w env(3,2) div(1)] div(2) unfolding s1(1) B(4) c'_def by simp
  then obtain p' f2 n where L: "pub_loop j (int h) (session_pipe env) s1 = Inr (p', box_sized j (length c') (s1\<lparr>fs := f2\<rparr>))"
      "fs_inv f2" "fs_params f2 = fs_params (fs s)"
      "abs_fs f2 = (store s1)\<lparr>nodes := (nodes (store s1))(i \<mapsto> AFile c'), handles := (handles (store s1))(h \<mapsto> (i, length c')), spare := n\<rparr>"
    by blast
  have v2: "abs_fs f2 = (store s)\<lparr>nodes := (nodes (store s))(i \<mapsto> AFile c'), handles := (handles (store s))(h \<mapsto> (i, length c')), spare := n\<rparr>"
    using L(4) s1(1) B(5) by simp
  define s2 where "s2 = box_sized j (length c') (s\<lparr>fs := f2\<rparr>)"
  let ?f = "traced (box_trace j) f2"
  have "table_ok (box_sized j (length c') (s1\<lparr>fs := f2\<rparr>))"
    using table_ok_sized(1) [of "s1\<lparr>fs := f2\<rparr>" j] s1(1,2) B(4) L(3) by simp
  note with_box_locked_eq [OF this, of j "\<lambda>b. b\<lparr>n_publishers := u64_dec (n_publishers b)\<rparr>"]
  moreover have "u64_dec 1 = 0"
    by (simp add: u64_dec_def)
  moreover have "(boxes_table s ! j)\<lparr>box_size := length c', n_publishers := 0\<rparr> = (boxes_table s ! j)\<lparr>box_size := length c'\<rparr>"
    using b(1) by (cases "boxes_table s ! j") simp
  ultimately have lock: "with_box_locked j (\<lambda>b. b\<lparr>n_publishers := u64_dec (n_publishers b)\<rparr>) (box_sized j (length c') (s1\<lparr>fs := f2\<rparr>)) =
      Inr (srv_traced (box_trace j) s2)"
    using tk b(1) s1(1) L(3) by (simp add: s1_def s2_def)
  have "plain (abs_fs ?f)" "fs_inv ?f" "handles (abs_fs ?f) h = Some (i, length c')" "i \<in> ran (names (abs_fs ?f))"
    using S(3) L(2) i by (auto simp: v2 plain_def ran_def)
  then obtain f3 where F3: "srv_close (int h) (s2\<lparr>fs := ?f\<rparr>) = Inr (0, s2\<lparr>fs := f3\<rparr>)" "fs_inv f3" "fs_params f3 = fs_params ?f"
      "abs_fs f3 = (abs_fs ?f)\<lparr>handles := (handles (abs_fs ?f))(h := None)\<rparr>"
    using close_box by metis
  have "srv_traced (box_trace j) s2 = s2\<lparr>fs := ?f\<rparr>"
    by (simp add: srv_traced_def s2_def)
  then have e: "pub_end j (int h) (box_sized j (length c') (s1\<lparr>fs := f2\<rparr>)) = Inr (s2\<lparr>fs := f3\<rparr>)"
    using lock F3(1) by (simp add: pub_end_def)
  have "abs_fs f3 = (store s)\<lparr>nodes := (nodes (store s))(i \<mapsto> AFile c'), spare := n\<rparr>"
    using F3(4) B(2) by (simp add: v2 fun_upd_idem)
  moreover have "workers_handle_pub_register env req s = ret (0, p', box_sized j (length c') (s\<lparr>fs := f3\<rparr>))"
    using B(1) L(1) e env(1) by (simp add: workers_handle_pub_register_def s1_def s2_def)
  ultimately show thesis
    using that F3(2,3) L(3) by simp
qed

lemma after_publish:
  assumes s: "srv_inv s" and c: "boxes s nm = Some c" and i: "names (store s) (tl nm) = Some i"
    and f: "fs_inv f" "fs_params f = fs_params (fs s)" "abs_fs f = (store s)\<lparr>nodes := (nodes (store s))(i \<mapsto> AFile c'), spare := n\<rparr>"
  shows "srv_inv (s\<lparr>fs := f\<rparr>)" and "boxes (s\<lparr>fs := f\<rparr>) = (boxes s)(nm \<mapsto> c')"
proof -
  note S = srv_invD [OF s]
  show "srv_inv (s\<lparr>fs := f\<rparr>)"
    using srv_inv_same_view [OF s f(1,2)] S(3) by (simp add: f(3) plain_def)
  have v: "valid_pathname (Some nm)"
    using c unfolding boxes_Some by blast
  show "boxes (s\<lparr>fs := f\<rparr>) = (boxes s)(nm \<mapsto> c')"
  proof (rule boxes_eqI)
    fix m d
    have "nodes (abs_fs f) k = nodes (store s) k" if "names (store s) (tl m) = Some k" "tl m \<noteq> tl nm" for k
      using that S(6) [OF i, of "tl m"] by (cases "k = i") (auto simp: f(3))
    then show "boxes (s\<lparr>fs := f\<rparr>) m = Some d \<longleftrightarrow> ((boxes s)(nm \<mapsto> c')) m = Some d"
      using i v same_name [OF _ v, of m] by (cases "m = nm") (auto simp: boxes_Some f(3) simp del: valid_pathname.simps)
  qed
qed

section \<open>Properties\<close>

text \<open>A server with one box.\<close>

definition demo_boxed :: server where
  "demo_boxed = (case workers_handle_manager_create demo_session (demo_request PROTOCOL_CODE_CREATE_REQUEST) demo_server of
     Some (Inr (_, _, s)) \<Rightarrow> s | _ \<Rightarrow> demo_server)"

lemma demo_boxed_ok:
  shows "srv_inv demo_boxed" and "boxes demo_boxed = [''/news'' \<mapsto> []]" and "slot_of demo_boxed = [''/news'' \<mapsto> 0]"
    and "n_publishers (boxes_table demo_boxed ! 0) = 0" and "box_size (boxes_table demo_boxed ! 0) = 0" 
    and "n_subscribers (boxes_table demo_boxed ! 0) = 0"
    and "fs_params (fs demo_boxed) = mbroker_params 2" and "handles (store demo_boxed) = Map.empty" and "spare (store demo_boxed) = 1023"
proof -
  note D = demo_server_ok
  have "length (cstr (req_box_name (demo_request PROTOCOL_CODE_CREATE_REQUEST))) < BOX_NAME_MAX_LEN"
    by (simp add: BOX_NAME_MAX_LEN_def)
  then obtain f j i where C: "free_slot demo_server = Some j" "fs_inv f" "fs_params f = fs_params (fs demo_server)"
      "fresh_inode (fs_params (fs demo_server)) (store demo_server) i"
      "abs_fs f = (store demo_server)\<lparr>names := (names (store demo_server))(''news'' \<mapsto> i), nodes := (nodes (store demo_server))(i \<mapsto> AFile [])\<rparr>"
      "workers_handle_manager_create demo_session (demo_request PROTOCOL_CODE_CREATE_REQUEST) demo_server =
        ret (0, answered demo_session (answer_bytes PROTOCOL_CODE_CREATE_ANSWER 0 []), new_box j ''/news'' (demo_server\<lparr>fs := f\<rparr>))"
    using create_new [OF D(1) _ _ _ demo_creatable(2) refl, of "demo_request PROTOCOL_CODE_CREATE_REQUEST" demo_session] demo_creatable(1)
    by (metis demo_request_simps list.sel(3))
  then have d: "demo_boxed = new_box j ''/news'' (demo_server\<lparr>fs := f\<rparr>)"
    by (simp add: demo_boxed_def)
  have "free_boxes demo_server ! 0 = FREE"
    using D(3) slot_of_None [of demo_server] D(5) by (metis (mono_tags, lifting) allocation_state_t.exhaust mbroker_params_simps(1) zero_less_numeral)
  then have j: "j = 0"
    using C(1) D(5) by (auto simp: free_slot_def find_upt_Some_iff)
  have "is_cstring ''/news''" "length ''/news'' < BOX_NAME_MAX_LEN"
    by (simp_all add: is_cstring_def BOX_NAME_MAX_LEN_def)
  note A = srv_inv_after_create [OF D(1) demo_creatable(1) this C(1-3) _ C(4)]
  show "srv_inv demo_boxed" "slot_of demo_boxed = [''/news'' \<mapsto> 0]" "boxes demo_boxed = [''/news'' \<mapsto> []]"
    using A C(5) D(2,3) boxes_after_create [OF D(1) _ C(4), of "''/news''" f] by (simp_all add: d j)
  show "n_publishers (boxes_table demo_boxed ! 0) = 0" "box_size (boxes_table demo_boxed ! 0) = 0" "n_subscribers (boxes_table demo_boxed ! 0) = 0"
    using nth_new_box [of demo_server 0 0 "''/news''"] srv_invD(1) [OF D(1)] D(5) demo_server_table by (simp_all add: d j new_box_def demo_boot_def)
  show "fs_params (fs demo_boxed) = mbroker_params 2" "handles (store demo_boxed) = Map.empty" "spare (store demo_boxed) = 1023"
    using C(3,5) D(4,5) by (simp_all add: d)
qed

text \<open>
  C22. A publisher session: the messages that arrive are appended to the box in order, as many as there is
  room for in its block; the other boxes stay as they are. The size in the table of boxes is the
  length of the stored content, and when the session ends the box accepts a publisher again and the handles
  of the file system are as before.
\<close>

theorem publisher_session_appends:
  assumes "srv_inv s" and "terminated (req_box_name req)" and "nm = cstr (req_box_name req)"
    and "boxes s nm = Some c" and "slot_of s nm = Some j" and "n_publishers (boxes_table s ! j) = 0"
    and "box_size (boxes_table s ! j) = length c" and "MSG_MAX_LEN dvd length c" and "MSG_MAX_LEN dvd block_size (fs_params (fs s))"
    and "\<not> handles_full (fs_params (fs s)) (store s)" and "c \<noteq> [] \<or> 0 < spare (store s)"
    and "session_opens env" and "on_pipe (session_pipe env) (concat (map message_in msgs))" and "\<forall>m \<in> set msgs. length m = MSG_MAX_LEN"
  shows "\<exists>p' s'. workers_handle_pub_register env req s = ret (0, p', s') \<and> srv_inv s' \<and>
    boxes s' = (boxes s)(nm \<mapsto> c @ concat (take ((block_size (fs_params (fs s)) - length c) div MSG_MAX_LEN) msgs)) \<and>
    box_size (boxes_table s' ! j) = length (the (boxes s' nm)) \<and> n_publishers (boxes_table s' ! j) = 0 \<and>
    handles (store s') = handles (store s)"
proof -
  note S = srv_invD [OF assms(1)]
  let ?c = "stored_in (block_size (fs_params (fs s))) c msgs"
  obtain i where i: "names (store s) (tl nm) = Some i"
    using assms(4) unfolding boxes_Some by blast
  obtain p' f n where P: "workers_handle_pub_register env req s = ret (0, p', box_sized j (length ?c) (s\<lparr>fs := f\<rparr>))" "fs_inv f"
      "fs_params f = fs_params (fs s)" "abs_fs f = (store s)\<lparr>nodes := (nodes (store s))(i \<mapsto> AFile ?c), spare := n\<rparr>"
    using pub_session [OF assms(1-5) i assms(6,7,10,11,8,9,12-14)] .
  note A = after_publish [OF assms(1,4) i P(2-4)]
  have "j < length (boxes_table s)"
    using assms(5) slot_of_Some [OF S(1)] table_okD(1) [OF S(1)] by auto
  then show ?thesis
    using P A assms(6) box_with_inv(1,3) [where g = "\<lambda>b. b\<lparr>box_size := length ?c\<rparr>" and j = j and s = "s\<lparr>fs := f\<rparr>"]
    by (auto simp: stored_in_def)
qed

theorem publisher_session_appends_witness:
  "\<exists>p' s'. workers_handle_pub_register
      (demo_session\<lparr>session_pipe := \<lparr>fifo_bytes = concat (map message_in [replicate 1024 CHR ''a'', replicate 1024 CHR ''b'']), fifo_outcomes = [Interrupted]\<rparr>\<rparr>)
      (demo_request PROTOCOL_CODE_PUB_REGISTER) demo_boxed = ret (0, p', s') \<and>
    boxes s' = [''/news'' \<mapsto> replicate 1024 CHR ''a'' @ replicate 1024 CHR ''b'']"
proof -
  let ?env = "demo_session\<lparr>session_pipe := \<lparr>fifo_bytes = concat (map message_in [replicate 1024 CHR ''a'', replicate 1024 CHR ''b'']), fifo_outcomes = [Interrupted]\<rparr>\<rparr>"
  note D = demo_boxed_ok
  have room: "\<not> handles_full (fs_params (fs demo_boxed)) (store demo_boxed)"
    using D(7,8) by (auto simp: handles_full_def intro: exI [of _ 0])
  have "take (1048576 div 1024) [replicate 1024 CHR ''a'', replicate 1024 CHR ''b''] = [replicate 1024 CHR ''a'', replicate 1024 CHR ''b'']"
    by (rule take_all) simp
  then show ?thesis
    using publisher_session_appends [OF D(1), of "demo_request PROTOCOL_CODE_PUB_REGISTER" "''/news''" "[]" 0 ?env
        "[replicate 1024 CHR ''a'', replicate 1024 CHR ''b'']"] D(2-9) room
    by (auto simp: demo_session_def on_pipe_def quiet_def MSG_MAX_LEN_def)
qed

lemma pub_refused:
  assumes s: "srv_inv s" and bn: "terminated (req_box_name req)" and j: "slot_of s (cstr (req_box_name req)) = Some j"
    and busy: "0 < n_publishers (boxes_table s ! j)"
  shows "\<exists>t. workers_handle_pub_register env req s = ret (0, session_pipe env, srv_traced t s)"
proof -
  note S = srv_invD [OF s]
  have tk: "j < length (boxes_table s)"
    using j slot_of_Some [OF S(1)] table_okD(1) [OF S(1)] by auto
  have "box_find (req_box_name req) s = Inr (int j, srv_traced boxes_read_trace s)"
    using box_find_eq [OF S(1) bn] j by simp
  then have "pub_start req s = ret (None, srv_traced (boxes_read_trace @ box_trace j) s)"
    using tk busy by (simp add: pub_start_def srv_log_traced)
  moreover have "s = srv_traced [] s"
    by (simp add: srv_traced_def)
  ultimately show ?thesis
    by (cases "session_opens env") (auto simp: workers_handle_pub_register_def intro: exI [of _ "[]"])
qed

text \<open>
  C36. \<^verbatim>\<open>box_create\<close> sets the number of subscribers of a new box twice and the number of publishers never, and the
  table of boxes comes from \<^verbatim>\<open>malloc\<close>: when the memory of its first slot happens to hold a nonzero
  number of publishers, the first box of the server accepts no publisher, ever; not a single
  message of the session is read.
\<close>

theorem first_box_may_refuse_publishers:
  assumes "boot_ok env n" and "just_started s" and "0 < n" and "n < 2 ^ 31"
    and "0 < n_publishers (the (boxes_malloc env) 0)"
    and "terminated (req_box_name req)" and "length (cstr (req_box_name req)) < BOX_NAME_MAX_LEN"
    and "valid_pathname (Some (cstr (req_box_name req)))"
  shows "\<exists>s0 s1 s2. mbroker_init env n s = Inr (0, s0) \<and>
    workers_handle_manager_create menv req s0 = ret (0, answered menv (answer_bytes PROTOCOL_CODE_CREATE_ANSWER 0 []), s1) \<and>
    workers_handle_pub_register penv req s1 = ret (0, session_pipe penv, s2) \<and> boxes s2 = [cstr (req_box_name req) \<mapsto> []]"
proof -
  let ?nm = "cstr (req_box_name req)"
  obtain f q where B: "fs_inv f" "fs_params f = mbroker_params n" "abs_fs f = empty_afs 1023"
      "mbroker_init env n s = Inr (0, s\<lparr>fs := f, requests_queue := Some q,
        boxes_table := map (the (boxes_malloc env)) [0..<64], free_boxes := replicate 64 FREE\<rparr>)"
    using mbroker_init_eq [OF assms(1-4)] by blast
  define s0 where "s0 = s\<lparr>fs := f, requests_queue := Some q, boxes_table := map (the (boxes_malloc env)) [0..<64], free_boxes := replicate 64 FREE\<rparr>"
  have s0: "fs s0 = f" "boxes_table s0 ! 0 = the (boxes_malloc env) 0"
    by (simp_all add: s0_def del: upt_rec_numeral)
  have I: "srv_inv s0" "boxes s0 = Map.empty" "slot_of s0 = Map.empty"
    using all_free_table [OF B(1,3) _ _ _ _ s0_def] B(2) assms(1,2) by (simp_all add: boot_ok_def just_started_def)
  have slot: "free_slot s0 = Some 0"
    using B(2) by (simp add: free_slot_def find_upt_Some_iff s0_def del: upt_rec_numeral)
  have ok: "creatable ?nm s0" and room: "\<not> handles_full (fs_params (fs s0)) (store s0)"
    using I(3) B(2,3) assms(3,7,8)
    by (auto simp: s0(1) creatable_def can_bind_def dir_full_def inodes_full_def handles_full_def sizeof_dir_entry_def
      invalid_sub_name_def MAX_FILE_NAME_def BOX_NAME_MAX_LEN_def intro: exI [of _ 0])
  obtain f1 j i where C: "free_slot s0 = Some j" "fs_inv f1" "fs_params f1 = fs_params (fs s0)"
      "fresh_inode (fs_params (fs s0)) (store s0) i"
      "abs_fs f1 = (store s0)\<lparr>names := (names (store s0))(tl ?nm \<mapsto> i), nodes := (nodes (store s0))(i \<mapsto> AFile [])\<rparr>"
      "workers_handle_manager_create menv req s0 =
        ret (0, answered menv (answer_bytes PROTOCOL_CODE_CREATE_ANSWER 0 []), new_box j ?nm (s0\<lparr>fs := f1\<rparr>))"
    using create_new [OF I(1) assms(6,7) ok room refl, of menv] .
  let ?s1 = "new_box j ?nm (s0\<lparr>fs := f1\<rparr>)"
  note A = srv_inv_after_create [OF I(1) ok is_cstring_cstr assms(7) C(1-3,5,4)]
  have "boxes ?s1 = [?nm \<mapsto> []]"
    using boxes_after_create [OF I(1) assms(8) C(4,5)] I(2) by simp
  moreover have "0 < n_publishers (boxes_table ?s1 ! j)"
    using nth_new_box [of "s0\<lparr>fs := f1\<rparr>" 0 0 ?nm] srv_invD(1) [OF I(1)] B(2) C(1,3) slot s0 assms(5) by simp
  then obtain t where "workers_handle_pub_register penv req ?s1 = ret (0, session_pipe penv, srv_traced t ?s1)"
    using pub_refused [OF A(1) assms(6), of j penv] A(2) by auto
  ultimately show ?thesis
    using B(4) C(6) unfolding s0_def [symmetric] by (metis boxes_traced)
qed

theorem first_box_may_refuse_publishers_witness:
  "\<exists>s0 s1 s2. mbroker_init (demo_boot\<lparr>boxes_malloc := Some (\<lambda>_. \<lparr>name = replicate 32 NUL, box_size = 0, n_publishers = 5, n_subscribers = 0\<rparr>)\<rparr>) 2
      off_server = Inr (0, s0) \<and>
    workers_handle_manager_create demo_session (demo_request PROTOCOL_CODE_CREATE_REQUEST) s0 =
      ret (0, answered demo_session (answer_bytes PROTOCOL_CODE_CREATE_ANSWER 0 []), s1) \<and>
    workers_handle_pub_register demo_session (demo_request PROTOCOL_CODE_CREATE_REQUEST) s1 = ret (0, session_pipe demo_session, s2) \<and>
    boxes s2 = [''/news'' \<mapsto> []]"
proof -
  have "boot_ok (demo_boot\<lparr>boxes_malloc := Some (\<lambda>_. \<lparr>name = replicate 32 NUL, box_size = 0, n_publishers = 5, n_subscribers = 0\<rparr>)\<rparr>) 2"
    using demo_boot_ok(1) [of 2] by (simp add: boot_ok_def BOX_NAME_MAX_LEN_def)
  from first_box_may_refuse_publishers [OF this demo_boot_ok(2), of "demo_request PROTOCOL_CODE_CREATE_REQUEST" demo_session demo_session]
  show ?thesis
    by (simp add: BOX_NAME_MAX_LEN_def)
qed

end
