(* ===== verification/Subscriber_Session.thy ===== *)
theory Subscriber_Session
  imports Publisher_Session
begin

text \<open>
  A subscriber's session at the server: it sends the messages of the box from the first one on, in
  order, and then sleeps; when it is woken it goes on with what has been published since; when the box
  has been removed it ends.
\<close>

declare abs_fs_select [simp del]

section \<open>Messages\<close>

definition message_out :: "mem \<Rightarrow> mem" where
  "message_out m = take 1 (int32_bytes PROTOCOL_CODE_MESSAGE_SEND) @ m"

lemma message_packet_eq:
  assumes "MSG_MAX_LEN \<le> length buf"
  shows "message_packet buf = Inr (message_out (take MSG_MAX_LEN buf))"
proof -
  have "packet_write (replicate (1 + MSG_MAX_LEN) NUL) 0 (int32_bytes PROTOCOL_CODE_MESSAGE_SEND) 1 =
      Inr (take 1 (int32_bytes PROTOCOL_CODE_MESSAGE_SEND) @ replicate MSG_MAX_LEN NUL, 1)"
    using packet_write_step [of 1 "int32_bytes PROTOCOL_CODE_MESSAGE_SEND" "1 + MSG_MAX_LEN" MSG_MAX_LEN 0 "[]"] by simp
  moreover have "packet_write (take 1 (int32_bytes PROTOCOL_CODE_MESSAGE_SEND) @ replicate MSG_MAX_LEN NUL) 1 buf MSG_MAX_LEN =
      Inr ((take 1 (int32_bytes PROTOCOL_CODE_MESSAGE_SEND) @ take MSG_MAX_LEN buf) @ replicate 0 NUL, 1 + MSG_MAX_LEN)"
    by (rule packet_write_step [OF assms]) simp_all
  ultimately show ?thesis
    by (simp add: message_packet_def message_out_def)
qed

section \<open>The loops\<close>

definition reading :: "nat \<Rightarrow> nat \<Rightarrow> nat \<Rightarrow> nat \<Rightarrow> mem \<Rightarrow> server \<Rightarrow> bool" where
  "reading j h i off c s \<longleftrightarrow>
     table_ok s \<and> fs_inv (fs s) \<and> plain (store s) \<and> box_taken s j \<and>
     handles (store s) h = Some (i, off) \<and> nodes (store s) i = Some (AFile c) \<and> off \<le> length c"

lemma readingD:
  assumes "reading j h i off c s"
  shows "table_ok s" and "fs_inv (fs s)" and "plain (store s)" and "j < slots s" and "free_boxes s ! j = TAKEN"
    and "handles (store s) h = Some (i, off)" and "nodes (store s) i = Some (AFile c)" and "off \<le> length c"
  using assms by (simp_all add: reading_def)

lemma reading_traced [simp]: "reading j h i off c (srv_traced t s) = reading j h i off c s"
  by (simp add: reading_def)

text \<open>One read of the file.\<close>

lemma read_block:
  assumes r: "reading j h i off c s" and bs: "bs = take MSG_MAX_LEN (drop off c)"
  obtains buf f where "srv_read (int h) MSG_MAX_LEN s = Inr (int (length bs), buf, s\<lparr>fs := f\<rparr>)" and "take (length bs) buf = bs"
    and "fs_inv f" and "fs_params f = fs_params (fs s)"
    and "abs_fs f = (store s)\<lparr>handles := (handles (store s))(h \<mapsto> (i, off + length bs))\<rparr>"
    and "reading j h i (off + length bs) c (s\<lparr>fs := f\<rparr>)"
proof -
  note R = readingD [OF r]
  obtain f where f: "tfs.does (Read (int h) MSG_MAX_LEN) (fs s) (int (length bs), bs) f"
      "abs_fs f = (store s)\<lparr>handles := (handles (store s))(h \<mapsto> (i, off + length bs))\<rparr>"
    using tfs.read_handle [OF R(2,3,6-8), of MSG_MAX_LEN] unfolding bs by blast
  note D = does_facts [OF f(1)]
  obtain buf where buf: "srv_read (int h) MSG_MAX_LEN s = Inr (int (length bs), buf, s\<lparr>fs := f\<rparr>)" "take (length bs) buf = bs"
    using srv_read_does [OF f(1)] by auto
  have "off + length bs \<le> length c"
    using R(8) by (simp add: bs)
  then have "reading j h i (off + length bs) c (s\<lparr>fs := f\<rparr>)"
    using R D by (simp add: reading_def f(2) plain_def)
  with buf D f(2) that show thesis by blast
qed

text \<open>Nothing to read: the thread sleeps.\<close>

lemma sub_loop_sleeps:
  assumes r: "reading j h i (length c) c s"
  shows "\<exists>f. sub_loop None j (int h) p s = ret (Sleeping j (int h), p, s\<lparr>fs := f\<rparr>) \<and> fs_inv f \<and>
    fs_params f = fs_params (fs s) \<and> abs_fs f = store s"
proof -
  let ?s = "srv_traced [Acquire_wr (box_mutex j)] s"
  note R = readingD [OF r]
  have len: "j < length (free_boxes s)"
    using table_okD(2) [OF R(1)] R(4) by simp
  have "reading j h i (length c) c ?s"
    using r by simp
  then obtain buf f where B: "srv_read (int h) MSG_MAX_LEN ?s = Inr (0, buf, ?s\<lparr>fs := f\<rparr>)" "fs_inv f" "fs_params f = fs_params (fs ?s)"
      "abs_fs f = (store ?s)\<lparr>handles := (handles (store ?s))(h \<mapsto> (i, length c))\<rparr>"
    by (rule read_block [of _ _ _ _ _ _ "[]"]) simp_all
  then have "sub_loop None j (int h) p s = ret (Sleeping j (int h), p, s\<lparr>fs := traced [Release (box_mutex j)] f\<rparr>)"
    using len R(5) msg_len by (simp add: sub_loop.simps [of None] srv_log_traced)
  then show ?thesis
    using B(2-4) R(6) by (intro exI [of _ "traced [Release (box_mutex j)] f"]) (simp add: fun_upd_idem)
qed
lemma sub_loop_sends:
  assumes "reading j h i off c s" and "drop off c = concat msgs" and "\<forall>m \<in> set msgs. length m = MSG_MAX_LEN"
    and "on_pipe p out" and "take MSG_MAX_LEN buf = m" and "length m = MSG_MAX_LEN"
  shows "\<exists>p' f. sub_loop (Some buf) j (int h) p s = ret (Sleeping j (int h), p', s\<lparr>fs := f\<rparr>) \<and>
    on_pipe p' (out @ concat (map message_out (m # msgs))) \<and> fs_inv f \<and> fs_params f = fs_params (fs s) \<and>
    abs_fs f = (store s)\<lparr>handles := (handles (store s))(h \<mapsto> (i, length c))\<rparr>"
  using assms
proof (induction msgs arbitrary: off s p out buf m)
  case Nil
  have off: "off = length c"
    using Nil.prems(2) readingD(8) [OF Nil.prems(1)] by simp
  have pk: "message_packet buf = Inr (message_out m)"
    using message_packet_eq [of buf] Nil.prems(5,6) by (metis length_take min.cobounded1)
  obtain p' where w: "pipe_write p (message_out m) = (int (length (message_out m)), p')" "on_pipe p' (out @ message_out m)"
    using pipe_write_packet [OF Nil.prems(4), of "message_out m"] Nil.prems(6) by (auto simp: message_out_def MSG_MAX_LEN_def)
  obtain buf' f where B: "srv_read (int h) MSG_MAX_LEN s = Inr (0, buf', s\<lparr>fs := f\<rparr>)" "fs_inv f" "fs_params f = fs_params (fs s)"
      "abs_fs f = (store s)\<lparr>handles := (handles (store s))(h \<mapsto> (i, length c))\<rparr>" "reading j h i (length c) c (s\<lparr>fs := f\<rparr>)"
    by (rule read_block [OF Nil.prems(1), of "[]"]) (simp_all add: off)
  obtain f' where "sub_loop None j (int h) p' (s\<lparr>fs := f\<rparr>) = ret (Sleeping j (int h), p', s\<lparr>fs := f\<rparr>\<lparr>fs := f'\<rparr>)" "fs_inv f'"
      "fs_params f' = fs_params f" "abs_fs f' = abs_fs f"
    using sub_loop_sleeps [OF B(5), of p'] by auto
  moreover have "0 < length (message_out m)"
    by (simp add: message_out_def)
  ultimately show ?case
    using pk w B msg_len by (intro exI [of _ p'] exI [of _ f']) (simp add: sub_loop.simps [of "Some buf"] fun_upd_def)
next
  case (Cons m' msgs)
  have pk: "message_packet buf = Inr (message_out m)"
    using message_packet_eq [of buf] Cons.prems(5,6) by (metis length_take min.cobounded1)
  obtain p' where w: "pipe_write p (message_out m) = (int (length (message_out m)), p')" "on_pipe p' (out @ message_out m)"
    using pipe_write_packet [OF Cons.prems(4), of "message_out m"] Cons.prems(6) by (auto simp: message_out_def MSG_MAX_LEN_def)
  have m': "length m' = MSG_MAX_LEN" "m' = take MSG_MAX_LEN (drop off c)"
    using Cons.prems(2,3) by simp_all
  obtain buf' f where B: "srv_read (int h) MSG_MAX_LEN s = Inr (int (length m'), buf', s\<lparr>fs := f\<rparr>)" "take (length m') buf' = m'"
      "fs_inv f" "fs_params f = fs_params (fs s)" "abs_fs f = (store s)\<lparr>handles := (handles (store s))(h \<mapsto> (i, off + length m'))\<rparr>"
      "reading j h i (off + length m') c (s\<lparr>fs := f\<rparr>)"
    using read_block [OF Cons.prems(1) m'(2)] .
  have "drop (off + length m') c = concat msgs"
    using Cons.prems(2) by (metis add.commute append_eq_conv_conj concat.simps(2) drop_drop)
  with B(6) have "\<exists>p'' f'. sub_loop (Some buf') j (int h) p' (s\<lparr>fs := f\<rparr>) = ret (Sleeping j (int h), p'', s\<lparr>fs := f\<rparr>\<lparr>fs := f'\<rparr>) \<and>
      on_pipe p'' ((out @ message_out m) @ concat (map message_out (m' # msgs))) \<and> fs_inv f' \<and> fs_params f' = fs_params (fs (s\<lparr>fs := f\<rparr>)) \<and>
      abs_fs f' = (store (s\<lparr>fs := f\<rparr>))\<lparr>handles := (handles (store (s\<lparr>fs := f\<rparr>)))(h \<mapsto> (i, length c))\<rparr>"
    by (rule Cons.IH) (use Cons.prems(3) w(2) B(2) m'(1) in simp_all)
  then obtain p'' f' where L: "sub_loop (Some buf') j (int h) p' (s\<lparr>fs := f\<rparr>) = ret (Sleeping j (int h), p'', s\<lparr>fs := f'\<rparr>)"
      "on_pipe p'' ((out @ message_out m) @ concat (map message_out (m' # msgs)))" "fs_inv f'" "fs_params f' = fs_params (fs s)"
      "abs_fs f' = (store s)\<lparr>handles := (handles (store s))(h \<mapsto> (i, length c))\<rparr>"
    using B(4,5) by auto
  have "0 < length (message_out m)"
    by (simp add: message_out_def)
  then have "sub_loop (Some buf) j (int h) p s = ret (Sleeping j (int h), p'', s\<lparr>fs := f'\<rparr>)"
    using pk w(1) B(1) L(1) m'(1) msg_len by (simp add: sub_loop.simps [of "Some buf"])
  then show ?case
    using L(2-5) by (intro exI [of _ p''] exI [of _ f']) (simp add: fun_upd_def)
qed

lemma sub_loop_eq:
  assumes r: "reading j h i off c s" and msgs: "drop off c = concat msgs" "\<forall>m \<in> set msgs. length m = MSG_MAX_LEN" and p: "on_pipe p out"
  shows "\<exists>p' f. sub_loop None j (int h) p s = ret (Sleeping j (int h), p', s\<lparr>fs := f\<rparr>) \<and>
    on_pipe p' (out @ concat (map message_out msgs)) \<and> fs_inv f \<and> fs_params f = fs_params (fs s) \<and>
    abs_fs f = (store s)\<lparr>handles := (handles (store s))(h \<mapsto> (i, length c))\<rparr>"
proof (cases msgs)
  case Nil
  then have off: "off = length c"
    using msgs(1) readingD(8) [OF r] by simp
  obtain f where f: "sub_loop None j (int h) p s = ret (Sleeping j (int h), p, s\<lparr>fs := f\<rparr>)" "fs_inv f"
      "fs_params f = fs_params (fs s)" "abs_fs f = store s"
    using sub_loop_sleeps [of j h i c s p] r off by auto
  moreover have "(store s)\<lparr>handles := (handles (store s))(h \<mapsto> (i, length c))\<rparr> = store s"
    using readingD(6) [OF r] off by (simp add: fun_upd_idem)
  ultimately show ?thesis
    using p Nil by auto
next
  case (Cons m ms)
  note R = readingD [OF r]
  let ?s = "srv_traced [Acquire_wr (box_mutex j)] s"
  have m: "length m = MSG_MAX_LEN" "m = take MSG_MAX_LEN (drop off c)"
    using msgs Cons by simp_all
  have "reading j h i off c ?s"
    using r by simp
  from read_block [OF this m(2)]
  obtain buf f where B: "srv_read (int h) MSG_MAX_LEN ?s = Inr (int (length m), buf, ?s\<lparr>fs := f\<rparr>)" "take (length m) buf = m"
      "fs_inv f" "fs_params f = fs_params (fs ?s)" "abs_fs f = (store ?s)\<lparr>handles := (handles (store ?s))(h \<mapsto> (i, off + length m))\<rparr>"
      "reading j h i (off + length m) c (?s\<lparr>fs := f\<rparr>)"
    by metis
  let ?t = "Release (box_mutex j) # boxes_read_trace"
  define s1 where "s1 = s\<lparr>fs := traced ?t f\<rparr>"
  have r1: "reading j h i (off + length m) c s1"
  proof -
    have "s1 = srv_traced ?t (?s\<lparr>fs := f\<rparr>)"
      by (simp add: s1_def srv_traced_def)
    with B(6) show ?thesis by simp
  qed
  have "drop (off + length m) c = concat ms"
    using msgs(1) Cons by (metis add.commute append_eq_conv_conj concat.simps(2) drop_drop)
  from sub_loop_sends [OF r1 this _ p, of buf m] msgs(2) Cons B(2) m(1)
  obtain p' f' where L: "sub_loop (Some buf) j (int h) p s1 = ret (Sleeping j (int h), p', s1\<lparr>fs := f'\<rparr>)"
      "on_pipe p' (out @ concat (map message_out msgs))" "fs_inv f'" "fs_params f' = fs_params (fs s1)"
      "abs_fs f' = (store s1)\<lparr>handles := (handles (store s1))(h \<mapsto> (i, length c))\<rparr>"
    by auto
  have alive: "box_alive j (srv_traced [Release (box_mutex j)] (?s\<lparr>fs := f\<rparr>)) = Inr (True, s1)"
    using box_alive_eq [of "srv_traced [Release (box_mutex j)] (?s\<lparr>fs := f\<rparr>)" j] R(1,4,5) B(4) by (simp add: s1_def srv_traced_def)
  have "j < length (free_boxes s)"
    using table_okD(2) [OF R(1)] R(4) by simp
  then have "sub_loop None j (int h) p s = ret (Sleeping j (int h), p', s\<lparr>fs := f'\<rparr>)"
    using R(5) B(1) alive L(1) m(1) msg_len by (simp add: sub_loop.simps [of None] srv_log_traced) (simp add: s1_def)
  then show ?thesis
    using L(2-5) B(4,5) by (auto simp: s1_def)
qed

section \<open>Beginning and end\<close>

lemma sub_start_found:
  assumes s: "srv_inv s" and bn: "terminated (req_box_name req)" and j: "slot_of s (cstr (req_box_name req)) = Some j"
    and s1_def: "s1 = box_with j (\<lambda>b. b\<lparr>n_subscribers := u64_inc (n_subscribers b)\<rparr>) (srv_traced t s)"
    and t_def: "t = boxes_read_trace @ [Acquire_wr (box_mutex j)]"
  shows "sub_start req s = bindP (srv_open (req_box_name req) 0 s1) (\<lambda>(box_f, s).
       if box_f < 0 then
         bindP (Some (box_update j (\<lambda>b. b\<lparr>n_subscribers := u64_dec (n_subscribers b)\<rparr>) s)) (\<lambda>s. ret (None, s))
       else ret (Some (j, box_f), srv_log (Release (box_mutex j)) s))"
    and "srv_inv s1"
proof -
  note S = srv_invD [OF s]
  have tk: "j < length (boxes_table s)"
    using j slot_of_Some [OF S(1)] table_okD(1) [OF S(1)] by auto
  have find: "box_find (req_box_name req) s = Inr (int j, srv_traced boxes_read_trace s)"
    using box_find_eq [OF S(1) bn] j by simp
  then show "sub_start req s = bindP (srv_open (req_box_name req) 0 s1) (\<lambda>(box_f, s).
       if box_f < 0 then
         bindP (Some (box_update j (\<lambda>b. b\<lparr>n_subscribers := u64_dec (n_subscribers b)\<rparr>) s)) (\<lambda>s. ret (None, s))
       else ret (Some (j, box_f), srv_log (Release (box_mutex j)) s))"
    using tk by (simp add: sub_start_def sub_open_def srv_log_traced [of "Acquire_wr (box_mutex j)"] box_update_def [of _ _ "srv_traced _ s"] s1_def t_def)
  show "srv_inv s1"
    using s box_with_inv(1) [where g = "\<lambda>b. b\<lparr>n_subscribers := u64_inc (n_subscribers b)\<rparr>" and j = j and s = "srv_traced t s"]
    by (simp add: s1_def)
qed

lemma sub_start_ok:
  assumes s: "srv_inv s" and bn: "terminated (req_box_name req)" "nm = cstr (req_box_name req)" and j: "slot_of s nm = Some j"
    and i: "valid_pathname (Some nm)" "names (store s) (tl nm) = Some i" "nodes (store s) i = Some (AFile c)"
    and room: "\<not> handles_full (fs_params (fs s)) (store s)"
  obtains h f where "sub_start req s =
      ret (Some (j, int h), box_with j (\<lambda>b. b\<lparr>n_subscribers := u64_inc (n_subscribers b)\<rparr>) (s\<lparr>fs := f\<rparr>))"
    and "handles (store s) h = None" and "fs_inv f" and "fs_params f = fs_params (fs s)"
    and "abs_fs f = (store s)\<lparr>handles := (handles (store s))(h \<mapsto> (i, 0))\<rparr>"
proof -
  define t where "t = boxes_read_trace @ [Acquire_wr (box_mutex j)]"
  define s1 where "s1 = box_with j (\<lambda>b. b\<lparr>n_subscribers := u64_inc (n_subscribers b)\<rparr>) (srv_traced t s)"
  note B = sub_start_found [OF s bn(1) j [unfolded bn(2)] s1_def t_def]
  have st: "store s1 = store s" "fs_params (fs s1) = fs_params (fs s)"
    by (simp_all add: s1_def)
  have "names (store s1) (tl nm) = Some i" "nodes (store s1) i = Some (AFile c)" "\<not> handles_full (fs_params (fs s1)) (store s1)"
    using i room st by simp_all
  then obtain h f where o: "srv_open (req_box_name req) 0 s1 = ret (int h, s1\<lparr>fs := f\<rparr>)" "handles (store s1) h = None" "fs_inv f"
      "fs_params f = fs_params (fs s1)" "abs_fs f = (store s1)\<lparr>handles := (handles (store s1))(h \<mapsto> (i, 0))\<rparr>"
    using open_box [OF B(2) bn i(1), of i c 0] by auto
  have "sub_start req s = ret (Some (j, int h), box_with j (\<lambda>b. b\<lparr>n_subscribers := u64_inc (n_subscribers b)\<rparr>)
      (s\<lparr>fs := traced [Release (box_mutex j)] f\<rparr>))"
    unfolding B(1) o(1) by (simp add: srv_log_traced s1_def srv_traced_def)
  then show thesis
    by (rule that) (use o st in simp_all)
qed


lemma sub_session:
  assumes s: "srv_inv s" and bn: "terminated (req_box_name req)" "nm = cstr (req_box_name req)"
    and c: "boxes s nm = Some (concat msgs)" "\<forall>m \<in> set msgs. length m = MSG_MAX_LEN" and j: "slot_of s nm = Some j"
    and i: "names (store s) (tl nm) = Some i" and room: "\<not> handles_full (fs_params (fs s)) (store s)"
    and env: "session_opens env" "on_pipe (session_pipe env) out"
  obtains h p f where "workers_handle_sub_register env req s =
      ret (Sleeping j (int h), p, box_with j (\<lambda>b. b\<lparr>n_subscribers := u64_inc (n_subscribers b)\<rparr>) (s\<lparr>fs := f\<rparr>))"
    and "on_pipe p (out @ concat (map message_out msgs))" and "handles (store s) h = None" and "fs_inv f" and "fs_params f = fs_params (fs s)"
    and "abs_fs f = (store s)\<lparr>handles := (handles (store s))(h \<mapsto> (i, length (concat msgs)))\<rparr>"
proof -
  note S = srv_invD [OF s]
  let ?inc = "\<lambda>b. b\<lparr>n_subscribers := u64_inc (n_subscribers b)\<rparr>" and ?c = "concat msgs"
  have nd: "valid_pathname (Some nm)" "nodes (store s) i = Some (AFile ?c)"
    using c(1) i unfolding boxes_Some by auto
  obtain h f where B: "sub_start req s = ret (Some (j, int h), box_with j ?inc (s\<lparr>fs := f\<rparr>))" "handles (store s) h = None"
      "fs_inv f" "fs_params f = fs_params (fs s)" "abs_fs f = (store s)\<lparr>handles := (handles (store s))(h \<mapsto> (i, 0))\<rparr>"
    using sub_start_ok [OF s bn j nd(1) i nd(2) room] .
  define s1 where "s1 = box_with j ?inc (s\<lparr>fs := f\<rparr>)"
  have tk: "j < slots s" "free_boxes s ! j = TAKEN"
    using j slot_of_Some [OF S(1)] by auto
  have T: "table_ok s1"
    using S(1) B(4) box_with_inv(4) [where g = ?inc and j = j and s = "s\<lparr>fs := f\<rparr>"] by (simp add: s1_def)
  have "reading j h i 0 ?c s1"
    using T B S(3) tk nd(2) by (simp add: reading_def s1_def plain_def)
  from sub_loop_eq [OF this _ c(2) env(2)] obtain p f' where L: "sub_loop None j (int h) (session_pipe env) s1 = ret (Sleeping j (int h), p, s1\<lparr>fs := f'\<rparr>)"
      "on_pipe p (out @ concat (map message_out msgs))" "fs_inv f'" "fs_params f' = fs_params (fs s1)"
      "abs_fs f' = (store s1)\<lparr>handles := (handles (store s1))(h \<mapsto> (i, length ?c))\<rparr>"
    by auto
  have "workers_handle_sub_register env req s = ret (Sleeping j (int h), p, box_with j ?inc (s\<lparr>fs := f'\<rparr>))"
    using B(1) L(1) env(1) by (simp add: workers_handle_sub_register_def s1_def)
  then show thesis
    by (rule that [OF _ L(2) B(2) L(3)]) (use L(4,5) B(4,5) in \<open>simp_all add: s1_def\<close>)
qed

lemma srv_inv_handles:
  assumes "srv_inv s" and "fs_inv f" and "fs_params f = fs_params (fs s)" and "abs_fs f = (store s)\<lparr>handles := hs\<rparr>"
  shows "srv_inv (s\<lparr>fs := f\<rparr>)" and "boxes (s\<lparr>fs := f\<rparr>) = boxes s"
  using srv_inv_same_view [OF assms(1-3)] srv_invD(3) [OF assms(1)] assms(4)
  by (simp_all add: plain_def boxes_def file_content_def fun_eq_iff)


lemma dvd_sum_list: "\<forall>x \<in> set xs. (d :: nat) dvd f x \<Longrightarrow> d dvd sum_list (map f xs)"
  by (induction xs) simp_all

lemma stored_in_all:
  assumes "\<forall>m \<in> set msgs. length m = MSG_MAX_LEN" and "length c + length (concat msgs) \<le> bs"
  shows "stored_in bs c msgs = c @ concat msgs"
proof -
  have "length (concat msgs) = length msgs * MSG_MAX_LEN"
    using assms(1) by (induction msgs) simp_all
  then have "length msgs * MSG_MAX_LEN \<le> bs - length c"
    using assms(2) by simp
  then have "length msgs \<le> (bs - length c) div MSG_MAX_LEN"
    using msg_len(1) by (simp add: less_eq_div_iff_mult_less_eq)
  then show ?thesis
    by (simp add: stored_in_def)
qed

text \<open>
  A message gets through: a subscriber that has read everything and sleeps is woken after a publisher session
  and sends exactly the messages of that session, in order; nothing is skipped or repeated between
  the two parts of the stream.
\<close>

lemma follow_session:
  assumes "srv_inv s" and "terminated (req_box_name req)" and "nm = cstr (req_box_name req)"
    and "boxes s nm = Some (concat old)" and "\<forall>m \<in> set (old @ new). length m = MSG_MAX_LEN" and "slot_of s nm = Some j"
    and "n_publishers (boxes_table s ! j) = 0" and "box_size (boxes_table s ! j) = length (concat old)"
    and "MSG_MAX_LEN dvd block_size (fs_params (fs s))" and "length (concat (old @ new)) \<le> block_size (fs_params (fs s))"
    and "0 < spare (store s)"
    and two: "f1 < max_open_files_count (fs_params (fs s))" "f2 < max_open_files_count (fs_params (fs s))" "f1 \<noteq> f2"
      "handles (store s) f1 = None" "handles (store s) f2 = None"
    and senv: "session_opens senv" "on_pipe (session_pipe senv) []"
    and penv: "session_opens penv" "on_pipe (session_pipe penv) (concat (map message_in new))"
  shows "\<exists>h p1 s1 p2 s2 p3 s3. workers_handle_sub_register senv req s = ret (Sleeping j h, p1, s1) \<and>
    workers_handle_pub_register penv req s1 = ret (0, p2, s2) \<and> sub_loop None j h p1 s2 = ret (Sleeping j h, p3, s3) \<and>
    on_pipe p3 (concat (map message_out (old @ new)))"
proof -
  note S = srv_invD [OF assms(1)]
  let ?inc = "\<lambda>b. b\<lparr>n_subscribers := u64_inc (n_subscribers b)\<rparr>"
  obtain i where i: "names (store s) (tl nm) = Some i" "valid_pathname (Some nm)"
    using assms(4) unfolding boxes_Some by blast
  have msgs: "\<forall>m \<in> set old. length m = MSG_MAX_LEN" "\<forall>m \<in> set new. length m = MSG_MAX_LEN"
    using assms(5) by auto
  have room: "\<not> handles_full (fs_params (fs s)) (store s)"
    using two by (auto simp: handles_full_def)
  obtain h p1 g where A: "workers_handle_sub_register senv req s = ret (Sleeping j (int h), p1, box_with j ?inc (s\<lparr>fs := g\<rparr>))"
      "on_pipe p1 ([] @ concat (map message_out old))" "handles (store s) h = None" "fs_inv g" "fs_params g = fs_params (fs s)"
      "abs_fs g = (store s)\<lparr>handles := (handles (store s))(h \<mapsto> (i, length (concat old)))\<rparr>"
    using sub_session [OF assms(1-4) msgs(1) assms(6) i(1) room senv] .
  define s1 where "s1 = box_with j ?inc (s\<lparr>fs := g\<rparr>)"
  note V = srv_inv_handles [OF assms(1) A(4-6)]
  have tk: "j < slots s" "free_boxes s ! j = TAKEN" "j < length (boxes_table s)"
    using assms(6) slot_of_Some [OF S(1)] table_okD(1) [OF S(1)] by auto
  have s1: "srv_inv s1" "boxes s1 = boxes s" "slot_of s1 = slot_of s" "fs s1 = g" "n_publishers (boxes_table s1 ! j) = 0"
      "box_size (boxes_table s1 ! j) = length (concat old)" "free_boxes s1 = free_boxes s"
    using V A(5) assms(7,8) tk box_with_inv(1-3) [where g = ?inc and j = j and s = "s\<lparr>fs := g\<rparr>"] by (simp_all add: s1_def)
  have room1: "\<not> handles_full (fs_params (fs s1)) (store s1)"
    using two A(5,6) unfolding s1(4) handles_full_def by (metis fun_upd_other afs.select_convs(3) afs.surjective afs.update_convs(3))
  have facts: "boxes s1 nm = Some (concat old)" "slot_of s1 nm = Some j" "names (store s1) (tl nm) = Some i"
      "concat old \<noteq> [] \<or> 0 < spare (store s1)" "MSG_MAX_LEN dvd length (concat old)" "MSG_MAX_LEN dvd block_size (fs_params (fs s1))"
    using assms(4,6,8,9,11) i(1) s1 A(5,6) msgs(1) by (simp_all add: length_concat dvd_sum_list)
  let ?c = "stored_in (block_size (fs_params (fs s1))) (concat old) new"
  obtain p2 g2 n where P: "workers_handle_pub_register penv req s1 = ret (0, p2, box_sized j (length ?c) (s1\<lparr>fs := g2\<rparr>))" "fs_inv g2"
      "fs_params g2 = fs_params (fs s1)" "abs_fs g2 = (store s1)\<lparr>nodes := (nodes (store s1))(i \<mapsto> AFile ?c), spare := n\<rparr>"
    using pub_session [OF s1(1) assms(2,3) facts(1-3) s1(5,6) room1 facts(4-6) penv msgs(2)] .
  have c: "?c = concat (old @ new)"
    using stored_in_all [OF msgs(2), of "concat old"] assms(10) s1(4) A(5) by simp
  define s2 where "s2 = box_sized j (length ?c) (s1\<lparr>fs := g2\<rparr>)"
  have T: "table_ok s2"
    using table_ok_sized(1) [of "s1\<lparr>fs := g2\<rparr>" j] srv_invD(1) [OF s1(1)] P(3) s1(4) by (simp add: s2_def)
  have r: "reading j h i (length (concat old)) ?c s2"
    using T P(2-4) A(5,6) s1(4,7) tk S(3) c by (simp add: reading_def s2_def plain_def)
  have d: "drop (length (concat old)) ?c = concat new"
    by (simp add: c)
  obtain p3 g3 where "sub_loop None j (int h) p1 s2 = ret (Sleeping j (int h), p3, s2\<lparr>fs := g3\<rparr>)"
      "on_pipe p3 (concat (map message_out old) @ concat (map message_out new))"
    using sub_loop_eq [OF r d msgs(2) A(2)] by auto
  then show ?thesis
    using A(1) P(1) unfolding s1_def [symmetric] s2_def [symmetric] by auto
qed

section \<open>Properties\<close>

text \<open>
  C26. A subscriber gets every message of the box, from the first one, in order and once, and then waits for more;
  the boxes are unchanged and the count of subscribers has grown by one.
\<close>

theorem subscriber_gets_all_messages:
  assumes "srv_inv s" and "terminated (req_box_name req)" and "nm = cstr (req_box_name req)"
    and "boxes s nm = Some (concat msgs)" and "\<forall>m \<in> set msgs. length m = MSG_MAX_LEN" and "slot_of s nm = Some j"
    and "\<not> handles_full (fs_params (fs s)) (store s)" and "session_opens env" and "on_pipe (session_pipe env) []"
  shows "\<exists>h p s'. workers_handle_sub_register env req s = ret (Sleeping j (int h), p, s') \<and>
    on_pipe p (concat (map message_out msgs)) \<and> srv_inv s' \<and> boxes s' = boxes s \<and>
    n_subscribers (boxes_table s' ! j) = u64_inc (n_subscribers (boxes_table s ! j))"
proof -
  obtain i where i: "names (store s) (tl nm) = Some i"
    using assms(4) unfolding boxes_Some by blast
  obtain h p f where B: "workers_handle_sub_register env req s =
      ret (Sleeping j (int h), p, box_with j (\<lambda>b. b\<lparr>n_subscribers := u64_inc (n_subscribers b)\<rparr>) (s\<lparr>fs := f\<rparr>))"
      "on_pipe p ([] @ concat (map message_out msgs))" "fs_inv f" "fs_params f = fs_params (fs s)"
      "abs_fs f = (store s)\<lparr>handles := (handles (store s))(h \<mapsto> (i, length (concat msgs)))\<rparr>"
    using sub_session [OF assms(1-6) i assms(7-9)] .
  note V = srv_inv_handles [OF assms(1) B(3-5)]
  have "j < length (boxes_table s)"
    using assms(6) slot_of_Some [OF srv_invD(1) [OF assms(1)]] table_okD(1) [OF srv_invD(1) [OF assms(1)]] by auto
  then show ?thesis
    using B(1,2) V box_with_inv(1,3) [where g = "\<lambda>b. b\<lparr>n_subscribers := u64_inc (n_subscribers b)\<rparr>" and j = j and s = "s\<lparr>fs := f\<rparr>"]
    by auto
qed

lemma demo_boxed_handles: "\<not> handles_full (fs_params (fs demo_boxed)) (store demo_boxed)"
  using demo_boxed_ok(7,8) by (auto simp: handles_full_def intro: exI [of _ 0])

lemma demo_session_ok: "session_opens demo_session" "on_pipe (session_pipe demo_session) []"
  by (simp_all add: demo_session_def on_pipe_def quiet_def)

theorem subscriber_gets_all_messages_witness:
  "\<exists>h p s'. workers_handle_sub_register demo_session (demo_request PROTOCOL_CODE_SUB_REGISTER) demo_boxed = ret (Sleeping 0 (int h), p, s') \<and>
    on_pipe p [] \<and> boxes s' = boxes demo_boxed"
  using subscriber_gets_all_messages [OF demo_boxed_ok(1) _ _ _ _ _ demo_boxed_handles demo_session_ok,
      of "demo_request PROTOCOL_CODE_SUB_REGISTER" "''/news''" "[]" 0] demo_boxed_ok(2,3)
  by auto



text \<open>
  C37. A box that is removed while a subscriber registers: the worker has found the slot of the box, another
  worker removes the box, and the first one goes on. It cannot open the file and returns with the mutex of
  the slot locked; every session of a box that gets this slot then waits for ever.
\<close>

theorem subscriber_leaves_box_locked:
  assumes "srv_inv s" and "terminated (req_box_name req)" and "slot_of s (cstr (req_box_name req)) = Some j"
  shows "\<exists>s1 r p s2 s3 t. box_find (req_box_name req) s = Inr (int j, s1) \<and>
    workers_handle_manager_remove env req s1 = ret (r, p, s2) \<and> sub_open j req s2 = ret (None, s3) \<and>
    lock_trace (fs s3) = lock_trace (fs s2) @ t \<and> run_locks [] t = Some [box_mutex j]"
proof -
  let ?nm = "cstr (req_box_name req)" and ?inc = "\<lambda>b. b\<lparr>n_subscribers := u64_inc (n_subscribers b)\<rparr>"
  note S = srv_invD [OF assms(1)]
  have v: "valid_pathname (Some ?nm)"
    using S(4) assms(3) by simp
  obtain r p s2 where R: "workers_handle_manager_remove env req (srv_traced boxes_read_trace s) = ret (r, p, s2)" "srv_inv s2"
      "boxes s2 = (boxes s)(?nm := None)" "fs_params (fs s2) = fs_params (fs s)"
    by (rule remove_request [of "srv_traced boxes_read_trace s" req env]) (use assms(1,2) in simp_all)
  have gone: "names (store s2) (tl ?nm) = None"
    using boxes_None [OF R(2), of ?nm] slot_iff_name [OF R(2) v] R(3) by simp
  have tk: "j < length (boxes_table s2)"
    using assms(3) slot_of_Some [OF S(1)] table_okD(1) [OF srv_invD(1) [OF R(2)]] R(4) by auto
  define s3 where "s3 = box_with j ?inc (srv_traced [Acquire_wr (box_mutex j)] s2)"
  have s3: "srv_inv s3" "store s3 = store s2" "lock_trace (fs s3) = lock_trace (fs s2) @ [Acquire_wr (box_mutex j)]" "boxes_table s3 = (boxes_table s2)[j := ?inc (boxes_table s2 ! j)]"
    using R(2) box_with_inv(1) [where g = ?inc and j = j and s = "srv_traced [Acquire_wr (box_mutex j)] s2"] by (simp_all add: s3_def)
  obtain f where f: "tfs.does (Open ?nm 0) (fs s3) (-1, []) f"
    using tfs.open_missing [OF srv_invD(2,3) [OF s3(1)] is_cstring_cstr, of "req_box_name req" 0] gone s3(2) by auto
  obtain t where t: "bracketed Link_lock t" "lock_trace f = lock_trace (fs s3) @ t"
    using does_facts(3) [OF f] by blast
  let ?s = "box_with j (\<lambda>b. b\<lparr>n_subscribers := u64_dec (n_subscribers b)\<rparr>) (s3\<lparr>fs := f\<rparr>)"
  have "sub_open j req s2 = bindP (srv_open (req_box_name req) 0 s3) (\<lambda>(box_f, s).
       if box_f < 0 then
         bindP (Some (box_update j (\<lambda>b. b\<lparr>n_subscribers := u64_dec (n_subscribers b)\<rparr>) s)) (\<lambda>s. ret (None, s))
       else ret (Some (j, box_f), srv_log (Release (box_mutex j)) s))"
    using tk by (simp add: sub_open_def srv_log_traced [of "Acquire_wr (box_mutex j)"] box_update_def [of _ _ "srv_traced _ s2"] s3_def)
  then have "sub_open j req s2 = ret (None, ?s)"
    unfolding srv_open_does [OF f assms(2)] using tk s3(4) by (simp add: box_update_def)
  moreover have "run_locks [] (Acquire_wr (box_mutex j) # t) = Some [box_mutex j]"
    using t(1) by (simp add: bracketed_def less_lock_class_def may_acquire_def)
  moreover have "lock_trace (fs ?s) = lock_trace (fs s2) @ Acquire_wr (box_mutex j) # t"
    using t(2) s3(3) by simp
  moreover have "box_find (req_box_name req) s = Inr (int j, srv_traced boxes_read_trace s)"
    using box_find_eq [OF S(1) assms(2)] assms(3) by simp
  ultimately show ?thesis
    using R(1) by blast
qed

theorem subscriber_leaves_box_locked_witness:
  "\<exists>s1 r p s2 s3 t. box_find (req_box_name (demo_request PROTOCOL_CODE_SUB_REGISTER)) demo_boxed = Inr (0, s1) \<and>
    workers_handle_manager_remove demo_session (demo_request PROTOCOL_CODE_SUB_REGISTER) s1 = ret (r, p, s2) \<and>
    sub_open 0 (demo_request PROTOCOL_CODE_SUB_REGISTER) s2 = ret (None, s3) \<and>
    lock_trace (fs s3) = lock_trace (fs s2) @ t \<and> run_locks [] t = Some [box_mutex 0]"
  using subscriber_leaves_box_locked [OF demo_boxed_ok(1), of "demo_request PROTOCOL_CODE_SUB_REGISTER" 0 demo_session] demo_boxed_ok(3)
  by simp

end
