(* ===== verification/Message_Text.thy ===== *)
theory Message_Text
  imports Listing_Client Subscriber_Session
begin

text \<open>
  Messages as text: what the publisher program makes of the lines of its input, and what the subscriber
  program prints of the messages it gets.
\<close>

section \<open>From lines to messages\<close>

definition padded :: "string \<Rightarrow> mem" where
  "padded m = m @ replicate (MSG_MAX_LEN - length m) NUL"

text \<open>Text that neither ends a message nor looks like the end of the input.\<close>

definition plain_text :: "string \<Rightarrow> bool" where
  "plain_text l \<longleftrightarrow> newline \<notin> set l \<and> EOF_char \<notin> set l \<and> NUL \<notin> set l"

text \<open>The messages for one line: as many full ones as it takes, and one for the rest.\<close>

function pieces :: "string \<Rightarrow> string list" where
  "pieces l =
     (if length l < MSG_MAX_LEN - 1 then [l]
      else take (MSG_MAX_LEN - 1) l # pieces (drop (MSG_MAX_LEN - 1) l))"
  by pat_completeness auto
termination
  by (relation "measure length") (auto simp: MSG_MAX_LEN_def)

declare pieces.simps [simp del]

lemma concat_pieces: "concat (pieces l) = l"
  by (induction l rule: pieces.induct) (simp add: pieces.simps)

lemma pieces_short: "length l < MSG_MAX_LEN - 1 \<Longrightarrow> pieces l = [l]"
  by (simp add: pieces.simps)

lemma pieces_long: "MSG_MAX_LEN - 1 \<le> length l \<Longrightarrow> pieces l = take (MSG_MAX_LEN - 1) l # pieces (drop (MSG_MAX_LEN - 1) l)"
  by (simp add: pieces.simps)

lemma pieces_not_Nil [simp]: "pieces l \<noteq> []"
  by (simp add: pieces.simps [of l])

lemma plain_text_append [simp]: "plain_text (a @ b) \<longleftrightarrow> plain_text a \<and> plain_text b"
  by (auto simp: plain_text_def)

lemma plain_text_take_drop: "plain_text l \<Longrightarrow> plain_text (take n l) \<and> plain_text (drop n l)"
  using plain_text_append [of "take n l" "drop n l"] by simp

text \<open>A message as the buffers hold it: a string that leaves room for its final zero.\<close>

definition fits_message :: "string \<Rightarrow> bool" where
  "fits_message m \<longleftrightarrow> plain_text m \<and> length m < MSG_MAX_LEN"

lemma pieces_fit: "plain_text l \<Longrightarrow> m \<in> set (pieces l) \<Longrightarrow> fits_message m"
proof (induction l rule: pieces.induct)
  case (1 l)
  note cut = plain_text_take_drop [OF 1(2)]
  show ?case
  proof (cases "length l < MSG_MAX_LEN - 1")
    case True
    then show ?thesis
      using 1(2,3) by (simp add: pieces_short fits_message_def)
  next
    case False
    then show ?thesis
      using 1(1) [OF False cut [THEN conjunct2]] 1(3) cut by (auto simp: pieces_long fits_message_def MSG_MAX_LEN_def)
  qed
qed

lemma length_padded [simp]: "length m \<le> MSG_MAX_LEN \<Longrightarrow> length (padded m) = MSG_MAX_LEN"
  by (simp add: padded_def)



section \<open>The publisher\<close>

lemma read_message_text:
  "length message = MSG_MAX_LEN \<Longrightarrow> plain_text l \<Longrightarrow> n + length l < MSG_MAX_LEN \<Longrightarrow>
    read_message message n c (l @ rest) = read_message (patch message n l) (n + length l) (last (c # l)) rest"
proof (induction l arbitrary: message n c)
  case (Cons x l)
  have "patch (message[n := x]) (Suc n) l = patch message n (x # l)"
    using Cons.prems by (simp add: patch_def take_Suc_conv_app_nth)
  moreover have "x \<noteq> newline" "x \<noteq> EOF_char" "plain_text l" "n < MSG_MAX_LEN - 1"
    using Cons.prems by (auto simp: plain_text_def)
  ultimately show ?case
    using Cons.IH [of "message[n := x]" "Suc n" x] Cons.prems by simp
qed simp

lemma publisher_packet_eq:
  assumes "fits_message m" and "length message = MSG_MAX_LEN"
  shows "publisher_packet ((patch message 0 m)[length m := NUL]) = Inr (message_in (padded m))"
proof -
  let ?b = "(patch message 0 m)[length m := NUL]"
  have b: "?b = m @ NUL # drop (Suc (length m)) message"
    using assms by (auto simp: patch_def fits_message_def list_update_append Cons_nth_drop_Suc [symmetric])
  then have "cstr_at ?b 0 = Inr m"
    using assms(1) by (simp add: cstr_at_def fits_message_def plain_text_def is_cstring_def)
  moreover have "packet_write (replicate (1 + MSG_MAX_LEN) NUL) 0 (int32_bytes PROTOCOL_CODE_MESSAGE_RECEIVE) 1 =
      Inr (take 1 (int32_bytes PROTOCOL_CODE_MESSAGE_RECEIVE) @ replicate MSG_MAX_LEN NUL, 1)"
    using packet_write_step [of 1 "int32_bytes PROTOCOL_CODE_MESSAGE_RECEIVE" "1 + MSG_MAX_LEN" MSG_MAX_LEN 0 "[]"] by simp
  moreover have "packet_write (take 1 (int32_bytes PROTOCOL_CODE_MESSAGE_RECEIVE) @ replicate MSG_MAX_LEN NUL) 1 ?b (length m) =
      Inr (message_in (padded m), 1 + length m)"
    using packet_write_step [of "length m" ?b MSG_MAX_LEN "MSG_MAX_LEN - length m" 1 "take 1 (int32_bytes PROTOCOL_CODE_MESSAGE_RECEIVE)"] assms(1)
    by (simp add: b message_in_def padded_def fits_message_def)
  ultimately show ?thesis
    by (simp add: publisher_packet_def)
qed

lemma publish_piece:
  assumes "read_message message 0 c input = Inr (patch message 0 m, length m, c', input')" and "fits_message m" and "c' \<noteq> EOF_char"
    and "length message = MSG_MAX_LEN" and "on_pipe pipe out"
  obtains message' pipe' where "publish_loop (\<lambda>_. False) k message c input pipe = publish_loop (\<lambda>_. False) (Suc k) message' c' input' pipe'"
    and "length message' = MSG_MAX_LEN" and "on_pipe pipe' (out @ message_in (padded m))"
proof -
  have len: "length (message_in (padded m)) = 1 + MSG_MAX_LEN"
    using assms(2) by (simp add: message_in_def fits_message_def)
  obtain pipe' where w: "pipe_write pipe (message_in (padded m)) = (int (1 + MSG_MAX_LEN), pipe')" "on_pipe pipe' (out @ message_in (padded m))"
    using pipe_write_packet [OF assms(5), of "message_in (padded m)"] unfolding len by (auto simp: MSG_MAX_LEN_def)
  have "length m < length (patch message 0 m)"
    using assms(2,4) by (simp add: fits_message_def)
  then show thesis
    using that [of "(patch message 0 m)[length m := NUL]" pipe'] w assms publisher_packet_eq [OF assms(2,4)]
    by (simp add: publish_loop.simps [of _ k] fits_message_def)
qed

text \<open>A line that fills the buffer: its first part is sent and the reading goes on behind it.\<close>

lemma publish_full_piece:
  assumes "plain_text l" and "MSG_MAX_LEN - 1 \<le> length l" and "length message = MSG_MAX_LEN" and "on_pipe pipe out"
  obtains message' c' pipe' where "publish_loop (\<lambda>_. False) k message c (l @ rest) pipe =
      publish_loop (\<lambda>_. False) (Suc k) message' c' (drop (MSG_MAX_LEN - 1) l @ rest) pipe'"
    and "length message' = MSG_MAX_LEN" and "on_pipe pipe' (out @ message_in (padded (take (MSG_MAX_LEN - 1) l)))"
proof -
  let ?m = "take (MSG_MAX_LEN - 1) l" and ?l = "drop (MSG_MAX_LEN - 1) l"
  note cut = plain_text_take_drop [OF assms(1), of "MSG_MAX_LEN - 1"]
  have len: "length ?m = MSG_MAX_LEN - 1" "l @ rest = ?m @ ?l @ rest" "?m \<noteq> []" "fits_message ?m"
    using assms(2) cut msg_len(1) by (auto simp: fits_message_def MSG_MAX_LEN_def)
  have "read_message (patch message 0 ?m) (length ?m) (last ?m) (?l @ rest) = Inr (patch message 0 ?m, length ?m, last ?m, ?l @ rest)"
    using len(1) by (cases "?l @ rest") simp_all
  moreover have "read_message message 0 c (l @ rest) = read_message (patch message 0 ?m) (length ?m) (last ?m) (?l @ rest)"
    using read_message_text [OF assms(3) cut [THEN conjunct1], of 0 c "?l @ rest"] len msg_len(1) by (metis add_0 diff_less last_ConsR less_one)
  moreover have "last ?m \<noteq> EOF_char"
    using cut last_in_set [OF len(3)] by (auto simp: plain_text_def)
  ultimately show thesis
    using publish_piece [OF _ len(4) _ assms(3,4)] that by metis
qed

lemma publish_full_pieces:
  assumes "plain_text l" and "length message = MSG_MAX_LEN" and "on_pipe pipe out"
  shows "\<exists>message' c' k' pipe'. publish_loop (\<lambda>_. False) k message c (l @ rest) pipe =
      publish_loop (\<lambda>_. False) k' message' c' (last (pieces l) @ rest) pipe' \<and>
    length message' = MSG_MAX_LEN \<and> on_pipe pipe' (out @ concat (map (\<lambda>m. message_in (padded m)) (butlast (pieces l))))"
  using assms
proof (induction l arbitrary: message pipe out c k rule: pieces.induct)
  case (1 l)
  show ?case
  proof (cases "length l < MSG_MAX_LEN - 1")
    case True
    then show ?thesis
      using 1(3,4) by (auto simp: pieces_short)
  next
    case False
    then obtain message' c' pipe' where P: "publish_loop (\<lambda>_. False) k message c (l @ rest) pipe =
        publish_loop (\<lambda>_. False) (Suc k) message' c' (drop (MSG_MAX_LEN - 1) l @ rest) pipe'"
      "length message' = MSG_MAX_LEN" "on_pipe pipe' (out @ message_in (padded (take (MSG_MAX_LEN - 1) l)))"
      using publish_full_piece [OF 1(2) _ 1(3,4)] by (metis not_less)
    from 1(1) [OF False plain_text_take_drop [OF 1(2), THEN conjunct2] P(2,3), of "Suc k" c'] False show ?thesis
      unfolding P(1) by (simp add: pieces_long)
  qed
qed

lemma last_piece: "length (last (pieces l)) < MSG_MAX_LEN - 1"
  by (induction l rule: pieces.induct) (simp add: pieces.simps)

lemma publish_line:
  assumes "plain_text l" and "length message = MSG_MAX_LEN" and "on_pipe pipe out"
  obtains message' k' pipe' where "publish_loop (\<lambda>_. False) k message c (l @ newline # rest) pipe = publish_loop (\<lambda>_. False) k' message' newline rest pipe'"
    and "length message' = MSG_MAX_LEN" and "on_pipe pipe' (out @ concat (map (\<lambda>m. message_in (padded m)) (pieces l)))"
proof -
  let ?l = "last (pieces l)"
  obtain message1 c1 k1 pipe1 where A: "publish_loop (\<lambda>_. False) k message c (l @ newline # rest) pipe =
        publish_loop (\<lambda>_. False) k1 message1 c1 (?l @ newline # rest) pipe1"
      "length message1 = MSG_MAX_LEN" "on_pipe pipe1 (out @ concat (map (\<lambda>m. message_in (padded m)) (butlast (pieces l))))"
    using publish_full_pieces [OF assms] by blast
  have l: "fits_message ?l" "length ?l < MSG_MAX_LEN - 1"
    using pieces_fit [OF assms(1)] last_piece by simp_all
  then have r: "read_message message1 0 c1 (?l @ newline # rest) = Inr (patch message1 0 ?l, length ?l, newline, rest)"
    using read_message_text [OF A(2), of ?l 0] by (simp add: fits_message_def)
  have c: "concat (map f (pieces l)) = concat (map f (butlast (pieces l))) @ f ?l" for f :: "string \<Rightarrow> mem"
    by (subst append_butlast_last_id [of "pieces l", symmetric]) (simp_all only: map_append concat_append pieces_not_Nil, simp_all)
  obtain message' pipe' where "publish_loop (\<lambda>_. False) k1 message1 c1 (?l @ newline # rest) pipe1 = publish_loop (\<lambda>_. False) (Suc k1) message' newline rest pipe'"
      "length message' = MSG_MAX_LEN" "on_pipe pipe' ((out @ concat (map (\<lambda>m. message_in (padded m)) (butlast (pieces l)))) @ message_in (padded ?l))"
    by (rule publish_piece [OF r l(1) _ A(2,3), of k1]) simp_all
  then show thesis
    using A(1) c by (intro that) simp_all
qed

text \<open>What ends the input: nothing more to read, or a byte that looks like it.\<close>

definition input_ends :: "string \<Rightarrow> bool" where
  "input_ends rest \<longleftrightarrow> rest = [] \<or> (\<exists>r. rest = EOF_char # r)"

lemma publish_end:
  assumes "plain_text u" and "length message = MSG_MAX_LEN" and "on_pipe pipe out" and "input_ends rest"
  obtains pipe' where "publish_loop (\<lambda>_. False) k message c (u @ rest) pipe = Inr (0, pipe')"
    and "on_pipe pipe' (out @ concat (map (\<lambda>m. message_in (padded m)) (butlast (pieces u))))"
proof -
  let ?u = "last (pieces u)"
  obtain message1 c1 k1 pipe1 where A: "publish_loop (\<lambda>_. False) k message c (u @ rest) pipe = publish_loop (\<lambda>_. False) k1 message1 c1 (?u @ rest) pipe1"
      "length message1 = MSG_MAX_LEN" "on_pipe pipe1 (out @ concat (map (\<lambda>m. message_in (padded m)) (butlast (pieces u))))"
    using publish_full_pieces [OF assms(1-3), of k c rest] by auto
  have "plain_text ?u" "length ?u < MSG_MAX_LEN - 1"
    using pieces_fit [OF assms(1), of ?u] last_piece by (simp_all add: fits_message_def)
  then have "publish_loop (\<lambda>_. False) k1 message1 c1 (?u @ rest) pipe1 = Inr (0, pipe1)"
    using read_message_text [OF A(2), of ?u 0 c1 rest] A(2) assms(4) by (auto simp: publish_loop.simps input_ends_def)
  with A that show thesis by simp
qed

text \<open>The input: complete lines and what follows the last newline.\<close>

definition input_text :: "string list \<Rightarrow> string \<Rightarrow> string" where
  "input_text ls u = concat (map (\<lambda>l. l @ [newline]) ls) @ u"

definition messages_of :: "string list \<Rightarrow> string \<Rightarrow> string list" where
  "messages_of ls u = concat (map pieces ls) @ butlast (pieces u)"

lemma publish_loop_eq:
  assumes "\<forall>l \<in> set ls. plain_text l" and "plain_text u" and "length message = MSG_MAX_LEN" and "on_pipe pipe out" and "input_ends rest"
  shows "\<exists>pipe'. publish_loop (\<lambda>_. False) k message c (input_text ls u @ rest) pipe = Inr (0, pipe') \<and>
    on_pipe pipe' (out @ concat (map (\<lambda>m. message_in (padded m)) (messages_of ls u)))"
  using assms
proof (induction ls arbitrary: k message c pipe out)
  case Nil
  then show ?case
    using publish_end [of u message pipe out rest k c] by (auto simp: input_text_def messages_of_def)
next
  case (Cons l ls)
  have "plain_text l" "\<forall>l \<in> set ls. plain_text l"
    using Cons.prems(1) by simp_all
  moreover obtain message' k' pipe' where P: "publish_loop (\<lambda>_. False) k message c (l @ newline # input_text ls u @ rest) pipe =
        publish_loop (\<lambda>_. False) k' message' newline (input_text ls u @ rest) pipe'"
      "length message' = MSG_MAX_LEN" "on_pipe pipe' (out @ concat (map (\<lambda>m. message_in (padded m)) (pieces l)))"
    using publish_line [OF calculation(1) Cons.prems(3,4)] .
  moreover note Cons.IH [OF calculation(2) Cons.prems(2) P(2,3) Cons.prems(5), of k' newline]
  ultimately show ?case
    by (simp add: input_text_def messages_of_def)
qed

lemma publisher_sends:
  assumes "\<forall>l \<in> set ls. plain_text l" and "plain_text u" and "session_opened env" and "on_pipe (session env) []" and "input_ends rest"
  obtains pipe where "publisher_write_messages env (\<lambda>_. False) (input_text ls u @ rest) = Inr (0, pipe)"
    and "on_pipe pipe (concat (map (\<lambda>m. message_in (padded m)) (messages_of ls u)))"
  using publish_loop_eq [OF assms(1,2) _ assms(4,5), of "replicate MSG_MAX_LEN NUL" 0 NUL] assms(3)
  by (auto simp: publisher_write_messages_def packet_ensure_len_limit_def MSG_MAX_LEN_def PIPE_BUFFER_MAX_LEN_def)


section \<open>The subscriber\<close>






section \<open>Properties\<close>



text \<open>
  C40. The publisher compares a \<^verbatim>\<open>char\<close> with \<^verbatim>\<open>EOF\<close>, so a byte 0xFF in its input counts as the end of the input: it sends
  the lines before that byte, drops what follows without reading it, and reports success.
\<close>

theorem publisher_stops_at_byte_FF:
  assumes "\<forall>l \<in> set ls. plain_text l" and "plain_text u" and "session_opened env" and "on_pipe (session env) []"
  shows "\<exists>p. publisher_write_messages env (\<lambda>_. False) (input_text ls u @ CHR 0xFF # rest) = Inr (0, p) \<and>
    on_pipe p (concat (map (\<lambda>m. message_in (padded m)) (messages_of ls u)))"
  by (rule publisher_sends [OF assms, of "CHR 0xFF # rest"]) (simp_all add: input_ends_def)

theorem publisher_stops_at_byte_FF_witness:
  "\<exists>p. publisher_write_messages demo_client (\<lambda>_. False) (''caf'' @ [CHR 0xFF, newline] @ ''next'' @ [newline]) = Inr (0, p) \<and> on_pipe p []"
  using publisher_stops_at_byte_FF [of "[]" "''caf''" demo_client "newline # ''next'' @ [newline]"]
  by (simp add: plain_text_def demo_client_def on_pipe_def quiet_def input_text_def messages_of_def pieces_short MSG_MAX_LEN_def)

end
