(* ===== verification/Server_Frame.thy ===== *)
theory Server_Frame
  imports Subscriber_Session Manager_Listing
begin

text \<open>
  What the handlers of the server do whatever arrives on the pipes of their clients: they return, and keep
  the invariant of the server. \<open>kept s s'\<close> is what every handler keeps, \<open>held s\<close> the handles of the file system
  that are in use, \<open>unread h s\<close> what a subscriber has still to read.
\<close>

declare abs_fs_select [simp del]

definition held :: "server \<Rightarrow> nat set" where
  "held s = dom (handles (store s))"

definition kept :: "server \<Rightarrow> server \<Rightarrow> bool" where
  "kept s s' \<longleftrightarrow> srv_inv s' \<and> fs_params (fs s') = fs_params (fs s) \<and> requests_queue s' = requests_queue s"

lemma keptD:
  assumes "kept s s'"
  shows "srv_inv s'" and "fs_params (fs s') = fs_params (fs s)" and "requests_queue s' = requests_queue s"
  using assms by (simp_all add: kept_def)

lemma kept_trans: "kept s s1 \<Longrightarrow> kept s1 s2 \<Longrightarrow> kept s s2"
  by (simp add: kept_def)

lemma kept_traced [simp]: "kept s (srv_traced t s') = kept s s'" "held (srv_traced t s) = held s"
  by (simp_all add: kept_def held_def)

lemma kept_refl: "srv_inv s \<Longrightarrow> kept s s"
  by (simp add: kept_def)

lemma kept_box_with:
  assumes "srv_inv s" and "\<And>b. name (g b) = name b"
  shows "kept s (box_with j g s)" and "held (box_with j g s) = held s"
  using assms box_with_inv(1) [where g = g and j = j and s = s] by (simp_all add: kept_def held_def)

lemma kept_store:
  assumes "srv_inv s" and "fs_inv f" and "fs_params f = fs_params (fs s)" and "names (abs_fs f) = names (store s)" and "plain (abs_fs f)"
  shows "kept s (s\<lparr>fs := f\<rparr>)"
  using srv_inv_same_view [OF assms] assms(3) by (simp add: kept_def)

section \<open>Calls of the file system\<close>

lemma plain_upd [simp]: "plain (a\<lparr>handles := h\<rparr>) = plain a" "plain (a\<lparr>spare := n\<rparr>) = plain a" "plain (a\<lparr>names := m\<rparr>) = plain a"
  by (simp_all add: plain_def)

lemma plain_file: "plain a \<Longrightarrow> plain (a\<lparr>nodes := (nodes a)(i \<mapsto> AFile c)\<rparr>)"
  by (simp add: plain_def)

lemma collect_facts [simp]: "names (collect i a) = names a" "handles (collect i a) = handles a" "plain a \<Longrightarrow> plain (collect i a)"
  by (auto simp: collect_def plain_def)

lemma write_step_frame:
  "client_step p a (Write h buf) (r, x) a' \<Longrightarrow> plain a \<Longrightarrow>
    x = [] \<and> names a' = names a \<and> plain a' \<and> dom (handles a') = dom (handles a)"
  by (erule client_step_WriteE) (simp_all add: open_handle_Some plain_file insert_absorb domI)

lemma read_step_frame:
  "client_step p a (Read h n) (r, x) a' \<Longrightarrow> plain a \<Longrightarrow>
    names a' = names a \<and> plain a' \<and> dom (handles a') = dom (handles a)"
  by (erule client_step_ReadE) (simp_all add: open_handle_Some insert_absorb domI)

lemma write_kept:
  assumes "srv_inv s" and "length buf < 2 ^ 63"
  obtains r s' where "srv_write h buf s = Inr (r, s')" and "kept s s'" and "held s' = held s"
proof -
  note S = srv_invD [OF assms(1)]
  obtain r x f where D: "tfs.does (Write h buf) (fs s) (r, x) f" "client_step (fs_params (fs s)) (store s) (Write h buf) (r, x) (abs_fs f)"
    using tfs.some_result [OF S(2,3), of "Write h buf"] assms(2) by auto
  have "x = [] \<and> names (abs_fs f) = names (store s) \<and> plain (abs_fs f) \<and> dom (handles (abs_fs f)) = dom (handles (store s))"
    using write_step_frame [OF D(2) S(3)] .
  then show thesis
    using that [of r "s\<lparr>fs := f\<rparr>"] srv_write_does [of h buf s r f] D(1) does_facts [OF D(1)] kept_store [OF assms(1)]
    by (simp add: held_def)
qed

definition unread :: "int \<Rightarrow> server \<Rightarrow> nat" where
  "unread h s =
     (case open_handle (store s) h of
        None \<Rightarrow> 0
      | Some (f, i, off) \<Rightarrow> (case nodes (store s) i of Some (AFile c) \<Rightarrow> length c - off | _ \<Rightarrow> 0))"

lemma unread_traced [simp]: "unread h (srv_traced t s) = unread h s"
  by (simp add: unread_def split: option.split)

lemma unread_same: "abs_fs f = store s \<Longrightarrow> unread h (s\<lparr>fs := f\<rparr>) = unread h s"
  by (simp add: unread_def split: option.split)

lemma read_step_cases:
  "client_step p a (Read h n) (r, x) a' \<Longrightarrow> r = -1 \<and> a' = a \<or>
    (\<exists>f i off c. open_handle a h = Some (f, i, off) \<and> nodes a i = Some (AFile c) \<and> x = take n (drop (min off (length c)) c) \<and>
      r = int (length x) \<and> a' = a\<lparr>handles := (handles a)(f \<mapsto> (i, min off (length c) + length x))\<rparr>)"
  by (erule client_step_ReadE) auto

lemma read_kept:
  assumes "srv_inv s"
  obtains r buf s' where "srv_read h MSG_MAX_LEN s = Inr (r, buf, s')" and "kept s s'" and "held s' = held s"
    and "boxes_table s' = boxes_table s" and "free_boxes s' = free_boxes s"
    and "unread h s' \<le> unread h s"
    and "size_of_ssize r = MSG_MAX_LEN \<Longrightarrow> MSG_MAX_LEN \<le> length buf \<and> unread h s' < unread h s"
proof -
  note S = srv_invD [OF assms(1)]
  obtain r x f where D: "tfs.does (Read h MSG_MAX_LEN) (fs s) (r, x) f" "client_step (fs_params (fs s)) (store s) (Read h MSG_MAX_LEN) (r, x) (abs_fs f)"
    using tfs.some_result [OF S(2,3), of "Read h MSG_MAX_LEN"] by auto
  obtain buf where buf: "srv_read h MSG_MAX_LEN s = Inr (r, buf, s\<lparr>fs := f\<rparr>)" "take (nat r) buf = x"
    using srv_read_does [OF D(1)] by blast
  have frame: "names (abs_fs f) = names (store s) \<and> plain (abs_fs f) \<and> dom (handles (abs_fs f)) = dom (handles (store s))"
    using read_step_frame [OF D(2) S(3)] .
  have bad: "size_of_ssize (-1) \<noteq> MSG_MAX_LEN"
    by (simp add: size_of_ssize_def MSG_MAX_LEN_def)
  have "unread h (s\<lparr>fs := f\<rparr>) \<le> unread h s \<and>
      (size_of_ssize r = MSG_MAX_LEN \<longrightarrow> MSG_MAX_LEN \<le> length buf \<and> unread h (s\<lparr>fs := f\<rparr>) < unread h s)"
    using read_step_cases [OF D(2)]
  proof (elim disjE exE conjE)
    assume "r = -1" "abs_fs f = store s"
    then show ?thesis
      using bad unread_same by simp
  next
    fix g i off c
    assume R: "open_handle (store s) h = Some (g, i, off)" "nodes (store s) i = Some (AFile c)"
        "x = take MSG_MAX_LEN (drop (min off (length c)) c)" "r = int (length x)"
        "abs_fs f = (store s)\<lparr>handles := (handles (store s))(g \<mapsto> (i, min off (length c) + length x))\<rparr>"
    have un: "unread h s = length c - off" "unread h (s\<lparr>fs := f\<rparr>) = length c - (min off (length c) + length x)"
      using R(1,2) by (simp_all add: unread_def R(5) open_handle_def split: if_splits)
    have "length x < 2 ^ 64"
      using msg_len(2) by (simp add: R(3) min_less_iff_disj)
    then have "length x = MSG_MAX_LEN" if "size_of_ssize r = MSG_MAX_LEN"
      using that R(4) by simp
    moreover have "MSG_MAX_LEN \<le> length buf" if "length x = MSG_MAX_LEN"
      using that buf(2) R(4) by (metis length_take min.cobounded1 nat_int)
    moreover have "min off (length c) + length x \<le> length c"
      by (simp add: R(3))
    ultimately show ?thesis
      unfolding un using msg_len(1) by (intro conjI impI) (force, blast, linarith)
  qed
  then show thesis
    using that [OF buf(1)] kept_store [OF assms(1)] does_facts [OF D(1)] frame by (simp add: held_def)
qed

lemma close_step_frame:
  "client_step p a (Close h) (r, x) a' \<Longrightarrow> plain a \<Longrightarrow>
    x = [] \<and> names a' = names a \<and> plain a' \<and> dom (handles a') = (if 0 \<le> h then dom (handles a) - {nat h} else dom (handles a))"
  by (erule client_step_CloseE) (auto simp: open_handle_Some open_handle_def)

lemma close_kept:
  assumes "srv_inv s"
  obtains r s' where "srv_close h s = Inr (r, s')" and "kept s s'" and "held s' = (if 0 \<le> h then held s - {nat h} else held s)"
proof -
  note S = srv_invD [OF assms(1)]
  obtain r x f where D: "tfs.does (Close h) (fs s) (r, x) f" "client_step (fs_params (fs s)) (store s) (Close h) (r, x) (abs_fs f)"
    using tfs.some_result [OF S(2,3), of "Close h"] by auto
  note F = close_step_frame [OF D(2) S(3)]
  show thesis
    using that [of r "s\<lparr>fs := f\<rparr>"] srv_close_does [of h s r f] D(1) does_facts [OF D(1)] kept_store [OF assms(1)] F
    by (simp add: held_def)
qed

text \<open>Opening the file of a box, when there is a handle for it.\<close>

lemma room_iff: "handles_full p a \<longleftrightarrow> {..<max_open_files_count p} \<subseteq> dom (handles a)"
  by (auto simp: handles_full_def)

lemma open_kept:
  assumes "srv_inv s" and "terminated bn" and "slot_of s (cstr bn) = Some j" and "\<not> has_flag mode TFS_O_TRUNC"
    and "\<not> {..<max_open_files_count (fs_params (fs s))} \<subseteq> held s"
  obtains h s' where "srv_open bn mode s = ret (int h, s')" and "kept s s'" and "h \<notin> held s" and "held s' = insert h (held s)"
proof -
  note S = srv_invD [OF assms(1)]
  have v: "valid_pathname (Some (cstr bn))"
    using S(4) assms(3) by simp
  obtain i where i: "names (store s) (tl (cstr bn)) = Some i"
    using slot_iff_name [OF assms(1) v] assms(3) by auto
  obtain c where c: "nodes (store s) i = Some (AFile c)"
    using tfs.file_bound [OF S(2,3) i] .
  have room: "\<not> handles_full (fs_params (fs s)) (store s)"
    using assms(5) by (simp add: room_iff held_def)
  obtain h f where o: "srv_open bn mode s = ret (int h, s\<lparr>fs := f\<rparr>)" "handles (store s) h = None" "fs_inv f" "fs_params f = fs_params (fs s)"
      "abs_fs f = (store s)\<lparr>handles := (handles (store s))(h \<mapsto> (i, if has_flag mode TFS_O_APPEND then length c else 0))\<rparr>"
    using open_box [OF assms(1,2) refl v i c assms(4) room] .
  show thesis
    by (rule that [OF o(1) kept_store]) (use assms(1) S(3) o(2-5) in \<open>auto simp: held_def\<close>)
qed

section \<open>Publishers\<close>

lemma found_slot: "srv_inv s \<Longrightarrow> slot_of s nm = Some j \<Longrightarrow> j < slots s \<and> j < length (boxes_table s) \<and> j < length (free_boxes s)"
  using slot_of_Some [OF srv_invD(1)] table_okD(1,2) [OF srv_invD(1)] by fastforce

lemma pub_start_kept:
  assumes s: "srv_inv s" and bn: "terminated (req_box_name req)" and room: "\<not> {..<max_open_files_count (fs_params (fs s))} \<subseteq> held s"
  obtains s' where "pub_start req s = ret (None, s')" and "kept s s'" and "held s' = held s"
  | j h s' where "pub_start req s = ret (Some (j, int h), s')" and "kept s s'" and "j < slots s" and "h \<notin> held s" and "held s' = insert h (held s)"
proof (cases "slot_of s (cstr (req_box_name req))")
  case None
  then have "pub_start req s = ret (None, srv_traced boxes_read_trace s)"
    using box_find_eq [OF srv_invD(1) [OF s] bn] by (simp add: pub_start_def)
  then show thesis
    by (rule that(1)) (use s in \<open>simp_all add: kept_refl\<close>)
next
  case (Some j)
  note j = found_slot [OF s Some]
  let ?t = "boxes_read_trace @ [Acquire_wr (box_mutex j)]" and ?inc = "\<lambda>b. b\<lparr>n_publishers := u64_inc (n_publishers b)\<rparr>"
  have find: "box_find (req_box_name req) s = Inr (int j, srv_traced boxes_read_trace s)"
    using box_find_eq [OF srv_invD(1) [OF s] bn] Some by simp
  show thesis
  proof (cases "0 < n_publishers (boxes_table s ! j)")
    case True
    then have "pub_start req s = ret (None, srv_traced (?t @ [Release (box_mutex j)]) s)"
      using find j by (simp add: pub_start_def srv_log_traced)
    then show thesis
      by (rule that(1)) (use s in \<open>simp_all add: kept_refl\<close>)
  next
    case False
    let ?s = "srv_traced ?t (box_with j ?inc s)"
    have K: "kept s (box_with j ?inc s)" "held (box_with j ?inc s) = held s"
      by (rule kept_box_with [OF s], simp)+
    have "slot_of ?s (cstr (req_box_name req)) = Some j"
      using Some box_with_inv(2) [where g = ?inc and j = j and s = s] by simp
    moreover have "srv_inv ?s" "held ?s = held s" "fs_params (fs ?s) = fs_params (fs s)" "\<not> has_flag TFS_O_APPEND TFS_O_TRUNC"
      using K keptD [OF K(1)] by simp_all
    ultimately obtain h s' where o: "srv_open (req_box_name req) TFS_O_APPEND ?s = ret (int h, s')" "kept ?s s'" "h \<notin> held s" "held s' = insert h (held s)"
      using open_kept [of ?s "req_box_name req" j TFS_O_APPEND] bn room by metis
    then have "pub_start req s = ret (Some (j, int h), srv_traced [Release (box_mutex j)] s')"
      using False find j by (simp add: pub_start_def srv_log_traced box_update_def)
    then show thesis
      by (rule that(2)) (use o(2-4) j in \<open>simp_all add: kept_def\<close>)
  qed
qed

lemma alive_kept:
  assumes "srv_inv s" and "j < slots s"
  shows "box_alive j s = Inr (free_boxes s ! j = TAKEN, srv_traced boxes_read_trace s)"
  by (rule box_alive_eq [OF srv_invD(1) [OF assms(1)] assms(2)])

lemma locked_kept:
  assumes "srv_inv s" and "j < slots s" and "\<And>b. name (g b) = name b"
  obtains s' where "with_box_locked j g s = Inr s'" and "kept s s'" and "held s' = held s"
proof -
  note K = kept_box_with [OF assms(1,3), where j = j]
  show thesis
    by (rule that [OF with_box_locked_eq [OF srv_invD(1) [OF assms(1)] assms(2)]]) (use K in simp_all)
qed

lemma pipe_read_length:
  assumes "pipe_read p n = (r, bs, p')" and "0 < r" and "0 < n"
  shows "length bs \<le> n"
proof -
  obtain r0 bs0 p0 where rl: "read_loop p n = (r0, bs0, p0)"
    by (metis prod_cases3)
  then have "r0 = r" "bs0 = bs"
    using assms(1,2) by (auto simp: pipe_read_def split: if_splits)
  then show ?thesis
    using read_loop_result [OF rl assms(3)] assms(2) by auto
qed

lemma pub_message_kept:
  assumes s: "srv_inv s" and j: "j < slots s"
  obtains go_on pipe' s' where "pub_message j h pipe s = Inr (go_on, pipe', s')" and "kept s s'" and "held s' = held s"
proof -
  obtain r1 cbuf p1 where p1: "pipe_read pipe 1 = (r1, cbuf, p1)"
    by (cases "pipe_read pipe 1")
  obtain r2 m p2 where p2: "pipe_read p1 MSG_MAX_LEN = (r2, m, p2)"
    by (cases "pipe_read p1 MSG_MAX_LEN")
  let ?s = "srv_traced boxes_read_trace s"
  note alive = alive_kept [OF s j]
  show thesis
  proof (cases "0 < r1 \<and> int (le_val cbuf) = PROTOCOL_CODE_MESSAGE_RECEIVE \<and> free_boxes s ! j = TAKEN \<and> 0 < r2")
    case True
    have "length m < 2 ^ 63"
      using pipe_read_length [OF p2] msg_len True by simp
    then obtain w s1 where w: "srv_write h m ?s = Inr (w, s1)" "kept ?s s1" "held s1 = held ?s"
      using write_kept [of ?s m h] s by auto
    obtain s2 where l: "with_box_locked j (\<lambda>b. b\<lparr>box_size := size_add (box_size b) MSG_MAX_LEN\<rparr>) s1 = Inr s2" "kept s1 s2" "held s2 = held s1"
      by (rule locked_kept [OF keptD(1) [OF w(2)], of j "\<lambda>b. b\<lparr>box_size := size_add (box_size b) MSG_MAX_LEN\<rparr>"])
        (use keptD(2) [OF w(2)] j in simp_all)
    have "pub_message j h pipe s = (if size_of_ssize w \<noteq> MSG_MAX_LEN then Inr (False, p2, s1) else Inr (True, p2, s2))"
      using True alive w(1) l(1) p1 p2 by (simp add: pub_message_def)
    moreover have "kept s s1" "kept s s2" "held s1 = held s" "held s2 = held s"
      using w(2,3) l(2,3) by (simp_all add: kept_def)
    ultimately show thesis
      using that by (metis (full_types))
  next
    case False
    then have "pub_message j h pipe s = Inr (False, p1, s) \<or> pub_message j h pipe s = Inr (False, p1, ?s) \<or> pub_message j h pipe s = Inr (False, p2, ?s)"
      using alive p1 p2 by (auto simp: pub_message_def)
    then show thesis
      by (elim disjE) (erule that, simp_all add: kept_refl [OF s])+
  qed
qed

lemma pub_loop_kept:
  "srv_inv s \<Longrightarrow> j < slots s \<Longrightarrow> \<exists>pipe' s'. pub_loop j h pipe s = Inr (pipe', s') \<and> kept s s' \<and> held s' = held s"
proof (induction j h pipe s rule: pub_loop.induct)
  case (1 j h pipe s)
  obtain go_on pipe' s' where m: "pub_message j h pipe s = Inr (go_on, pipe', s')" "kept s s'" "held s' = held s"
    using pub_message_kept [OF 1(2,3)] .
  show ?case
  proof (cases go_on)
    case True
    then obtain pipe'' s'' where "pub_loop j h pipe' s' = Inr (pipe'', s'')" "kept s' s''" "held s'' = held s'"
      using 1(1) [OF m(1) refl refl True keptD(1) [OF m(2)]] keptD(2) [OF m(2)] 1(3) by auto
    then show ?thesis
      using m True kept_trans [OF m(2)] by (auto simp: pub_loop.simps [of j h pipe s])
  next
    case False
    then show ?thesis
      using m by (simp add: pub_loop.simps [of j h pipe s])
  qed
qed

lemma pub_end_kept:
  assumes s: "srv_inv s" and j: "j < slots s"
  obtains s' where "pub_end j (int h) s = Inr s'" and "kept s s'" and "held s' = held s - {h}"
proof -
  obtain s1 where l: "with_box_locked j (\<lambda>b. b\<lparr>n_publishers := u64_dec (n_publishers b)\<rparr>) s = Inr s1" "kept s s1" "held s1 = held s"
    by (rule locked_kept [OF s j, of "\<lambda>b. b\<lparr>n_publishers := u64_dec (n_publishers b)\<rparr>"]) simp_all
  obtain r s2 where c: "srv_close (int h) s1 = Inr (r, s2)" "kept s1 s2" "held s2 = held s1 - {h}"
    using close_kept [OF keptD(1) [OF l(2)], of "int h"] by auto
  show thesis
    by (rule that [of s2]) (use l c kept_trans in \<open>simp_all add: pub_end_def\<close>)
qed

lemma pub_register_kept:
  assumes s: "srv_inv s" and bn: "terminated (req_box_name req)" and room: "\<not> {..<max_open_files_count (fs_params (fs s))} \<subseteq> held s"
  obtains pipe s' where "workers_handle_pub_register env req s = ret (0, pipe, s')" and "kept s s'" and "held s' = held s"
proof (cases "session_opens env")
  case False
  then have "workers_handle_pub_register env req s = ret (0, session_pipe env, s)"
    by (simp add: workers_handle_pub_register_def)
  then show thesis
    using that kept_refl [OF s] by blast
next
  case True
  from s bn room show thesis
  proof (cases rule: pub_start_kept)
    case (1 s1)
    then show thesis
      using True by (intro that [of "session_pipe env" s1]) (simp_all add: workers_handle_pub_register_def)
  next
    case (2 j h s1)
    have j: "srv_inv s1" "j < slots s1"
      using keptD [OF 2(2)] 2(3) by simp_all
    obtain pipe s2 where L: "pub_loop j (int h) (session_pipe env) s1 = Inr (pipe, s2)" "kept s1 s2" "held s2 = held s1"
      using pub_loop_kept [OF j] by blast
    obtain s3 where E: "pub_end j (int h) s2 = Inr s3" "kept s2 s3" "held s3 = held s2 - {h}"
      using pub_end_kept [OF keptD(1) [OF L(2)], of j h] j(2) keptD(2) [OF L(2)] by auto
    have "kept s s3"
      using 2(2) L(2) E(2) kept_trans by blast
    moreover have "held s3 = held s"
      using 2(4,5) L(3) E(3) by simp
    ultimately show thesis
      using True 2(1) L(1) E(1) by (intro that [of pipe s3]) (simp_all add: workers_handle_pub_register_def)
  qed
qed

section \<open>Subscribers\<close>

lemma sub_start_kept:
  assumes s: "srv_inv s" and bn: "terminated (req_box_name req)" and room: "\<not> {..<max_open_files_count (fs_params (fs s))} \<subseteq> held s"
  obtains s' where "sub_start req s = ret (None, s')" and "kept s s'" and "held s' = held s" and "fs s' = traced boxes_read_trace (fs s)"
  | j h s' where "sub_start req s = ret (Some (j, int h), s')" and "kept s s'" and "j < slots s" and "h \<notin> held s" and "held s' = insert h (held s)"
proof (cases "slot_of s (cstr (req_box_name req))")
  case None
  then have "sub_start req s = ret (None, srv_traced boxes_read_trace s)"
    using box_find_eq [OF srv_invD(1) [OF s] bn] by (simp add: sub_start_def)
  then show thesis
    by (rule that(1)) (use s in \<open>simp_all add: kept_refl\<close>)
next
  case (Some j)
  define t where "t = boxes_read_trace @ [Acquire_wr (box_mutex j)]"
  define s1 where "s1 = box_with j (\<lambda>b. b\<lparr>n_subscribers := u64_inc (n_subscribers b)\<rparr>) (srv_traced t s)"
  note B = sub_start_found [OF s bn Some s1_def t_def]
  have K: "kept s s1" "held s1 = held s" "slot_of s1 = slot_of s"
    using B(2) box_with_inv(2) [where g = "\<lambda>b. b\<lparr>n_subscribers := u64_inc (n_subscribers b)\<rparr>" and j = j and s = "srv_traced t s"]
    by (simp_all add: kept_def held_def s1_def)
  obtain h s' where o: "srv_open (req_box_name req) 0 s1 = ret (int h, s')" "kept s1 s'" "h \<notin> held s" "held s' = insert h (held s)"
    using open_kept [OF B(2) bn, of j 0] K Some room keptD(2) [OF K(1)] by (metis flag_simps(4))
  have "sub_start req s = ret (Some (j, int h), srv_traced [Release (box_mutex j)] s')"
    unfolding B(1) o(1) by (simp add: srv_log_traced)
  then show thesis
    by (rule that(2)) (use o(2-4) K(1) found_slot [OF s Some] in \<open>simp_all add: kept_def\<close>)
qed

lemma sub_end_kept:
  assumes s: "srv_inv s" and j: "j < slots s"
  obtains s' where "sub_end j (int h) s = Inr s'" and "kept s s'" and "held s' = held s - {h}"
proof -
  obtain s1 where l: "with_box_locked j (\<lambda>b. b\<lparr>n_subscribers := u64_dec (n_subscribers b)\<rparr>) s = Inr s1" "kept s s1" "held s1 = held s"
    by (rule locked_kept [OF s j, of "\<lambda>b. b\<lparr>n_subscribers := u64_dec (n_subscribers b)\<rparr>"]) simp_all
  obtain r s2 where c: "srv_close (int h) s1 = Inr (r, s2)" "kept s1 s2" "held s2 = held s1 - {h}"
    using close_kept [OF keptD(1) [OF l(2)], of "int h"] by auto
  show thesis
    by (rule that [of s2]) (use l c kept_trans in \<open>simp_all add: sub_end_def\<close>)
qed

text \<open>One round of each of the two loops.\<close>

lemma sub_wait_step:
  assumes s: "srv_inv s" and j: "j < slots s"
  obtains (ends) s1 where "sub_loop None j (int h) pipe s = bindP (Some (sub_end j (int h) s1)) (\<lambda>s. ret (Returned 0, pipe, s))"
      and "kept s s1" and "held s1 = held s"
  | (sleeps) s1 where "sub_loop None j (int h) pipe s = ret (Sleeping j (int h), pipe, s1)" and "kept s s1" and "held s1 = held s"
  | (sends) m s1 where "sub_loop None j (int h) pipe s = sub_loop (Some m) j (int h) pipe s1" and "kept s s1" and "held s1 = held s"
      and "MSG_MAX_LEN \<le> length m" and "unread (int h) s1 < unread (int h) s"
proof -
  let ?s = "srv_traced [Acquire_wr (box_mutex j)] s" and ?u = "srv_traced (Release (box_mutex j) # boxes_read_trace)"
  obtain r buf s1 where R: "srv_read (int h) MSG_MAX_LEN ?s = Inr (r, buf, s1)" "kept ?s s1" "held s1 = held ?s"
      "boxes_table s1 = boxes_table ?s" "free_boxes s1 = free_boxes ?s" "unread (int h) s1 \<le> unread (int h) ?s"
      "size_of_ssize r = MSG_MAX_LEN \<Longrightarrow> MSG_MAX_LEN \<le> length buf \<and> unread (int h) s1 < unread (int h) ?s"
    by (rule read_kept [of ?s "int h"]) (use s in simp_all)
  have K: "kept s s1" "srv_inv s1" "j < slots s1" "j < length (free_boxes s)"
    using R(2) j table_okD(2) [OF srv_invD(1) [OF s]] by (simp_all add: kept_def)
  consider (free) "free_boxes s ! j \<noteq> TAKEN" | (short) "free_boxes s ! j = TAKEN" "size_of_ssize r \<noteq> MSG_MAX_LEN"
    | (full) "free_boxes s ! j = TAKEN" "size_of_ssize r = MSG_MAX_LEN"
    by blast
  then show thesis
  proof cases
    case free
    then have "sub_loop None j (int h) pipe s = bindP (Some (sub_end j (int h) (?u ?s))) (\<lambda>s. ret (Returned 0, pipe, s))"
      using s j K(4) alive_kept [of "srv_traced [Acquire_wr (box_mutex j), Release (box_mutex j)] s" j]
      by (simp add: sub_loop.simps [of None] srv_log_traced)
    then show thesis
      by (rule ends) (use s in \<open>simp_all add: kept_refl\<close>)
  next
    case short
    then have "sub_loop None j (int h) pipe s = ret (Sleeping j (int h), pipe, srv_traced [Release (box_mutex j)] s1)"
      using R(1) K(4) by (simp add: sub_loop.simps [of None] srv_log_traced)
    then show thesis
      by (rule sleeps) (use K(1) R(3) in simp_all)
  next
    case full
    then have "sub_loop None j (int h) pipe s = sub_loop (Some buf) j (int h) pipe (?u s1)"
      using R(1,5) K alive_kept [of "srv_traced [Release (box_mutex j)] s1" j]
      by (simp add: sub_loop.simps [of None] srv_log_traced)
    then show thesis
      by (rule sends) (use K(1) R(3) R(7) [OF full(2)] in simp_all)
  qed
qed

lemma sub_send_step:
  assumes s: "srv_inv s" and m: "MSG_MAX_LEN \<le> length m"
  obtains (ends) pipe' where "sub_loop (Some m) j (int h) pipe s = bindP (Some (sub_end j (int h) s)) (\<lambda>s. ret (Returned 0, pipe', s))"
  | (sends) m' pipe' s1 where "sub_loop (Some m) j (int h) pipe s = sub_loop (Some m') j (int h) pipe' s1" and "kept s s1" and "held s1 = held s"
      and "MSG_MAX_LEN \<le> length m'" and "unread (int h) s1 < unread (int h) s"
  | (waits) pipe' s1 where "sub_loop (Some m) j (int h) pipe s = sub_loop None j (int h) pipe' s1" and "kept s s1" and "held s1 = held s"
      and "unread (int h) s1 \<le> unread (int h) s"
proof -
  obtain written pipe' where w: "pipe_write pipe (message_out (take MSG_MAX_LEN m)) = (written, pipe')"
    by (cases "pipe_write pipe (message_out (take MSG_MAX_LEN m))")
  note pk = message_packet_eq [OF m]
  obtain r buf s1 where R: "srv_read (int h) MSG_MAX_LEN s = Inr (r, buf, s1)" "kept s s1" "held s1 = held s"
      "unread (int h) s1 \<le> unread (int h) s"
      "size_of_ssize r = MSG_MAX_LEN \<Longrightarrow> MSG_MAX_LEN \<le> length buf \<and> unread (int h) s1 < unread (int h) s"
    using read_kept [OF s, of "int h"] by metis
  consider (closed) "written \<le> 0" | (full) "0 < written" "size_of_ssize r = MSG_MAX_LEN" | (short) "0 < written" "size_of_ssize r \<noteq> MSG_MAX_LEN"
    by linarith
  then show thesis
  proof cases
    case closed
    with pk w show thesis
      by (intro ends [of pipe']) (simp add: sub_loop.simps [of "Some m"])
  next
    case full
    with pk w R show thesis
      by (intro sends [of buf pipe' s1]) (simp_all add: sub_loop.simps [of "Some m"])
  next
    case short
    with pk w R show thesis
      by (intro waits [of pipe' s1]) (simp_all add: sub_loop.simps [of "Some m"])
  qed
qed

text \<open>
  The loops come to rest: every full read leaves less to read, and after a short one there is nothing left.
\<close>

definition sub_rests :: "nat \<Rightarrow> nat \<Rightarrow> (outcome \<times> fifo \<times> server) res option \<Rightarrow> server \<Rightarrow> bool" where
  "sub_rests j h res s \<longleftrightarrow>
     (\<exists>out pipe s'. res = ret (out, pipe, s') \<and> kept s s' \<and>
        (out = Sleeping j (int h) \<and> held s' = held s \<or> out = Returned 0 \<and> held s' = held s - {h}))"

lemma sub_rests_end:
  assumes "srv_inv s1" and "j < slots s1" and "kept s s1" and "held s1 = held s"
  shows "sub_rests j h (bindP (Some (sub_end j (int h) s1)) (\<lambda>s. ret (Returned 0, pipe, s))) s"
proof -
  obtain s2 where "sub_end j (int h) s1 = Inr s2" "kept s1 s2" "held s2 = held s1 - {h}"
    using sub_end_kept [OF assms(1,2)] .
  then show ?thesis
    using assms(4) kept_trans [OF assms(3)] by (auto simp: sub_rests_def)
qed

lemma sub_rests_trans: "sub_rests j h res s1 \<Longrightarrow> kept s s1 \<Longrightarrow> held s1 = held s \<Longrightarrow> sub_rests j h res s"
  by (auto simp: sub_rests_def kept_def)

lemma sub_loop_rests:
  "srv_inv s \<Longrightarrow> j < slots s \<Longrightarrow> (\<And>m. pending = Some m \<Longrightarrow> MSG_MAX_LEN \<le> length m) \<Longrightarrow>
    sub_rests j h (sub_loop pending j (int h) pipe s) s"
proof (induction "2 * unread (int h) s + (if pending = None then 0 else 1)" arbitrary: pending pipe s rule: less_induct)
  case less
  note s = less.prems(1) and j = less.prems(2)
  have go_on: "sub_rests j h (sub_loop pending1 j (int h) pipe1 s1) s" if K: "kept s s1" and "held s1 = held s"
      "2 * unread (int h) s1 + (if pending1 = None then 0 else 1) < 2 * unread (int h) s + (if pending = None then 0 else 1)"
      "\<And>m. pending1 = Some m \<Longrightarrow> MSG_MAX_LEN \<le> length m" for pending1 pipe1 s1
    by (rule sub_rests_trans [OF less.hyps [OF that(3) keptD(1) [OF K]] K that(2)]) (use j keptD(2) [OF K] that(4) in simp_all)
  have finish: "sub_rests j h (bindP (Some (sub_end j (int h) s1)) (\<lambda>s. ret (Returned 0, pipe1, s))) s"
    if K: "kept s s1" "held s1 = held s" for s1 pipe1
    by (rule sub_rests_end [OF keptD(1) [OF K(1)] _ K]) (use j keptD(2) [OF K(1)] in simp)
  show ?case
  proof (cases pending)
    case None
    from s j show ?thesis
      unfolding None
    proof (cases rule: sub_wait_step [of s j h pipe])
      case (ends s1)
      then show "sub_rests j h (sub_loop None j (int h) pipe s) s"
        using finish by simp
    next
      case (sleeps s1)
      then show "sub_rests j h (sub_loop None j (int h) pipe s) s"
        by (simp add: sub_rests_def)
    next
      case (sends m s1)
      then show "sub_rests j h (sub_loop None j (int h) pipe s) s"
        unfolding sends(1) by (intro go_on) (use None in auto)
    qed
  next
    case (Some m)
    have "MSG_MAX_LEN \<le> length m"
      using less.prems(3) Some by simp
    with s show ?thesis
      unfolding Some
    proof (cases rule: sub_send_step [of s m j h pipe])
      case (ends pipe')
      then show "sub_rests j h (sub_loop (Some m) j (int h) pipe s) s"
        using finish kept_refl [OF s] by simp
    next
      case (sends m' pipe' s1)
      then show "sub_rests j h (sub_loop (Some m) j (int h) pipe s) s"
        unfolding sends(1) by (intro go_on) (use Some in auto)
    next
      case (waits pipe' s1)
      then show "sub_rests j h (sub_loop (Some m) j (int h) pipe s) s"
        unfolding waits(1) by (intro go_on) (use Some in auto)
    qed
  qed
qed

lemma sub_register_kept:
  assumes s: "srv_inv s" and bn: "terminated (req_box_name req)" and room: "\<not> {..<max_open_files_count (fs_params (fs s))} \<subseteq> held s"
  obtains (returns) pipe s' r where "workers_handle_sub_register env req s = ret (Returned r, pipe, s')" and "kept s s'" and "held s' = held s"
  | (sleeps) j h pipe s' where "workers_handle_sub_register env req s = ret (Sleeping j (int h), pipe, s')" and "kept s s'" and "j < slots s"
      and "h \<notin> held s" and "held s' = insert h (held s)"
proof (cases "session_opens env")
  case False
  then have "workers_handle_sub_register env req s = ret (Returned 0, session_pipe env, s)"
    by (simp add: workers_handle_sub_register_def)
  then show thesis
    using returns kept_refl [OF s] by blast
next
  case True
  from s bn room show thesis
  proof (cases rule: sub_start_kept)
    case (1 s1)
    then show thesis
      using True by (intro returns [of 0 "session_pipe env" s1]) (simp_all add: workers_handle_sub_register_def)
  next
    case (2 j h s1)
    have "sub_rests j h (sub_loop None j (int h) (session_pipe env) s1) s1"
      by (rule sub_loop_rests) (use keptD [OF 2(2)] 2(3) in simp_all)
    then obtain out pipe s' where R: "sub_loop None j (int h) (session_pipe env) s1 = ret (out, pipe, s')" "kept s1 s'"
        "out = Sleeping j (int h) \<and> held s' = held s1 \<or> out = Returned 0 \<and> held s' = held s1 - {h}"
      by (auto simp: sub_rests_def)
    have H: "workers_handle_sub_register env req s = ret (out, pipe, s')"
      using True 2(1) R(1) by (simp add: workers_handle_sub_register_def packet_ensure_len_limit_def MSG_MAX_LEN_def PIPE_BUFFER_MAX_LEN_def)
    have K: "kept s s'"
      using kept_trans [OF 2(2) R(2)] .
    from R(3) show thesis
    proof (elim disjE conjE)
      assume "out = Sleeping j (int h)" "held s' = held s1"
      then show thesis
        using H K 2(3-5) by (intro sleeps) simp_all
    next
      assume "out = Returned 0" "held s' = held s1 - {h}"
      then show thesis
        using H K 2(4,5) by (intro returns [of 0 pipe s']) simp_all
    qed
  qed
qed

section \<open>Managers\<close>

lemma listing_loop_traced:
  "table_ok s \<Longrightarrow> \<exists>b pipe' t. listing_loop i n l pipe s = Inr (b, pipe', srv_traced t s)"
proof (induction "slots s - i" arbitrary: i n l pipe s)
  case 0
  then show ?case
    by (intro exI [of _ True] exI [of _ pipe] exI [of _ "[]"]) (simp add: listing_loop.simps [of i] slots_simp srv_traced_def)
next
  case (Suc k)
  note T = table_okD [OF Suc.prems]
  have i: "i < slots s" and k: "k = slots s - Suc i"
    using Suc.hyps(2) by simp_all
  consider (stop) "n_boxes s < n" | (skip) "n \<le> n_boxes s" "0 < n_boxes s \<and> free_boxes s ! i = FREE"
    | (send) "n \<le> n_boxes s" "\<not> (0 < n_boxes s \<and> free_boxes s ! i = FREE)"
    by linarith
  then show ?case
  proof cases
    case stop
    then show ?thesis
      by (intro exI [of _ True] exI [of _ pipe] exI [of _ "[]"]) (simp add: listing_loop.simps [of i] srv_traced_def)
  next
    case skip
    then show ?thesis
      using Suc.hyps(1) [OF k Suc.prems] i T by (simp add: listing_loop.simps [of i] slots_simp)
  next
    case send
    let ?l = "l \<or> n_boxes s = 0 \<or> n + 1 = n_boxes s" and ?s = "srv_traced (box_trace i) s"
    have "0 \<le> n_boxes s"
      using T(7) by simp
    then obtain packet where p: "listing_packet ?l (0 < n_boxes s) (boxes_table s ! i) = Inr packet"
      using listing_packet_box [OF T(4) [OF i]] listing_packet_none by (cases "n_boxes s = 0") auto
    obtain w pipe1 where w: "pipe_write pipe packet = (w, pipe1)"
      by (cases "pipe_write pipe packet")
    have step: "listing_loop i n l pipe s = (if w \<le> 0 then Inr (False, pipe1, ?s) else listing_loop (Suc i) (n + 1) ?l pipe1 ?s)"
      using send i T(1,2) p w \<open>0 \<le> n_boxes s\<close>
      by (cases "n_boxes s = 0") (auto simp: listing_loop.simps [of i] slots_simp srv_log_traced)
    obtain b pipe2 t where "listing_loop (Suc i) (n + 1) ?l pipe1 ?s = Inr (b, pipe2, srv_traced t ?s)"
      using Suc.hyps(1) [of ?s "Suc i" "n + 1" ?l pipe1] Suc.prems k by auto
    then show ?thesis
      unfolding step by (cases "w \<le> 0") auto
  qed
qed

lemma listing_kept:
  assumes "srv_inv s"
  obtains r pipe s' where "workers_handle_manager_listing env req s = ret (r, pipe, s')" and "kept s s'" and "held s' = held s"
proof (cases "session_opens env")
  case True
  let ?s = "srv_traced [Acquire_rd free_boxes_lock] s"
  have "table_ok ?s"
    using srv_invD(1) [OF assms] by simp
  then obtain b pipe t where "listing_loop 0 0 False (session_pipe env) ?s = Inr (b, pipe, srv_traced t ?s)"
    using listing_loop_traced by blast
  then show thesis
    using True kept_refl [OF assms]
    by (intro that [of "if b then 0 else -1" pipe "srv_traced (Acquire_rd free_boxes_lock # t @ [Release free_boxes_lock]) s"])
      (simp_all add: workers_handle_manager_listing_def packet_ensure_len_limit_def listing_len_def protocol_sizes srv_log_traced)
next
  case False
  then show thesis
    using kept_refl [OF assms]
    by (intro that [of "-1" "session_pipe env" s]) (simp_all add: workers_handle_manager_listing_def packet_ensure_len_limit_def listing_len_def protocol_sizes)
qed

lemma create_kept:
  assumes "srv_inv s" and "terminated (req_box_name req)" and "length (cstr (req_box_name req)) < BOX_NAME_MAX_LEN"
    and "\<not> {..<max_open_files_count (fs_params (fs s))} \<subseteq> held s"
  obtains r pipe s' where "workers_handle_manager_create env req s = ret (r, pipe, s')" and "kept s s'" and "held s' = held s"
proof -
  have "\<not> handles_full (fs_params (fs s)) (store s)"
    using assms(4) by (simp add: room_iff held_def)
  from create_request [OF assms(1-3) this, of env] that show thesis
    unfolding kept_def held_def by metis
qed

lemma remove_kept:
  assumes "srv_inv s" and "terminated (req_box_name req)"
  obtains r pipe s' where "workers_handle_manager_remove env req s = ret (r, pipe, s')" and "kept s s'" and "held s' = held s"
  using remove_request [OF assms, of env] that unfolding kept_def held_def by metis

section \<open>A worker\<close>

text \<open>A request as the listener queues it.\<close>

definition request_ok :: "request_t \<Rightarrow> bool" where
  "request_ok req \<longleftrightarrow> req_code req \<noteq> PROTOCOL_CODE_LIST_REQUEST \<longrightarrow>
     terminated (req_box_name req) \<and> length (cstr (req_box_name req)) < BOX_NAME_MAX_LEN"

lemma queue_apart [simp]:
  "slot_of (s\<lparr>requests_queue := q\<rparr>) = slot_of s" "table_ok (s\<lparr>requests_queue := q\<rparr>) = table_ok s"
  "srv_inv (s\<lparr>requests_queue := q\<rparr>) = srv_inv s" "boxes (s\<lparr>requests_queue := q\<rparr>) = boxes s"
  "creatable nm (s\<lparr>requests_queue := q\<rparr>) = creatable nm s"
proof -
  show slot: "slot_of (s\<lparr>requests_queue := q\<rparr>) = slot_of s"
    by (rule slot_of_cong) simp_all
  show table: "table_ok (s\<lparr>requests_queue := q\<rparr>) = table_ok s"
    by (simp add: table_ok_def)
  show "srv_inv (s\<lparr>requests_queue := q\<rparr>) = srv_inv s" "boxes (s\<lparr>requests_queue := q\<rparr>) = boxes s"
      "creatable nm (s\<lparr>requests_queue := q\<rparr>) = creatable nm s"
    by (simp_all add: srv_inv_def boxes_def creatable_def slot table fun_eq_iff)
qed

lemma pcq_take_head:
  assumes "pcq_wf q" and "ring q = req # reqs"
  obtains q' where "pcq_take q = (req, q')" and "pcq_wf q'" and "ring q' = reqs" and "\<not> pcq_empty q" and "pcq_buffer q \<noteq> None"
proof -
  have ne: "\<not> pcq_empty q" "pcq_buffer q \<noteq> None"
    using assms ring.void_iff [of q] by (auto simp: pcq_wf_def)
  obtain x q' where t: "pcq_take q = (x, q')"
    by (cases "pcq_take q")
  note ring.content_take [OF assms(1) ne(1) t] ring.wf_take [OF assms(1) ne(1) t]
  with ne t assms(2) that show thesis
    by auto
qed

lemma reception_kept:
  assumes s: "srv_inv s" and q: "requests_queue s = Some q" "pcq_wf q" "ring q = req # reqs" and req: "request_ok req"
    and room: "\<not> {..<max_open_files_count (fs_params (fs s))} \<subseteq> held s"
  obtains (returns) q' r pipe s' where "workers_reception clients s = ret (Some (Returned r, pipe, s'))"
      and "pcq_wf q'" and "ring q' = reqs" and "kept (s\<lparr>requests_queue := Some q'\<rparr>) s'" and "held s' = held s"
  | (sleeps) q' j h pipe s' where "workers_reception clients s = ret (Some (Sleeping j (int h), pipe, s'))"
      and "pcq_wf q'" and "ring q' = reqs" and "kept (s\<lparr>requests_queue := Some q'\<rparr>) s'"
      and "j < slots s" and "h \<notin> held s" and "held s' = insert h (held s)"
proof -
  obtain q' where t: "pcq_take q = (req, q')" "pcq_wf q'" "ring q' = reqs" "\<not> pcq_empty q" "pcq_buffer q \<noteq> None"
    using pcq_take_head [OF q(2,3)] .
  let ?s = "s\<lparr>requests_queue := Some q'\<rparr>" and ?env = "clients (client_named_pipe_path req)"
  have s': "srv_inv ?s" "held ?s = held s" "fs_params (fs ?s) = fs_params (fs s)"
    using s by (simp_all add: held_def)
  have simple: thesis if "workers_reception clients s = bindP m (\<lambda>(r, pipe, s). ret (Some (Returned r, pipe, s)))"
      "m = ret (r, pipe, s1)" "kept ?s s1" "held s1 = held ?s" for m r pipe s1
    by (rule returns [OF _ t(2,3) that(3)]) (use that s'(2) in simp_all)
  note disp = workers_reception_def q(1) t(1,4,5)
  consider (pub) "req_code req = PROTOCOL_CODE_PUB_REGISTER" | (sub) "req_code req = PROTOCOL_CODE_SUB_REGISTER"
    | (create) "req_code req = PROTOCOL_CODE_CREATE_REQUEST" | (remove) "req_code req = PROTOCOL_CODE_REMOVE_REQUEST"
    | (list) "req_code req = PROTOCOL_CODE_LIST_REQUEST"
    | (other) "req_code req \<notin> {PROTOCOL_CODE_PUB_REGISTER, PROTOCOL_CODE_SUB_REGISTER, PROTOCOL_CODE_CREATE_REQUEST, PROTOCOL_CODE_REMOVE_REQUEST, PROTOCOL_CODE_LIST_REQUEST}"
    by auto
  then show thesis
  proof cases
    case pub
    then have "terminated (req_box_name req)"
      using req by (simp add: request_ok_def protocol_codes)
    then obtain pipe s1 where H: "workers_handle_pub_register ?env req ?s = ret (0, pipe, s1)" "kept ?s s1" "held s1 = held ?s"
      using pub_register_kept [OF s'(1), of req ?env] room s' by metis
    show thesis
      by (rule simple [OF _ H]) (use pub in \<open>simp add: disp protocol_codes\<close>)
  next
    case sub
    then have bn: "terminated (req_box_name req)"
      using req by (simp add: request_ok_def protocol_codes)
    have D: "workers_reception clients s = bindP (workers_handle_sub_register ?env req ?s) (\<lambda>x. ret (Some x))"
      using sub by (simp add: disp protocol_codes)
    from room have "\<not> {..<max_open_files_count (fs_params (fs ?s))} \<subseteq> held ?s"
      by (simp add: s'(2))
    with s'(1) bn show thesis
    proof (cases rule: sub_register_kept [of ?s req ?env])
      case (returns pipe s1 r)
      show thesis
        by (rule that(1) [OF _ t(2,3) returns(2)]) (use D returns s'(2) in simp_all)
    next
      case (sleeps j h pipe s1)
      show thesis
        by (rule that(2) [OF _ t(2,3) sleeps(2)]) (use D sleeps s'(2) in simp_all)
    qed
  next
    case create
    then have "terminated (req_box_name req)" "length (cstr (req_box_name req)) < BOX_NAME_MAX_LEN"
      using req by (simp_all add: request_ok_def protocol_codes)
    then obtain r pipe s1 where H: "workers_handle_manager_create ?env req ?s = ret (r, pipe, s1)" "kept ?s s1" "held s1 = held ?s"
      using create_kept [OF s'(1), of req ?env] room s' by metis
    show thesis
      by (rule simple [OF _ H]) (use create in \<open>simp add: disp protocol_codes\<close>)
  next
    case remove
    then have "terminated (req_box_name req)"
      using req by (simp add: request_ok_def protocol_codes)
    then obtain r pipe s1 where H: "workers_handle_manager_remove ?env req ?s = ret (r, pipe, s1)" "kept ?s s1" "held s1 = held ?s"
      using remove_kept [OF s'(1), of req ?env] by metis
    show thesis
      by (rule simple [OF _ H]) (use remove in \<open>simp add: disp protocol_codes\<close>)
  next
    case list
    obtain r pipe s1 where H: "workers_handle_manager_listing ?env req ?s = ret (r, pipe, s1)" "kept ?s s1" "held s1 = held ?s"
      using listing_kept [OF s'(1), of ?env req] .
    show thesis
      by (rule simple [OF _ H]) (use list in \<open>simp add: disp protocol_codes\<close>)
  next
    case other
    then show thesis
      by (intro simple [OF _ refl kept_refl [OF s'(1)] refl, of 0 "session_pipe ?env"]) (simp add: disp)
  qed
qed

end
