(* ===== verification/Manager_Program.thy ===== *)
theory Manager_Program
  imports Listing_Client Server_Frame
begin

text \<open>
  A command of the manager from its arguments to its output: the request through the register pipe into the
  queue of the server, a worker that takes it out and answers, and what the manager prints.
\<close>

declare abs_fs_select [simp del]

section \<open>What the manager prints\<close>

definition answer_line :: "int \<Rightarrow> string \<Rightarrow> string" where
  "answer_line rc msg = (if rc = 0 then ''OK'' else ''ERROR '' @ msg) @ [newline]"

lemma manager_prints_answer:
  assumes "register_ready (register env) out" and "session_opened env" and "on_pipe (session env) (answer_bytes c rc msg)"
    and "c = PROTOCOL_CODE_CREATE_ANSWER \<or> c = PROTOCOL_CODE_REMOVE_ANSWER" and "- (2 ^ 31) \<le> rc" and "rc < 2 ^ 31"
    and "is_cstring msg" and "length msg < MSG_MAX_LEN" and "length sp = CLIENT_NAMED_PIPE_MAX_LEN" and "length b \<le> BOX_NAME_MAX_LEN"
  obtains p where "manager_handle_box_management env code sp (Some b) = Inr (0, answer_line rc msg, p)"
    and "on_pipe p (out @ request_bytes code sp (Some b))"
proof -
  let ?pad = "msg @ replicate (MSG_MAX_LEN - length msg) NUL"
  obtain p where p: "client_request_connection (register env) code sp (Some b) = Inr (0, p)" "on_pipe p (out @ request_bytes code sp (Some b))"
    by (rule client_request_eq [OF assms(1,9), of "Some b" code]) (use assms(10) in simp_all)
  have "on_pipe (session env) (take 1 (int32_bytes c) @ int32_bytes rc @ ?pad)"
    using assms(3) by (simp add: answer_bytes_def)
  then obtain p1 where p1: "pipe_read (session env) 1 = (1, take 1 (int32_bytes c), p1)" "on_pipe p1 (int32_bytes rc @ ?pad)"
    using pipe_read_field [of "session env" "take 1 (int32_bytes c)"] by auto
  then obtain p2 where p2: "pipe_read p1 4 = (4, int32_bytes rc, p2)" "on_pipe p2 (?pad @ [])"
    using pipe_read_field [of p1 "int32_bytes rc"] by auto
  moreover have len: "length ?pad = MSG_MAX_LEN" "length ?pad < 2 ^ 64"
    using assms(8) by (simp_all add: MSG_MAX_LEN_def)
  ultimately obtain p3 where p3: "pipe_read p2 MSG_MAX_LEN = (int MSG_MAX_LEN, ?pad, p3)"
    using pipe_read_field [OF p2(2) len(2)] by (metis len(1))
  have c: "int (le_val (take 1 (int32_bytes c))) = c"
    by (rule code_byte) (use assms(4) in \<open>auto simp: protocol_codes\<close>)
  have "cstr_at ?pad 0 = Inr msg"
    using assms(7,8) cstr_padded [of msg MSG_MAX_LEN] by (simp add: cstr_at_def terminated_def)
  then have "manager_handle_box_management env code sp (Some b) = Inr (0, answer_line rc msg, p)"
    using p(1) assms(2,4-6) p1(1) p2(1) p3 c by (auto simp: manager_handle_box_management_def answer_line_def MSG_MAX_LEN_def)
  with p(2) that show thesis by blast
qed

lemma session_name_eq:
  assumes "is_cstring sess" and "length sess < CLIENT_NAMED_PIPE_MAX_LEN"
  obtains sp where "session_name sess = Inr sp" and "length sp = CLIENT_NAMED_PIPE_MAX_LEN" and "terminated sp" and "cstr sp = sess"
proof -
  have "terminated (sess @ [NUL])" "cstr (sess @ [NUL]) = sess"
    using assms(1) by (simp_all add: terminated_def)
  then show thesis
    using that [of "patch (replicate CLIENT_NAMED_PIPE_MAX_LEN NUL) 0 (sess @ [NUL])"] assms cstr_patch_start(1) [of sess] cstr_patch_start(2)
      strcpy_into_eq [of "sess @ [NUL]" 0 "replicate CLIENT_NAMED_PIPE_MAX_LEN NUL"]
    by (simp add: session_name_def)
qed

lemma command_received:
  assumes "on_pipe p (request_bytes c sp (Some b))" and "is_request c" and "c \<noteq> PROTOCOL_CODE_LIST_REQUEST"
    and "length sp = CLIENT_NAMED_PIPE_MAX_LEN" and "terminated sp" and "is_cstring b" and "length b \<le> BOX_NAME_MAX_LEN - 2"
    and "requests_queue s = Some q" and "pcq_wf q" and "ring q = []" and "0 < pcq_capacity q"
  obtains p' q' req where "listen (Some g) p s = ret (At_end_of_pipe, p', s\<lparr>requests_queue := Some q'\<rparr>)" and "pcq_wf q'"
    and "ring q' = [req]" and "req_code req = c" and "terminated (client_named_pipe_path req)" and "cstr (client_named_pipe_path req) = cstr sp"
    and "terminated (req_box_name req)" and "cstr (req_box_name req) = CHR ''/'' # b"
proof -
  have "on_pipe p (concat (map bytes_of [(c, sp, Some b)]))" "list_all well_formed [(c, sp, Some b)]"
      "length (ring q) + length [(c, sp, Some b)] \<le> pcq_capacity q"
    using assms by simp_all
  from listen_eq [OF this(1,2) assms(8,9) this(3), of g] obtain p' q' req where
      "listen (Some g) p s = ret (At_end_of_pipe, p', s\<lparr>requests_queue := Some q'\<rparr>)" "pcq_wf q'" "ring q' = [req]"
      "received (c, sp, Some b) req"
    using assms(10) by (auto simp: list_all2_Cons1)
  with that show thesis by simp
qed

text \<open>
  The part that all commands on a box share: \<open>c\<close> is the code of the request, \<open>bs\<close> the answer that the server is
  going to give.
\<close>

lemma command_answered:
  assumes queue: "requests_queue s = Some q" "pcq_wf q" "ring q = []" "0 < pcq_capacity q"
    and names: "is_cstring b" "length b \<le> BOX_NAME_MAX_LEN - 2" "is_cstring sess" "length sess < CLIENT_NAMED_PIPE_MAX_LEN"
    and env: "register_ready (register env) []" "session_opened env" "session env = answered senv (answer_bytes ac rc msg)"
    and senv: "session_opens senv" "on_pipe (session_pipe senv) []"
    and c: "is_request c" "c \<noteq> PROTOCOL_CODE_LIST_REQUEST" "ac = PROTOCOL_CODE_CREATE_ANSWER \<or> ac = PROTOCOL_CODE_REMOVE_ANSWER"
      "- (2 ^ 31) \<le> rc" "rc < 2 ^ 31" "is_cstring msg" "length msg < MSG_MAX_LEN"
  obtains sp reg reg' q' req where "session_name sess = Inr sp"
    and "manager_handle_box_management env c sp (Some b) = Inr (0, answer_line rc msg, reg)"
    and "listen (Some g) reg s = ret (At_end_of_pipe, reg', s\<lparr>requests_queue := Some q'\<rparr>)" and "pcq_wf q'" and "ring q' = [req]"
    and "req_code req = c" and "terminated (client_named_pipe_path req)" and "cstr (client_named_pipe_path req) = sess"
    and "terminated (req_box_name req)" and "cstr (req_box_name req) = CHR ''/'' # b"
proof -
  obtain sp where sp: "session_name sess = Inr sp" "length sp = CLIENT_NAMED_PIPE_MAX_LEN" "terminated sp" "cstr sp = sess"
    using session_name_eq [OF names(3,4)] .
  have "on_pipe (session env) (answer_bytes ac rc msg)"
    using answered_quiet [OF senv, of "answer_bytes ac rc msg"] c(7) by (simp add: env(3) answer_len_def MSG_MAX_LEN_def)
  moreover have "length b \<le> BOX_NAME_MAX_LEN"
    using names(2) by simp
  ultimately obtain reg where reg: "manager_handle_box_management env c sp (Some b) = Inr (0, answer_line rc msg, reg)"
      "on_pipe reg ([] @ request_bytes c sp (Some b))"
    using manager_prints_answer [OF env(1,2) _ c(3-7) sp(2), of b c] by blast
  from reg(2) have "on_pipe reg (request_bytes c sp (Some b))"
    by simp
  from command_received [OF this c(1,2) sp(2,3) names(1,2) queue, of g] that sp reg(1) show thesis
    by metis
qed

section \<open>Properties\<close>

text \<open>
  C24. The command \<^verbatim>\<open>manager <register> <session> create <box>\<close>, end to end: the program writes its request, the
  listener of the server puts it into the queue, a worker takes it and answers, and the program prints
  \<^verbatim>\<open>OK\<close> when the server now has a new empty box of that name, and the error message when it has not;
  the other boxes are as before.
\<close>

theorem manager_create_command:
  assumes "srv_inv s" and "requests_queue s = Some q" and "pcq_wf q" and "ring q = []" and "0 < pcq_capacity q"
    and "\<not> handles_full (fs_params (fs s)) (store s)"
    and "is_cstring b" and "length b \<le> BOX_NAME_MAX_LEN - 2" and "is_cstring sess" and "length sess < CLIENT_NAMED_PIPE_MAX_LEN"
    and "register_ready (register env) []" and "session_made env" and "session_opened env"
    and "\<And>path. terminated path \<Longrightarrow> cstr path = sess \<Longrightarrow> clients path = senv" and "session_opens senv" and "on_pipe (session_pipe senv) []"
  shows "\<exists>reg reg' s1 pipe s2. manager_main garbage (env\<lparr>session := pipe\<rparr>) [prog, regname, sess, ''create'', b] =
      Inr (0, if creatable (CHR ''/'' # b) s then ''OK'' @ [newline] else ''ERROR Couldn't create box'' @ [newline], reg) \<and>
    listen (Some g) reg s = ret (At_end_of_pipe, reg', s1) \<and>
    workers_reception clients s1 = ret (Some (Returned 0, pipe, s2)) \<and> srv_inv s2 \<and>
    boxes s2 = (if creatable (CHR ''/'' # b) s then (boxes s)(CHR ''/'' # b \<mapsto> []) else boxes s)"
proof -
  let ?nm = "CHR ''/'' # b" and ?c = PROTOCOL_CODE_CREATE_REQUEST
  define rc where "rc = (if creatable ?nm s then 0 else -1 :: int)"
  define msg where "msg = (if creatable ?nm s then [] else ''Couldn't create box'')"
  define pipe where "pipe = answered senv (answer_bytes PROTOCOL_CODE_CREATE_ANSWER rc msg)"
  have ans: "- (2 ^ 31) \<le> rc" "rc < 2 ^ 31" "is_cstring msg" "length msg < MSG_MAX_LEN" "is_request ?c" "?c \<noteq> PROTOCOL_CODE_LIST_REQUEST"
      "register_ready (register (env\<lparr>session := pipe\<rparr>)) []" "session_opened (env\<lparr>session := pipe\<rparr>)"
      "session (env\<lparr>session := pipe\<rparr>) = answered senv (answer_bytes PROTOCOL_CODE_CREATE_ANSWER rc msg)"
    using assms(11,13) by (simp_all add: rc_def msg_def is_cstring_def MSG_MAX_LEN_def is_request_def protocol_codes pipe_def)
  obtain sp reg reg' q' req where L: "session_name sess = Inr sp"
      "manager_handle_box_management (env\<lparr>session := pipe\<rparr>) ?c sp (Some b) = Inr (0, answer_line rc msg, reg)"
      "listen (Some g) reg s = ret (At_end_of_pipe, reg', s\<lparr>requests_queue := Some q'\<rparr>)" "pcq_wf q'" "ring q' = [req]"
      "req_code req = ?c" "terminated (client_named_pipe_path req)" "cstr (client_named_pipe_path req) = sess"
      "terminated (req_box_name req)" "cstr (req_box_name req) = ?nm"
    using command_answered [OF assms(2-5,7-10) ans(7-9) assms(15,16) ans(5,6) _ ans(1-4)] by blast
  have short: "length (cstr (req_box_name req)) < BOX_NAME_MAX_LEN"
    using assms(8) L(10) by (simp add: BOX_NAME_MAX_LEN_def)
  obtain q'' where Q: "pcq_take q' = (req, q'')" "pcq_wf q''" "ring q'' = []" "\<not> pcq_empty q'" "pcq_buffer q' \<noteq> None"
    using pcq_take_head [OF L(4,5)] by metis
  obtain s2 where S: "workers_handle_manager_create senv req (s\<lparr>requests_queue := Some q''\<rparr>) = ret (0, pipe, s2)"
      "srv_inv s2" "boxes s2 = (if creatable ?nm s then (boxes s)(?nm \<mapsto> []) else boxes s)"
    by (rule create_request [of "s\<lparr>requests_queue := Some q''\<rparr>" req senv])
      (use assms(1,6) L(9,10) short in \<open>auto simp: pipe_def rc_def msg_def split: if_splits\<close>)
  have "workers_reception clients (s\<lparr>requests_queue := Some q'\<rparr>) = ret (Some (Returned 0, pipe, s2))"
    using Q L(6) S(1) assms(14) [OF L(7,8)] by (simp add: workers_reception_def protocol_codes)
  moreover have "manager_main garbage (env\<lparr>session := pipe\<rparr>) [prog, regname, sess, ''create'', b] = Inr (0, answer_line rc msg, reg)"
    using L(1,2) assms(12) by (simp add: manager_main_def MANAGER_CREATE_def arg_def)
  ultimately show ?thesis
    using L(3) S(2,3) by (intro exI [of _ reg] exI [of _ reg'] exI [of _ "s\<lparr>requests_queue := Some q'\<rparr>"] exI [of _ pipe] exI [of _ s2])
      (simp add: answer_line_def rc_def msg_def)
qed

lemma demo_server_queue:
  obtains q where "requests_queue demo_server = Some q" and "pcq_wf q" and "ring q = []" and "0 < pcq_capacity q"
proof -
  obtain f q where B: "mbroker_init demo_boot 2 off_server = Inr (0, off_server\<lparr>fs := f, requests_queue := Some q,
        boxes_table := map (the (boxes_malloc demo_boot)) [0..<64], free_boxes := replicate 64 FREE\<rparr>)"
      "pcq_create (buffer_malloc demo_boot) (queue_malloc demo_boot) 2 = (0, Some q)"
    by (rule mbroker_init_eq [OF demo_boot_ok, of 2]) simp_all
  have "pcq_wf q \<and> ring q = [] \<and> pcq_capacity q = 2"
    using B(2) pcq_create_wf [of 2] unfolding demo_boot_def boot_env.simps by (metis option.inject prod.inject zero_less_numeral)
  with B(1) show thesis
    by (intro that [of q]) (simp_all add: demo_server_def state_of_def)
qed

lemma demo_command:
  "is_cstring ''news''" "length ''news'' \<le> BOX_NAME_MAX_LEN - 2" "is_cstring ''/tmp/s''" "length ''/tmp/s'' < CLIENT_NAMED_PIPE_MAX_LEN"
  "register_ready (register demo_client) []" "session_made demo_client" "session_opened demo_client"
  "session_opens demo_session" "on_pipe (session_pipe demo_session) []"
  using demo_register_ready by (simp_all add: is_cstring_def protocol_sizes demo_client_def demo_session_def on_pipe_def quiet_def)

theorem manager_create_command_witness:
  "\<exists>reg reg' s1 pipe s2. manager_main (\<lambda>_. \<lparr>name = [], box_size = 0, n_publishers = 0, n_subscribers = 0\<rparr>) (demo_client\<lparr>session := pipe\<rparr>) [''manager'', ''/tmp/r'', ''/tmp/s'', ''create'', ''news''] =
      Inr (0, ''OK'' @ [newline], reg) \<and>
    listen (Some (\<lambda>_. NUL)) reg demo_server = ret (At_end_of_pipe, reg', s1) \<and>
    workers_reception (\<lambda>_. demo_session) s1 = ret (Some (Returned 0, pipe, s2)) \<and> boxes s2 = [''/news'' \<mapsto> []]"
proof -
  obtain q where q: "requests_queue demo_server = Some q" "pcq_wf q" "ring q = []" "0 < pcq_capacity q"
    by (rule demo_server_queue)
  from manager_create_command [OF demo_server_ok(1) q demo_creatable(2) demo_command(1-7) _ demo_command(8,9), of "\<lambda>_. demo_session"] demo_creatable(1) demo_server_ok(2)
  show ?thesis
    by simp blast
qed

text \<open>
  C25. The command \<^verbatim>\<open>manager <register> <session> remove <box>\<close>, end to end: the program writes its request, the
  listener of the server puts it into the queue, a worker takes it and answers, and the program prints
  \<^verbatim>\<open>OK\<close> when there was such a box, and the error message when there was none. In either case there is none
  afterwards, and the other boxes are as before.
\<close>

theorem manager_remove_command:
  assumes "srv_inv s" and "requests_queue s = Some q" and "pcq_wf q" and "ring q = []" and "0 < pcq_capacity q"
    and "is_cstring b" and "length b \<le> BOX_NAME_MAX_LEN - 2" and "is_cstring sess" and "length sess < CLIENT_NAMED_PIPE_MAX_LEN"
    and "register_ready (register env) []" and "session_made env" and "session_opened env"
    and "\<And>path. terminated path \<Longrightarrow> cstr path = sess \<Longrightarrow> clients path = senv" and "session_opens senv" and "on_pipe (session_pipe senv) []"
  shows "\<exists>reg reg' s1 pipe s2. manager_main garbage (env\<lparr>session := pipe\<rparr>) [prog, regname, sess, ''remove'', b] =
      Inr (0, if boxes s (CHR ''/'' # b) \<noteq> None then ''OK'' @ [newline] else ''ERROR Couldn't remove box'' @ [newline], reg) \<and>
    listen (Some g) reg s = ret (At_end_of_pipe, reg', s1) \<and>
    workers_reception clients s1 = ret (Some (Returned 0, pipe, s2)) \<and> srv_inv s2 \<and>
    boxes s2 = (boxes s)(CHR ''/'' # b := None)"
proof -
  let ?nm = "CHR ''/'' # b" and ?c = PROTOCOL_CODE_REMOVE_REQUEST
  define rc where "rc = (if boxes s ?nm \<noteq> None then 0 else -1 :: int)"
  define msg where "msg = (if boxes s ?nm \<noteq> None then [] else ''Couldn't remove box'')"
  define pipe where "pipe = answered senv (answer_bytes PROTOCOL_CODE_REMOVE_ANSWER rc msg)"
  have ans: "- (2 ^ 31) \<le> rc" "rc < 2 ^ 31" "is_cstring msg" "length msg < MSG_MAX_LEN" "is_request ?c" "?c \<noteq> PROTOCOL_CODE_LIST_REQUEST"
      "register_ready (register (env\<lparr>session := pipe\<rparr>)) []" "session_opened (env\<lparr>session := pipe\<rparr>)"
      "session (env\<lparr>session := pipe\<rparr>) = answered senv (answer_bytes PROTOCOL_CODE_REMOVE_ANSWER rc msg)"
    using assms(10,12) by (simp_all add: rc_def msg_def is_cstring_def MSG_MAX_LEN_def is_request_def protocol_codes pipe_def)
  obtain sp reg reg' q' req where L: "session_name sess = Inr sp"
      "manager_handle_box_management (env\<lparr>session := pipe\<rparr>) ?c sp (Some b) = Inr (0, answer_line rc msg, reg)"
      "listen (Some g) reg s = ret (At_end_of_pipe, reg', s\<lparr>requests_queue := Some q'\<rparr>)" "pcq_wf q'" "ring q' = [req]"
      "req_code req = ?c" "terminated (client_named_pipe_path req)" "cstr (client_named_pipe_path req) = sess"
      "terminated (req_box_name req)" "cstr (req_box_name req) = ?nm"
    using command_answered [OF assms(2-5,6-9) ans(7-9) assms(14,15) ans(5,6) _ ans(1-4)] by blast
  obtain q'' where Q: "pcq_take q' = (req, q'')" "pcq_wf q''" "ring q'' = []" "\<not> pcq_empty q'" "pcq_buffer q' \<noteq> None"
    using pcq_take_head [OF L(4,5)] by metis
  obtain s2 where S: "workers_handle_manager_remove senv req (s\<lparr>requests_queue := Some q''\<rparr>) = ret (0, pipe, s2)"
      "srv_inv s2" "boxes s2 = (boxes s)(?nm := None)"
    by (rule remove_request [of "s\<lparr>requests_queue := Some q''\<rparr>" req senv])
      (use assms(1,14) L(9,10) in \<open>auto simp: pipe_def rc_def msg_def split: if_splits\<close>)
  have "workers_reception clients (s\<lparr>requests_queue := Some q'\<rparr>) = ret (Some (Returned 0, pipe, s2))"
    using Q L(6) S(1) assms(13) [OF L(7,8)] by (simp add: workers_reception_def protocol_codes)
  moreover have "manager_main garbage (env\<lparr>session := pipe\<rparr>) [prog, regname, sess, ''remove'', b] = Inr (0, answer_line rc msg, reg)"
    using L(1,2) assms(11) by (simp add: manager_main_def MANAGER_REMOVE_def MANAGER_CREATE_def arg_def)
  ultimately show ?thesis
    using L(3) S(2,3) by (intro exI [of _ reg] exI [of _ reg'] exI [of _ "s\<lparr>requests_queue := Some q'\<rparr>"] exI [of _ pipe] exI [of _ s2])
      (simp add: answer_line_def rc_def msg_def)
qed

theorem manager_remove_command_witness:
  "\<exists>reg reg' s1 pipe s2. manager_main (\<lambda>_. \<lparr>name = [], box_size = 0, n_publishers = 0, n_subscribers = 0\<rparr>) (demo_client\<lparr>session := pipe\<rparr>) [''manager'', ''/tmp/r'', ''/tmp/s'', ''remove'', ''news''] =
      Inr (0, ''ERROR Couldn't remove box'' @ [newline], reg) \<and>
    listen (Some (\<lambda>_. NUL)) reg demo_server = ret (At_end_of_pipe, reg', s1) \<and>
    workers_reception (\<lambda>_. demo_session) s1 = ret (Some (Returned 0, pipe, s2)) \<and> boxes s2 = Map.empty"
proof -
  obtain q where q: "requests_queue demo_server = Some q" "pcq_wf q" "ring q = []" "0 < pcq_capacity q"
    by (rule demo_server_queue)
  from manager_remove_command [OF demo_server_ok(1) q demo_command(1-7) _ demo_command(8,9), of "\<lambda>_. demo_session"] demo_server_ok(2)
  show ?thesis
    by simp blast
qed

end
