(* ===== verification/Stale_Sessions.thy ===== *)
theory Stale_Sessions
  imports Subscriber_Session
begin

text \<open>
  A publisher whose box is removed and whose slot is given to a new box. The test that ends the session of a
  removed box looks only at whether the slot is taken, so the session goes on: its messages are stored in the file of
  the old box, which no longer has a name, and counted in the entry of the new box.
\<close>

declare abs_fs_select [simp del]

section \<open>The slot changes hands\<close>

text \<open>While a publisher has the file of a box open, removing the box takes away its name only.\<close>

lemma remove_open_box:
  assumes s: "srv_inv s" and bn: "terminated (req_box_name req)" "slot_of s (cstr (req_box_name req)) = Some j"
    and i: "names (store s) (tl (cstr (req_box_name req))) = Some i" and h: "handles (store s) h = Some (i, off)"
  obtains f r p where "workers_handle_manager_remove env req s = ret (r, p, drop_box j (s\<lparr>fs := f\<rparr>))" and "fs_inv f"
    and "fs_params f = fs_params (fs s)" and "abs_fs f = (store s)\<lparr>names := (names (store s))(tl (cstr (req_box_name req)) := None)\<rparr>"
    and "srv_inv (drop_box j (s\<lparr>fs := f\<rparr>))" and "slot_of (drop_box j (s\<lparr>fs := f\<rparr>)) = (slot_of s)(cstr (req_box_name req) := None)"
    and "boxes (drop_box j (s\<lparr>fs := f\<rparr>)) = (boxes s)(cstr (req_box_name req) := None)"
proof -
  let ?nm = "cstr (req_box_name req)"
  obtain f i' where R: "names (store s) (tl ?nm) = Some i'" "fs_inv f" "fs_params f = fs_params (fs s)"
      "abs_fs f = collect i' ((store s)\<lparr>names := (names (store s))(tl ?nm := None)\<rparr>)"
      "workers_handle_manager_remove env req s = ret (if session_opens env then 0 else -1,
        answered env (answer_bytes PROTOCOL_CODE_REMOVE_ANSWER 0 []), drop_box j (s\<lparr>fs := f\<rparr>))"
    using remove_existing [OF s bn refl, of env] by blast
  have v: "abs_fs f = (store s)\<lparr>names := (names (store s))(tl ?nm := None)\<rparr>"
    using R(1,4) i h by (auto simp: collect_def unreferenced_def)
  show thesis
    by (rule that [OF R(5) R(2,3) v]) (use after_remove [OF s bn(2) R(1-4)] in simp_all)
qed

lemma lowest_free:
  assumes "table_ok s" and "j < slots s" and "\<forall>k<j. free_boxes s ! k = TAKEN"
  shows "free_slot (drop_box j s) = Some j"
  using assms table_okD(2) [OF assms(1)] by (auto simp: free_slot_def find_upt_Some_iff drop_box_def nth_list_update)

text \<open>What there is room for remains possible when another name goes.\<close>

lemma creatable_without:
  assumes "creatable nm s" and "card (dom (names (store s))) \<le> block_size (fs_params (fs s)) div sizeof_dir_entry"
    and "fs_params (fs s') = fs_params (fs s)" and "names (store s') = (names (store s))(n := None)" and "nodes (store s') = nodes (store s)"
    and "slot_of s' nm = None"
  shows "creatable nm s'"
proof -
  have "card (dom (names (store s'))) \<le> card (dom (names (store s)))"
    using card_Diff1_le [of "dom (names (store s))" n] by (simp add: assms(4))
  then show ?thesis
    using assms by (auto simp: creatable_def can_bind_def dir_full_def inodes_full_def simp del: valid_pathname.simps)
qed

section \<open>The messages of the old publisher\<close>

text \<open>The state when the slot has changed hands: \<open>nm\<close> was the name of the box, \<open>nm2\<close> is that of the new one.\<close>

lemma slot_reused:
  assumes s: "srv_inv s" and old: "terminated (req_box_name req)" "nm = cstr (req_box_name req)" "boxes s nm = Some []" "slot_of s nm = Some j"
    and new: "terminated (req_box_name req2)" "nm2 = cstr (req_box_name req2)" "length nm2 < BOX_NAME_MAX_LEN" "creatable nm2 s"
    and dir: "card (dom (names (store s))) \<le> block_size (fs_params (fs s)) div sizeof_dir_entry"
    and table: "\<forall>k<j. free_boxes s ! k = TAKEN" "n_publishers (boxes_table s ! j) = 0"
    and room: "g < g'" "g' < max_open_files_count (fs_params (fs s))" "handles (store s) g = None" "handles (store s) g' = None"
    and disk: "0 < spare (store s)"
  obtains h s1 r p2 s2 p3 s3 i where "pub_start req s = ret (Some (j, int h), s1)"
    and "workers_handle_manager_remove menv req s1 = ret (r, p2, s2)" and "workers_handle_manager_create cenv req2 s2 = ret (0, p3, s3)"
    and "srv_inv s3" and "boxes s3 = (boxes s)(nm := None, nm2 \<mapsto> [])" and "slot_of s3 nm2 = Some j" and "writing j h i [] s3"
    and "n_publishers (boxes_table s3 ! j) = 1" and "\<forall>n. names (store s3) n \<noteq> Some i" and "fs_params (fs s3) = fs_params (fs s)"
proof -
  note S = srv_invD [OF s]
  let ?pub = "\<lambda>b. b\<lparr>n_publishers := 1\<rparr>"
  obtain i where i: "valid_pathname (Some nm)" "names (store s) (tl nm) = Some i" "nodes (store s) i = Some (AFile [])"
    using old(3) unfolding boxes_Some by blast
  have j: "j < slots s" "j < length (boxes_table s)"
    using old(4) slot_of_Some [OF S(1)] table_okD(1) [OF S(1)] by auto
  have "\<not> handles_full (fs_params (fs s)) (store s)"
    using room(2,4) by (auto simp: handles_full_def)
  then obtain h f1 where P: "pub_start req s = ret (Some (j, int h), box_with j ?pub (s\<lparr>fs := f1\<rparr>))" "handles (store s) h = None"
      "fs_inv f1" "fs_params f1 = fs_params (fs s)" "abs_fs f1 = (store s)\<lparr>handles := (handles (store s))(h \<mapsto> (i, 0))\<rparr>"
    using pub_start_ok [OF s old(1,2,4) i table(2)] by auto
  define s1 where "s1 = box_with j ?pub (s\<lparr>fs := f1\<rparr>)"
  have s1: "srv_inv s1" "slot_of s1 = slot_of s" "boxes s1 = boxes s" "fs s1 = f1" "free_boxes s1 = free_boxes s"
      "boxes_table s1 = (boxes_table s)[j := (boxes_table s ! j)\<lparr>n_publishers := 1\<rparr>]"
    using srv_inv_handles [OF s P(3-5)] P(4) box_with_inv(1-3) [where g = ?pub and j = j and s = "s\<lparr>fs := f1\<rparr>"] by (simp_all add: s1_def)
  have pre: "slot_of s1 nm = Some j" "names (store s1) (tl nm) = Some i" "handles (store s1) h = Some (i, 0)"
    using old(4) i(2) P(5) s1(2,4) by simp_all
  obtain f2 r p2 where R: "workers_handle_manager_remove menv req s1 = ret (r, p2, drop_box j (s1\<lparr>fs := f2\<rparr>))" "fs_inv f2"
      "fs_params f2 = fs_params (fs s1)" "abs_fs f2 = (store s1)\<lparr>names := (names (store s1))(tl nm := None)\<rparr>"
      "srv_inv (drop_box j (s1\<lparr>fs := f2\<rparr>))" "slot_of (drop_box j (s1\<lparr>fs := f2\<rparr>)) = (slot_of s1)(nm := None)"
      "boxes (drop_box j (s1\<lparr>fs := f2\<rparr>)) = (boxes s1)(nm := None)"
    using remove_open_box [OF s1(1) old(1), of j i h 0 menv, folded old(2), OF pre] .
  define s2 where "s2 = drop_box j (s1\<lparr>fs := f2\<rparr>)"
  have s2: "srv_inv s2" "slot_of s2 = (slot_of s)(nm := None)" "boxes s2 = (boxes s)(nm := None)" "fs s2 = f2"
      "fs_params f2 = fs_params (fs s)" "boxes_table s2 = boxes_table s1"
    using R(3,5-7) s1(2-4) P(4) by (simp_all add: s2_def drop_box_def)
  have v2: "abs_fs f2 = (store s)\<lparr>names := (names (store s))(tl nm := None), handles := (handles (store s))(h \<mapsto> (i, 0))\<rparr>"
    using R(4) P(5) by (simp add: s1(4))
  have free: "free_slot s2 = Some j"
    unfolding s2_def by (rule lowest_free) (use srv_invD(1) [OF s1(1)] R(3) s1 j(1) P(4) table(1) in simp_all)
  have c2: "creatable nm2 s2"
    by (rule creatable_without [OF new(4) dir, where n = "tl nm"]) (use new(4) s2(2,5) in \<open>simp_all add: v2 s2(4) creatable_def del: valid_pathname.simps\<close>)
  obtain g0 where other: "g0 < max_open_files_count (fs_params (fs s))" "handles (store s) g0 = None" "g0 \<noteq> h"
  proof (cases "h = g")
    case True
    with room that [of g'] show thesis
      by simp
  next
    case False
    with room that [of g] show thesis
      by simp
  qed
  have room2: "\<not> handles_full (fs_params (fs s2)) (store s2)"
  proof
    assume "handles_full (fs_params (fs s2)) (store s2)"
    then have "handles (store s2) g0 \<noteq> None"
      using other(1) unfolding handles_full_def s2(4,5) by blast
    then show False
      using other(2,3) by (simp add: s2(4) v2)
  qed
  have len: "length (cstr (req_box_name req2)) < BOX_NAME_MAX_LEN"
    using new(2,3) by simp
  have free': "free_slot s2 = Some j' \<longleftrightarrow> j' = j" for j'
    using free by auto
  obtain f3 k where C: "fs_inv f3" "fs_params f3 = fs_params (fs s2)" "fresh_inode (fs_params (fs s2)) (store s2) k"
      "abs_fs f3 = (store s2)\<lparr>names := (names (store s2))(tl nm2 \<mapsto> k), nodes := (nodes (store s2))(k \<mapsto> AFile [])\<rparr>"
      "workers_handle_manager_create cenv req2 s2 = ret (0, answered cenv (answer_bytes PROTOCOL_CODE_CREATE_ANSWER 0 []), new_box j nm2 (s2\<lparr>fs := f3\<rparr>))"
    using create_new [OF s2(1) new(1) len _ room2 refl, of cenv, folded new(2), OF c2] unfolding free' by blast
  let ?s3 = "new_box j nm2 (s2\<lparr>fs := f3\<rparr>)"
  have nm2: "is_cstring nm2" "valid_pathname (Some nm2)"
    using new(1,2,4) by (auto simp: creatable_def simp del: valid_pathname.simps)
  note A = srv_inv_after_create [OF s2(1) c2 nm2(1) new(3) free C(1,2,4,3)]
  have ik: "i \<noteq> k"
    using C(3) i(3) by (auto simp: fresh_inode_def v2 s2(4))
  have store3: "store ?s3 = abs_fs f3"
    by (simp add: new_box_def)
  have tb: "boxes_table ?s3 ! j = (boxes_table s ! j)\<lparr>n_publishers := 1, name := nm2 @ replicate (BOX_NAME_MAX_LEN - length nm2) NUL, box_size := 0, n_subscribers := 0\<rparr>"
    using j(2) by (simp add: new_box_def s2(6) s1(6))
  have slot3: "slot_of ?s3 nm2 = Some j"
    using A(2) by simp
  have "writing j h i [] ?s3"
    using slot_of_Some [OF srv_invD(1) [OF A(1)], THEN iffD1, OF slot3] srv_invD(1-3) [OF A(1)] disk i(3) ik tb
    by (simp add: writing_def store3 C(4) v2 s2(4))
  moreover have "\<forall>n. names (store ?s3) n \<noteq> Some i"
    using S(6) [OF i(2)] ik by (auto simp: store3 C(4) v2 s2(4))
  moreover have "boxes ?s3 = (boxes s)(nm := None, nm2 \<mapsto> [])"
    using boxes_after_create [OF s2(1) nm2(2) C(3,4)] s2(3) by simp
  moreover have "fs_params (fs ?s3) = fs_params (fs s)"
    using C(2) s2(4,5) by (simp add: new_box_def)
  ultimately show thesis
    using P(1) R(1) C(5) A(1) slot3 tb that [of h s1 r p2 s2 "answered cenv (answer_bytes PROTOCOL_CODE_CREATE_ANSWER 0 [])" ?s3 i]
    by (simp add: s1_def s2_def)
qed

section \<open>Properties\<close>

text \<open>
  C38. A box that is removed while its publisher is connected, and whose slot goes to a new box: the session of the
  publisher goes on. Its messages are in no box; the table gives the new, empty box the size of the messages of the
  old publisher, and counts that publisher as its own, so that the new box refuses every publisher.
\<close>

theorem stale_publisher_counts_in_new_box:
  assumes "srv_inv s" and "terminated (req_box_name req)" and "nm = cstr (req_box_name req)" and "boxes s nm = Some []" and "slot_of s nm = Some j"
    and "terminated (req_box_name req2)" and "nm2 = cstr (req_box_name req2)" and "length nm2 < BOX_NAME_MAX_LEN" and "creatable nm2 s"
    and "card (dom (names (store s))) \<le> block_size (fs_params (fs s)) div sizeof_dir_entry"
    and "\<forall>k<j. free_boxes s ! k = TAKEN" and "n_publishers (boxes_table s ! j) = 0"
    and "g < g'" and "g' < max_open_files_count (fs_params (fs s))" and "handles (store s) g = None" and "handles (store s) g' = None"
    and "0 < spare (store s)" and "MSG_MAX_LEN dvd block_size (fs_params (fs s))"
    and "\<forall>m \<in> set msgs. length m = MSG_MAX_LEN" and "on_pipe pipe (concat (map message_in msgs))"
  shows "\<exists>h s1 r p2 s2 p3 s3 p' s4 t. pub_start req s = ret (Some (j, h), s1) \<and>
    workers_handle_manager_remove menv req s1 = ret (r, p2, s2) \<and> workers_handle_manager_create cenv req2 s2 = ret (0, p3, s3) \<and>
    pub_loop j h pipe s3 = Inr (p', s4) \<and> boxes s4 = (boxes s)(nm := None, nm2 \<mapsto> []) \<and> slot_of s4 nm2 = Some j \<and>
    box_size (boxes_table s4 ! j) = length (concat (take (block_size (fs_params (fs s)) div MSG_MAX_LEN) msgs)) \<and>
    workers_handle_pub_register env req2 s4 = ret (0, session_pipe env, srv_traced t s4)"
proof -
  obtain h s1 r p2 s2 p3 s3 i where R: "pub_start req s = ret (Some (j, int h), s1)"
      "workers_handle_manager_remove menv req s1 = ret (r, p2, s2)" "workers_handle_manager_create cenv req2 s2 = ret (0, p3, s3)"
      "srv_inv s3" "boxes s3 = (boxes s)(nm := None, nm2 \<mapsto> [])" "slot_of s3 nm2 = Some j" "writing j h i [] s3"
      "n_publishers (boxes_table s3 ! j) = 1" "\<forall>n. names (store s3) n \<noteq> Some i" "fs_params (fs s3) = fs_params (fs s)"
    using slot_reused [OF assms(1-17), of menv cenv] by blast
  let ?c = "stored_in (block_size (fs_params (fs s))) [] msgs"
  have div: "MSG_MAX_LEN dvd length ([]::mem)" "MSG_MAX_LEN dvd block_size (fs_params (fs s3))"
    using assms(18) R(10) by simp_all
  obtain p' f n where L: "pub_loop j (int h) pipe s3 = Inr (p', box_sized j (length ?c) (s3\<lparr>fs := f\<rparr>))" "fs_inv f" "fs_params f = fs_params (fs s3)"
      "abs_fs f = (store s3)\<lparr>nodes := (nodes (store s3))(i \<mapsto> AFile ?c), handles := (handles (store s3))(h \<mapsto> (i, length ?c)), spare := n\<rparr>"
    using pub_loop_eq [OF R(7) assms(19,20) div] unfolding R(10) by blast
  let ?s = "s3\<lparr>fs := f\<rparr>"
  have s: "srv_inv ?s"
    using srv_inv_same_view [OF R(4) L(2,3)] srv_invD(3) [OF R(4)] by (simp add: L(4) plain_def)
  have bx: "boxes ?s = boxes s3"
  proof (rule boxes_eqI)
    fix m c
    show "boxes ?s m = Some c \<longleftrightarrow> boxes s3 m = Some c"
      using R(9) unfolding boxes_Some by (auto simp: L(4) simp del: valid_pathname.simps)
  qed
  have sl: "slot_of ?s = slot_of s3"
    using L(3) by simp
  note W = box_with_inv(1-3) [where g = "\<lambda>b. b\<lparr>box_size := length ?c\<rparr>" and j = j and s = ?s]
  let ?s4 = "box_sized j (length ?c) ?s"
  have s4: "srv_inv ?s4" "boxes ?s4 = (boxes s)(nm := None, nm2 \<mapsto> [])" "slot_of ?s4 nm2 = Some j"
    using W s bx sl R(5,6) by simp_all
  have "j < length (boxes_table s3)"
    using slot_of_Some [OF srv_invD(1) [OF R(4)], THEN iffD1, OF R(6)] table_okD(1) [OF srv_invD(1) [OF R(4)]] by simp
  then have entry: "boxes_table ?s4 ! j = (boxes_table s3 ! j)\<lparr>box_size := length ?c\<rparr>"
    by simp
  obtain t where "workers_handle_pub_register env req2 ?s4 = ret (0, session_pipe env, srv_traced t ?s4)"
    using pub_refused [OF s4(1) assms(6), of j env] s4(3) R(8) entry unfolding assms(7) by auto
  moreover have "box_size (boxes_table ?s4 ! j) = length (concat (take (block_size (fs_params (fs s)) div MSG_MAX_LEN) msgs))"
    unfolding entry by (simp add: stored_in_def)
  moreover note R(1-3) L(1) s4(2,3)
  ultimately show ?thesis
    by blast
qed

lemma demo_boxed_room: "creatable ''/mail'' demo_boxed" "card (dom (names (store demo_boxed))) \<le> block_size (fs_params (fs demo_boxed)) div sizeof_dir_entry"
proof -
  note D = demo_boxed_ok and S = srv_invD [OF demo_boxed_ok(1)]
  have names: "names (store demo_boxed) n \<noteq> None \<longleftrightarrow> n = ''news''" for n
    using S(5) [of n] D(3) by auto
  then have dom: "dom (names (store demo_boxed)) = {''news''}"
    by auto
  obtain i where i: "names (store demo_boxed) ''news'' = Some i"
    using names [of "''news''"] by blast
  have ref: "all_referenced (store demo_boxed)"
    using S(2) no_orphans_abs [of "fs demo_boxed"] by (simp add: fs_inv_def)
  have "k = i" if "nodes (store demo_boxed) k \<noteq> None" for k
  proof -
    have "k \<in> ran (names (store demo_boxed))"
      using ref that D(8) by (simp add: all_referenced_def unreferenced_def)
    then obtain n where "names (store demo_boxed) n = Some k"
      by (auto simp: ran_def)
    with names [of n] i show ?thesis
      by simp
  qed
  moreover obtain k where "0 < k" "k < (64::nat)" "k \<noteq> i"
    using that [of 1] that [of 2] by (cases "i = 1") simp_all
  ultimately have "0 < k" "k < 64" "nodes (store demo_boxed) k = None"
    by blast+
  then have "\<not> inodes_full (fs_params (fs demo_boxed)) (store demo_boxed)"
    using D(7) by (auto simp: inodes_full_def)
  then show "creatable ''/mail'' demo_boxed"
    using dom D(3,7) names [of "''mail''"]
    by (simp add: creatable_def can_bind_def dir_full_def sizeof_dir_entry_def invalid_sub_name_def MAX_FILE_NAME_def)
  show "card (dom (names (store demo_boxed))) \<le> block_size (fs_params (fs demo_boxed)) div sizeof_dir_entry"
    using D(7) by (simp add: dom sizeof_dir_entry_def MAX_FILE_NAME_def)
qed

theorem stale_publisher_counts_in_new_box_witness:
  "\<exists>h s1 r p2 s2 p3 s3 p' s4. pub_start (demo_request PROTOCOL_CODE_PUB_REGISTER) demo_boxed = ret (Some (0, h), s1) \<and>
    workers_handle_manager_remove demo_session (demo_request PROTOCOL_CODE_PUB_REGISTER) s1 = ret (r, p2, s2) \<and>
    workers_handle_manager_create demo_session ((demo_request PROTOCOL_CODE_CREATE_REQUEST)\<lparr>req_box_name := ''/mail'' @ [NUL]\<rparr>) s2 = ret (0, p3, s3) \<and>
    pub_loop 0 h \<lparr>fifo_bytes = message_in (replicate 1024 CHR ''a''), fifo_outcomes = []\<rparr> s3 = Inr (p', s4) \<and>
    boxes s4 = [''/mail'' \<mapsto> []] \<and> box_size (boxes_table s4 ! 0) = 1024"
proof -
  note D = demo_boxed_ok
  let ?req2 = "(demo_request PROTOCOL_CODE_CREATE_REQUEST)\<lparr>req_box_name := ''/mail'' @ [NUL]\<rparr>"
    and ?pipe = "\<lparr>fifo_bytes = message_in (replicate 1024 CHR ''a''), fifo_outcomes = []\<rparr>"
  have req2: "terminated (req_box_name ?req2)" "''/mail'' = cstr (req_box_name ?req2)" "length ''/mail'' < BOX_NAME_MAX_LEN"
    by (simp_all add: BOX_NAME_MAX_LEN_def)
  have b: "boxes demo_boxed ''/news'' = Some []" "slot_of demo_boxed ''/news'' = Some 0"
    using D(2,3) by simp_all
  have fs: "MSG_MAX_LEN dvd block_size (fs_params (fs demo_boxed))" "(1::nat) < max_open_files_count (fs_params (fs demo_boxed))"
      "handles (store demo_boxed) 0 = None" "handles (store demo_boxed) 1 = None" "0 < spare (store demo_boxed)"
    using D(7-9) by (simp_all add: MSG_MAX_LEN_def)
  have p: "\<forall>m \<in> set [replicate 1024 CHR ''a'']. length m = MSG_MAX_LEN" "on_pipe ?pipe (concat (map message_in [replicate 1024 CHR ''a'']))"
    by (simp_all add: MSG_MAX_LEN_def on_pipe_def quiet_def)
  have "take (1048576 div 1024) [replicate 1024 CHR ''a''] = [replicate 1024 CHR ''a'']"
    by (rule take_all) simp
  then have "length (concat (take (block_size (fs_params (fs demo_boxed)) div MSG_MAX_LEN) [replicate 1024 CHR ''a''])) = 1024"
    using D(7) by (simp add: MSG_MAX_LEN_def)
  moreover have "(boxes demo_boxed)(''/news'' := None, ''/mail'' \<mapsto> []) = [''/mail'' \<mapsto> []]"
    by (simp add: D(2) fun_eq_iff)
  moreover note stale_publisher_counts_in_new_box [OF D(1) demo_request_simps(1) demo_request_simps(2) [symmetric] b req2 demo_boxed_room
      _ D(4) zero_less_one fs(2-5,1) p, of PROTOCOL_CODE_PUB_REGISTER demo_session demo_session demo_session]
  ultimately show ?thesis
    by simp metis
qed

end
