(* ===== verification/Server_Returns.thy ===== *)
theory Server_Returns
  imports Server_Frame
begin

text \<open>
  A small calculus for what the normal results of a handler have in common, and its first use: how the handlers of the
  server change the numbers of publishers that the table of boxes counts.
\<close>

declare abs_fs_select [simp del]

section \<open>The calculus\<close>

text \<open>Every normal result of a computation has a property; the rules follow the structure of the computation.\<close>

definition returns :: "'a res option \<Rightarrow> ('a \<Rightarrow> bool) \<Rightarrow> bool" where
  "returns m P \<longleftrightarrow> (\<forall>y. m = ret y \<longrightarrow> P y)"

lemma returns_simps [simp]:
  "returns (ret y) P \<longleftrightarrow> P y" "returns (Some (Inl e)) P" "returns None P"
  "returns (bindP m f) P \<longleftrightarrow> returns m (\<lambda>y. returns (f y) P)"
  "returns (Some (bindR m' g)) P' \<longleftrightarrow> returns (Some m') (\<lambda>y. returns (Some (g y)) P')"
proof -
  show "returns (bindP m f) P \<longleftrightarrow> returns m (\<lambda>y. returns (f y) P)"
    by (cases m; cases "the m") (auto simp: returns_def)
  show "returns (Some (bindR m' g)) P' \<longleftrightarrow> returns (Some m') (\<lambda>y. returns (Some (g y)) P')"
    by (cases m') (auto simp: returns_def)
qed (simp_all add: returns_def)

lemma returns_True [simp]: "returns m (\<lambda>_. True)"
  by (simp add: returns_def)

lemma returns_mono: "returns m Q \<Longrightarrow> (\<And>y. Q y \<Longrightarrow> P y) \<Longrightarrow> returns m P"
  by (simp add: returns_def)

lemma returnsI: "(\<And>y. m = ret y \<Longrightarrow> P y) \<Longrightarrow> returns m P"
  by (simp add: returns_def)

lemma step_array: "(\<And>b. P b) \<Longrightarrow> returns (Some (arr_get xs i)) P"
  by (simp add: returns_def)

lemma step_packet: "(\<And>b. P b) \<Longrightarrow> returns (Some (listing_packet l a bx)) P" "(\<And>b. P b) \<Longrightarrow> returns (Some (message_packet m)) P"
  by (simp_all add: returns_def)

lemma step_array_nth: "(i < length xs \<Longrightarrow> P (xs ! i)) \<Longrightarrow> returns (Some (arr_get xs i)) P"
  by (simp add: returns_def arr_get_def)

lemma bindP_eq_ret: "bindP m f = ret y \<longleftrightarrow> (\<exists>x. m = ret x \<and> f x = ret y)"
  by (cases m; cases "the m") auto

lemma returns_bindI: "returns m (\<lambda>y. returns (f y) P) \<Longrightarrow> returns (bindP m f) P"
  by simp

text \<open>The body of \<open>sub_loop\<close>, over an arbitrary continuation, and the rule for its loops.\<close>

definition sub_round ::
  "(mem option \<Rightarrow> nat \<Rightarrow> int \<Rightarrow> fifo \<Rightarrow> server \<Rightarrow> (outcome \<times> fifo \<times> server) res option) \<Rightarrow>
    mem option \<Rightarrow> nat \<Rightarrow> int \<Rightarrow> fifo \<Rightarrow> server \<Rightarrow> (outcome \<times> fifo \<times> server) res option" where
  "sub_round loop pending box_i box_f pipe s =
     (let to_read = MSG_MAX_LEN in
      case pending of
        None \<Rightarrow>
          let s = srv_log (Acquire_wr (box_mutex box_i)) s in
          bindP (Some (arr_get (free_boxes s) box_i)) (\<lambda>st.
          bindP (if st = TAKEN then Some (srv_read box_f to_read s) else ret (0, [], s)) (\<lambda>(r, message, s).
          if st = TAKEN \<and> size_of_ssize r \<noteq> to_read
          then ret (Sleeping box_i box_f, pipe, srv_log (Release (box_mutex box_i)) s)
          else
            bindP (Some (box_alive box_i (srv_log (Release (box_mutex box_i)) s))) (\<lambda>(alive, s).
            if \<not> alive then
              bindP (Some (sub_end box_i box_f s)) (\<lambda>s. ret (Returned 0, pipe, s))
            else loop (Some message) box_i box_f pipe s)))
      | Some message \<Rightarrow>
          bindP (Some (message_packet message)) (\<lambda>packet.
          case pipe_write pipe packet of
            (written, pipe) \<Rightarrow>
              if written \<le> 0 then
                bindP (Some (sub_end box_i box_f s)) (\<lambda>s. ret (Returned 0, pipe, s))
              else
                bindP (Some (srv_read box_f to_read s)) (\<lambda>(r, message, s).
                if size_of_ssize r = to_read then loop (Some message) box_i box_f pipe s
                else loop None box_i box_f pipe s)))"

lemma sub_loop_rule:
  assumes round: "\<And>loop pending j h pipe s. (\<And>pending j h pipe s. I s \<Longrightarrow> returns (loop pending j h pipe s) P) \<Longrightarrow> I s \<Longrightarrow>
      returns (sub_round loop pending j h pipe s) P"
    and "I s"
  shows "returns (sub_loop pending j h pipe s) P"
proof -
  have "I s \<longrightarrow> returns (Some res) P" if "sub_loop pending j h pipe s = Some res" for pending j h pipe s res
  proof (rule sub_loop.raw_induct [where P = "\<lambda>pending j h pipe s res. I s \<longrightarrow> returns (Some res) P", OF _ that], rule impI, goal_cases)
    case (1 loop pending j h pipe s res)
    have "returns (loop pending j h pipe s) P" if "I s" for pending j h pipe s
      using 1(1) [of pending j h pipe s] that by (cases "loop pending j h pipe s") auto
    moreover have "sub_round loop pending j h pipe s = Some res"
      using 1(2) by (subst sub_round_def)
    ultimately show ?case
      using round [of loop s pending j h pipe] 1(3) by simp
  qed
  with assms(2) show ?thesis
    by (cases "sub_loop pending j h pipe s") auto
qed

section \<open>Counting publishers\<close>

definition pubs :: "server \<Rightarrow> nat list" where
  "pubs s = map n_publishers (boxes_table s)"

lemma pubs_simps [simp]:
  "pubs (s\<lparr>fs := f\<rparr>) = pubs s" "pubs (srv_log e s) = pubs s" "pubs (srv_traced t s) = pubs s"
  "pubs (s\<lparr>requests_queue := q\<rparr>) = pubs s" "pubs (s\<lparr>free_boxes := m, n_boxes := n\<rparr>) = pubs s"
  by (simp_all add: pubs_def srv_log_traced)

text \<open>One rule per operation: what holds of every result with the same counts holds of its results.\<close>

lemma pubs_calls:
  "(\<And>r s'. pubs s' = pubs s \<Longrightarrow> P (r, s')) \<Longrightarrow> returns (srv_open bn mode s) P"
  "(\<And>r s'. pubs s' = pubs s \<Longrightarrow> P (r, s')) \<Longrightarrow> returns (Some (srv_unlink bn s)) P"
  "(\<And>r s'. pubs s' = pubs s \<Longrightarrow> P (r, s')) \<Longrightarrow> returns (Some (srv_close h s)) P"
  "(\<And>r s'. pubs s' = pubs s \<Longrightarrow> P (r, s')) \<Longrightarrow> returns (Some (srv_write h buf s)) P"
  "(\<And>r x s'. pubs s' = pubs s \<Longrightarrow> Q (r, x, s')) \<Longrightarrow> returns (Some (srv_read h n s)) Q"
  unfolding srv_open_def srv_unlink_def srv_close_def srv_write_def srv_read_def returns_simps
  by (auto simp: returns_def)

lemma box_update_pubs:
  "box_update i g s = Inr s' \<Longrightarrow> i < length (pubs s) \<and> pubs s' = (pubs s)[i := n_publishers (g (boxes_table s ! i))]"
  by (auto simp: box_update_def bindR_eq_Inr arr_get_eq_Inr pubs_def map_update)

lemma pubs_nth: "i < length (pubs s) \<Longrightarrow> n_publishers (boxes_table s ! i) = pubs s ! i"
  by (simp add: pubs_def)

lemma pubs_update:
  assumes "\<And>s'. pubs s' = pubs s \<Longrightarrow> P s'" and "\<And>b. n_publishers (g b) = n_publishers b"
  shows "returns (Some (box_update i g s)) P"
proof (rule returnsI)
  fix s'
  assume "Some (box_update i g s) = ret s'"
  then have "pubs s' = pubs s"
    using box_update_pubs [of i g s s'] by (simp add: assms(2) pubs_nth)
  then show "P s'"
    by (rule assms(1))
qed

lemma pubs_locked:
  assumes "\<And>s'. pubs s' = pubs s \<Longrightarrow> P s'" and "\<And>b. n_publishers (g b) = n_publishers b"
  shows "returns (Some (with_box_locked i g s)) P"
  unfolding with_box_locked_def returns_simps by (rule pubs_update) (use assms in simp_all)

lemma pubs_table:
  assumes P: "\<And>r s'. pubs s' = pubs s \<Longrightarrow> P (r, s')"
  shows "returns (Some (box_find bn s)) P" and "returns (Some (box_delete bn s)) P" and "returns (Some (box_create bn s)) P"
proof -
  show "returns (Some (box_find bn s)) P" "returns (Some (box_delete bn s)) P"
    unfolding box_find_def box_delete_def Let_def returns_simps
    by (auto simp: returns_def P pubs_def srv_log_traced split: option.split)
  have "returns (Some (with_box_locked i (\<lambda>b. b\<lparr>name := nm, box_size := 0, n_subscribers := 0\<rparr>)
      (srv_traced t (s\<lparr>free_boxes := m, n_boxes := n\<rparr>)))) (\<lambda>s'. P (0, s'))" for i nm t m n
    by (rule pubs_locked) (simp_all add: P)
  then show "returns (Some (box_create bn s)) P"
    unfolding box_create_def Let_def returns_simps
    by (auto simp: returns_def [of "Some (copy_name bn)"] returns_def [of "Some (scan f xs n)" for f xs n] P srv_log_traced split: option.split)
qed

lemma pubs_alive: "(\<And>b s'. pubs s' = pubs s \<Longrightarrow> P (b, s')) \<Longrightarrow> returns (Some (box_alive i s)) P"
  unfolding box_alive_def Let_def returns_simps by (auto intro!: step_array)

section \<open>Handlers that start no publisher\<close>

lemma pubs_end: "(\<And>s'. pubs s' = pubs s \<Longrightarrow> P s') \<Longrightarrow> returns (Some (sub_end j h s)) P"
  unfolding sub_end_def returns_simps by (auto intro!: pubs_locked pubs_calls)

lemma sub_loop_pubs: "pubs s = k \<Longrightarrow> returns (sub_loop pending j h pipe s) (\<lambda>(out, p, s'). pubs s' = k)"
proof (rule sub_loop_rule [where I = "\<lambda>s. pubs s = k"])
  fix loop :: "mem option \<Rightarrow> nat \<Rightarrow> int \<Rightarrow> fifo \<Rightarrow> server \<Rightarrow> (outcome \<times> fifo \<times> server) res option" and pending j h pipe s
  assume loop: "\<And>pending j h pipe s. pubs s = k \<Longrightarrow> returns (loop pending j h pipe s) (\<lambda>(out, p, s'). pubs s' = k)" and s: "pubs s = k"
  show "returns (sub_round loop pending j h pipe s) (\<lambda>(out, p, s'). pubs s' = k)"
    by (cases pending) (auto simp: sub_round_def Let_def s intro!: step_array step_packet pubs_calls pubs_alive pubs_end loop split: prod.split)
qed

lemma sub_register_pubs: "returns (workers_handle_sub_register env req s) (\<lambda>(out, p, s'). pubs s' = pubs s)"
  unfolding workers_handle_sub_register_def sub_start_def sub_open_def packet_ensure_len_limit_def Let_def
  by (auto intro!: pubs_table pubs_update pubs_calls sub_loop_pubs split: option.split)

lemma manager_pubs:
  "returns (workers_handle_manager_create env req s) (\<lambda>(r, p, s'). pubs s' = pubs s)"
  "returns (workers_handle_manager_remove env req s) (\<lambda>(r, p, s'). pubs s' = pubs s)"
  unfolding workers_handle_manager_create_def workers_handle_manager_remove_def packet_ensure_len_limit_def
  by (auto intro!: pubs_table pubs_calls)

lemma listing_pubs:
  assumes "srv_inv s"
  shows "returns (workers_handle_manager_listing env req s) (\<lambda>(r, p, s'). pubs s' = pubs s)"
proof -
  have "table_ok (srv_log (Acquire_rd free_boxes_lock) s)"
    using srv_invD(1) [OF assms] by (simp add: srv_log_traced)
  from listing_loop_traced [OF this, of 0 0 False "session_pipe env"] show ?thesis
    unfolding workers_handle_manager_listing_def packet_ensure_len_limit_def by (auto simp: returns_def)
qed

section \<open>Publishers\<close>

lemma pubs_change:
  "(\<And>s'. i < length (pubs s) \<Longrightarrow> pubs s' = (pubs s)[i := n_publishers (g (boxes_table s ! i))] \<Longrightarrow> P s') \<Longrightarrow>
    returns (Some (box_update i g s)) P"
  using box_update_pubs [of i g s] by (auto simp: returns_def)

lemma pub_start_pubs:
  "returns (pub_start req s) (\<lambda>(started, s').
    case started of
      None \<Rightarrow> pubs s' = pubs s
    | Some (j, h) \<Rightarrow> j < length (pubs s) \<and> pubs s ! j = 0 \<and> pubs s' = (pubs s)[j := 1])"
proof -
  let ?P = "\<lambda>(started, s'). case started of
      None \<Rightarrow> pubs s' = pubs s
    | Some (j, h) \<Rightarrow> j < length (pubs s) \<and> pubs s ! j = 0 \<and> pubs s' = (pubs s)[j := 1]"
  have after: "returns (Some (box_update i (\<lambda>b. b\<lparr>n_publishers := u64_inc (n_publishers b)\<rparr>) s1)) (\<lambda>s.
      returns (bindP (srv_open (req_box_name req) TFS_O_APPEND s) (\<lambda>(box_f, s).
      if box_f < 0 then
        bindP (Some (box_update i (\<lambda>b. b\<lparr>n_publishers := u64_dec (n_publishers b)\<rparr>) s)) (\<lambda>s.
        ret (None, srv_log (Release (box_mutex i)) s))
      else ret (Some (i, box_f), srv_log (Release (box_mutex i)) s))) ?P)"
    if s1: "pubs s1 = pubs s" and zero: "n_publishers (boxes_table s1 ! i) = 0" for i s1
    unfolding returns_simps
  proof (rule pubs_change)
    fix s2
    assume i: "i < length (pubs s1)" and "pubs s2 = (pubs s1)[i := n_publishers ((boxes_table s1 ! i)\<lparr>n_publishers := u64_inc (n_publishers (boxes_table s1 ! i))\<rparr>)]"
    then have s2: "pubs s2 = (pubs s)[i := 1]" "pubs s ! i = 0" "i < length (pubs s)"
      using s1 zero pubs_nth [OF i] by simp_all
    have undo: "returns (Some (box_update i (\<lambda>b. b\<lparr>n_publishers := u64_dec (n_publishers b)\<rparr>) s3)) (\<lambda>y. pubs y = pubs s)"
      if "pubs s3 = (pubs s)[i := 1]" for s3
    proof (rule pubs_change)
      fix s4
      assume "i < length (pubs s3)" and "pubs s4 = (pubs s3)[i := n_publishers ((boxes_table s3 ! i)\<lparr>n_publishers := u64_dec (n_publishers (boxes_table s3 ! i))\<rparr>)]"
      then show "pubs s4 = pubs s"
        using that s2(2,3) pubs_nth [of i s3] by (simp add: list_update_same_conv)
    qed
    show "returns (srv_open (req_box_name req) TFS_O_APPEND s2) (\<lambda>y. returns (case y of (box_f, s) \<Rightarrow>
      if box_f < 0 then
        bindP (Some (box_update i (\<lambda>b. b\<lparr>n_publishers := u64_dec (n_publishers b)\<rparr>) s)) (\<lambda>s.
        ret (None, srv_log (Release (box_mutex i)) s))
      else ret (Some (i, box_f), srv_log (Release (box_mutex i)) s)) ?P)"
      using s2 undo by (auto intro!: pubs_calls)
  qed
  show ?thesis
    unfolding pub_start_def Let_def
    by (rule returns_bindI, rule pubs_table(1)) (auto simp del: returns_simps(4,5) intro!: returns_bindI step_array_nth after)
qed

lemma pub_message_pubs: "returns (Some (pub_message j h pipe s)) (\<lambda>(b, p, s'). pubs s' = pubs s)"
proof -
  obtain r1 cbuf p1 where p1: "pipe_read pipe 1 = (r1, cbuf, p1)"
    by (cases "pipe_read pipe 1")
  obtain r2 m p2 where p2: "pipe_read p1 MSG_MAX_LEN = (r2, m, p2)"
    by (cases "pipe_read p1 MSG_MAX_LEN")
  show ?thesis
    unfolding pub_message_def Let_def p1 p2 prod.case
    by (auto simp: p2 intro!: pubs_alive pubs_calls pubs_locked)
qed

lemma pub_loop_pubs: "returns (Some (pub_loop j h pipe s)) (\<lambda>(p, s'). pubs s' = pubs s)"
proof (induction j h pipe s rule: pub_loop.induct)
  case (1 j h pipe s)
  show ?case
  proof (cases "pub_message j h pipe s")
    case (Inr y)
    obtain go_on pipe' s' where m: "pub_message j h pipe s = Inr (go_on, pipe', s')"
      using Inr by (metis prod_cases3)
    then have "pubs s' = pubs s"
      using pub_message_pubs [of j h pipe s] by simp
    then show ?thesis
      using 1 [OF m refl refl] m by (cases go_on) (simp_all add: pub_loop.simps [of j h pipe s])
  qed (simp add: pub_loop.simps [of j h pipe s])
qed

lemma pub_end_pubs:
  "returns (Some (pub_end j h s)) (\<lambda>s'. j < length (pubs s) \<and> pubs s' = (pubs s)[j := u64_dec (pubs s ! j)])"
  unfolding pub_end_def with_box_locked_def returns_simps
  by (rule pubs_change) (auto simp: pubs_nth intro!: pubs_calls)

lemma pub_register_pubs: "returns (workers_handle_pub_register env req s) (\<lambda>(r, p, s'). pubs s' = pubs s)"
proof -
  have session: "returns (Some (pub_loop j h pipe s1)) (\<lambda>(p, s2). returns (Some (pub_end j h s2)) (\<lambda>s'. pubs s' = pubs s))"
    if "j < length (pubs s)" "pubs s ! j = 0" "pubs s1 = (pubs s)[j := 1]" for j h pipe s1
    by (rule returns_mono [OF pub_loop_pubs]) (auto intro!: returns_mono [OF pub_end_pubs] simp: that list_update_same_conv)
  have "returns (pub_start req s) (\<lambda>y. returns (case y of (started, s) \<Rightarrow>
      case started of
        None \<Rightarrow> ret (0, session_pipe env, s)
      | Some (box_i, box_f) \<Rightarrow>
          bindP (Some (pub_loop box_i box_f (session_pipe env) s)) (\<lambda>(pipe, s).
          bindP (Some (pub_end box_i box_f s)) (\<lambda>s. ret (0 :: int, pipe, s)))) (\<lambda>(r, p, s'). pubs s' = pubs s))"
    by (rule returns_mono [OF pub_start_pubs])
      (auto split: option.splits intro!: returns_mono [OF session] elim!: returns_mono)
  then show ?thesis
    unfolding workers_handle_pub_register_def by simp
qed

section \<open>A worker\<close>

lemma reception_pubs:
  assumes "srv_inv s"
  shows "returns (workers_reception clients s) (\<lambda>x. \<forall>out p s'. x = Some (out, p, s') \<longrightarrow> pubs s' = pubs s)"
proof (cases "requests_queue s")
  case (Some q)
  obtain req q' where t: "pcq_take q = (req, q')"
    by (cases "pcq_take q")
  let ?s = "s\<lparr>requests_queue := Some q'\<rparr>" and ?env = "clients (client_named_pipe_path req)"
  have "srv_inv ?s"
    using assms by simp
  then show ?thesis
    using pub_register_pubs [of ?env req ?s] sub_register_pubs [of ?env req ?s] manager_pubs [of ?env req ?s] listing_pubs [of ?s ?env req]
    by (auto simp: workers_reception_def Some t Let_def elim!: returns_mono)
qed (simp add: workers_reception_def)

end
