(* ===== verification/Server_Machine.thy ===== *)
theory Server_Machine
  imports Server_Returns Manager_Program
begin

text \<open>
  The running server as a state machine. Its state is the server, the sessions of subscribers that wait for messages and
  those of publishers between two messages; a step is what the listener takes from the register pipe until it comes
  to rest, a request that a free worker takes out of the queue and handles, a waiting session that is woken, or a
  publisher that comes, sends a message or leaves. Steps happen one at a time; what arrives on pipes, and whether
  they can be opened, is arbitrary in every step.
\<close>

declare abs_fs_select [simp del]

section \<open>The listener\<close>

definition queue_ok :: "server \<Rightarrow> bool" where
  "queue_ok s \<longleftrightarrow> (\<exists>q. requests_queue s = Some q \<and> pcq_wf q \<and> list_all request_ok (ring q))"

definition queued :: "server \<Rightarrow> server \<Rightarrow> bool" where
  "queued s s' \<longleftrightarrow> queue_ok s' \<and> (\<exists>q. s' = s\<lparr>requests_queue := q\<rparr>)"

lemma queued_trans: "queued s s1 \<Longrightarrow> queued s1 s2 \<Longrightarrow> queued s s2"
  by (auto simp: queued_def)

lemma queued_refl: "queue_ok s \<Longrightarrow> queued s s"
  by (auto simp: queued_def intro: exI [of _ "requests_queue s"])

lemma strcpy_into_terminated:
  "strcpy_into dst pos src = Inr dst' \<Longrightarrow> terminated dst' \<and> length dst' = length dst"
  by (auto simp: strcpy_into_def bindR_eq_Inr mem_write_eq_Inr terminated_def patch_def)

lemma receive_queued:
  assumes "mbroker_receive_connection malloc c pipe s = Inr (Some (r, pipe', s'))" and "queue_ok s"
  shows "queued s s'"
proof -
  obtain q where q: "requests_queue s = Some q" "pcq_wf q" "list_all request_ok (ring q)"
    using assms(2) by (auto simp: queue_ok_def)
  define put where "put s' \<longleftrightarrow> (\<exists>req. request_ok req \<and> \<not> pcq_full q \<and> s' = s\<lparr>requests_queue := Some (pcq_put req q)\<rparr>)" for s'
  have putI: "request_ok req \<Longrightarrow> \<not> pcq_full q \<Longrightarrow> put (s\<lparr>requests_queue := Some (pcq_put req q)\<rparr>)" for req
    by (auto simp: put_def)
  have "s' = s \<or> put s'"
  proof (cases malloc)
    case (Some g)
    obtain r1 path p1 where p1: "pipe_read pipe CLIENT_NAMED_PIPE_MAX_LEN = (r1, path, p1)"
      by (metis prod_cases3)
    obtain r2 box p2 where p2: "pipe_read p1 BOX_NAME_MAX_LEN = (r2, box, p2)"
      by (metis prod_cases3)
    have ok: "request_ok \<lparr>req_code = c, client_named_pipe_path = x, req_box_name = nm\<rparr>"
      if "strcpy_into ((map g [0..<BOX_NAME_MAX_LEN])[0 := CHR ''/'']) 1 box = Inr nm" for x nm
      using strcpy_into_terminated [OF that] terminated_length [of nm] by (simp add: request_ok_def)
    have list: "request_ok \<lparr>req_code = PROTOCOL_CODE_LIST_REQUEST, client_named_pipe_path = x, req_box_name = nm\<rparr>" for x nm
      by (simp add: request_ok_def)
    show ?thesis
      using assms(1) q(1) Some
      by (auto simp: mbroker_receive_connection_def bindR_eq_Inr arr_set_eq_Inr p1 p2 Let_def intro!: putI ok list split: if_splits option.splits)
  qed (use assms(1) in \<open>simp add: mbroker_receive_connection_def\<close>)
  then show ?thesis
    unfolding put_def
  proof (elim disjE exE conjE)
    fix req
    assume req: "request_ok req" "\<not> pcq_full q" "s' = s\<lparr>requests_queue := Some (pcq_put req q)\<rparr>"
    then show ?thesis
      using q ring.wf_put [OF q(2) req(2)] ring.content_put [OF q(2) req(2)] by (auto simp: queued_def queue_ok_def)
  qed (use assms(2) in \<open>simp add: queued_refl\<close>)
qed

text \<open>One round of the listener, for any continuation \<open>loop\<close> of the loop that only queues requests.\<close>

lemma listen_round_queued:
  assumes loop: "\<And>m r c p s e p' s'. loop m r c p s = ret (e, p', s') \<Longrightarrow> queue_ok s \<Longrightarrow> queued s s'" and ok: "queue_ok s"
    and step: "(if 0 < r then
        if \<not> is_request c then loop m r c p s
        else
          bindP (Some (mbroker_receive_connection m c p s)) (\<lambda>x.
          case x of
            None \<Rightarrow> ret (Queue_full, p, s)
          | Some (r, pipe, s) \<Rightarrow>
              if r \<noteq> 0 then ret (Receive_failed, pipe, s)
              else
                case pipe_read pipe 1 of
                  (bytes_read, cbuf, pipe) \<Rightarrow> loop m bytes_read (int (le_val cbuf)) pipe s)
        else ret (if r < 0 then Read_failed else At_end_of_pipe, p, s)) = ret (e, p', s')"
  shows "queued s s'"
proof (cases "0 < r \<and> is_request c")
  case False
  then show ?thesis
    using step loop [of m r c p s] ok queued_refl by (auto split: if_splits)
next
  case True
  then obtain x where x: "mbroker_receive_connection m c p s = Inr x"
    using step by (cases "mbroker_receive_connection m c p s") auto
  show ?thesis
  proof (cases x)
    case None
    then show ?thesis
      using step True x queued_refl [OF ok] by auto
  next
    case (Some y)
    obtain r1 p1 s1 where y: "y = (r1, p1, s1)"
      by (cases y)
    have q: "queued s s1"
      using receive_queued [OF _ ok] x Some y by blast
    then have "queue_ok s1"
      by (simp add: queued_def)
    then have "queued s1 s'"
      using step True x Some y loop [where s = s1] queued_refl by (auto split: if_splits prod.splits)
    with q show ?thesis
      by (rule queued_trans)
  qed
qed

lemma listen_queued:
  assumes "listen malloc pipe s = ret (e, pipe', s')" and "queue_ok s"
  shows "queued s s'"
proof -
  let ?P = "\<lambda>s res. \<forall>e pipe' s'. res = Inr (e, pipe', s') \<longrightarrow> queue_ok s \<longrightarrow> queued s s'"
  have "?P s res" if "listen_loop malloc r c pipe s = Some res" for r c pipe s res
    by (rule listen_loop.raw_induct [where P = "\<lambda>m r c p s res. ?P s res", OF _ that]) (blast intro: listen_round_queued)
  with assms show ?thesis
    unfolding listen_def by (fastforce split: prod.splits)
qed

section \<open>The machine\<close>

text \<open>
  A session is the slot of its box, its handle and the pipe of its client. \<open>waiting\<close> are the sessions of subscribers that
  wait for messages, \<open>publishing\<close> those of publishers between two messages. \<open>n\<close> is the number of workers: a
  request is only taken out of the queue when a worker is not busy with a session.
\<close>

record broker =
  srv :: server
  waiting :: "(nat \<times> int \<times> fifo) list"
  publishing :: "(nat \<times> int \<times> fifo) list"

abbreviation sessions :: "broker \<Rightarrow> (nat \<times> int \<times> fifo) list" where
  "sessions b \<equiv> waiting b @ publishing b"

abbreviation session_handles :: "broker \<Rightarrow> int list" where
  "session_handles b \<equiv> map (\<lambda>(j, h, pipe). h) (sessions b)"

text \<open>The first request of the queue, when it is that of a publisher whose pipe can be opened.\<close>

definition publisher_request :: "(mem \<Rightarrow> session_env) \<Rightarrow> server \<Rightarrow> (request_t \<times> fifo \<times> server) option" where
  "publisher_request clients s =
     (case requests_queue s of
        None \<Rightarrow> None
      | Some q \<Rightarrow>
          if pcq_buffer q = None \<or> pcq_empty q then None
          else
            let (request, q) = pcq_take q;
                env = clients (client_named_pipe_path request) in
            if req_code request = PROTOCOL_CODE_PUB_REGISTER \<and> session_opens env
            then Some (request, session_pipe env, s\<lparr>requests_queue := Some q\<rparr>) else None)"

inductive broker_step :: "nat \<Rightarrow> broker \<Rightarrow> broker \<Rightarrow> bool" for n where
  step_listen: "listen malloc pipe (srv b) = ret (e, pipe', s') \<Longrightarrow> broker_step n b (b\<lparr>srv := s'\<rparr>)"
| step_serve: "length (sessions b) < n \<Longrightarrow> workers_reception clients (srv b) = ret (Some (Returned r, pipe, s')) \<Longrightarrow>
    broker_step n b (b\<lparr>srv := s'\<rparr>)"
| step_subscribe: "length (sessions b) < n \<Longrightarrow> workers_reception clients (srv b) = ret (Some (Sleeping j h, pipe, s')) \<Longrightarrow>
    broker_step n b (b\<lparr>srv := s', waiting := waiting b @ [(j, h, pipe)]\<rparr>)"
| step_wake: "waiting b = ws @ (j, h, pipe) # ws' \<Longrightarrow> sub_loop None j h pipe (srv b) = ret (Sleeping j' h', pipe', s') \<Longrightarrow>
    broker_step n b (b\<lparr>srv := s', waiting := ws @ (j', h', pipe') # ws'\<rparr>)"
| step_end: "waiting b = ws @ (j, h, pipe) # ws' \<Longrightarrow> sub_loop None j h pipe (srv b) = ret (Returned r, pipe', s') \<Longrightarrow>
    broker_step n b (b\<lparr>srv := s', waiting := ws @ ws'\<rparr>)"
| step_publish: "length (sessions b) < n \<Longrightarrow> publisher_request clients (srv b) = Some (req, pipe, s) \<Longrightarrow>
    pub_start req s = ret (Some (j, h), s') \<Longrightarrow>
    broker_step n b (b\<lparr>srv := s', publishing := publishing b @ [(j, h, pipe)]\<rparr>)"
| step_message: "publishing b = ws @ (j, h, pipe) # ws' \<Longrightarrow> pub_message j h pipe (srv b) = Inr (True, pipe', s') \<Longrightarrow>
    broker_step n b (b\<lparr>srv := s', publishing := ws @ (j, h, pipe') # ws'\<rparr>)"
| step_leave: "publishing b = ws @ (j, h, pipe) # ws' \<Longrightarrow> pub_message j h pipe (srv b) = Inr (False, pipe', s) \<Longrightarrow>
    pub_end j h s = Inr s' \<Longrightarrow> broker_step n b (b\<lparr>srv := s', publishing := ws @ ws'\<rparr>)"

definition broker_start :: "server \<Rightarrow> broker" where
  "broker_start s = \<lparr>srv = s, waiting = [], publishing = []\<rparr>"

text \<open>The invariant: what the server keeps, whose the open handles are, and that the table counts the publishers.\<close>

definition broker_inv :: "nat \<Rightarrow> broker \<Rightarrow> bool" where
  "broker_inv n b \<longleftrightarrow>
     srv_inv (srv b) \<and> queue_ok (srv b) \<and> max_open_files_count (fs_params (fs (srv b))) = n \<and>
     length (sessions b) \<le> n \<and> distinct (session_handles b) \<and> int ` held (srv b) = set (session_handles b) \<and>
     (\<forall>(j, h, pipe) \<in> set (sessions b). j < slots (srv b)) \<and>
     distinct (map fst (publishing b)) \<and> (\<forall>(j, h, pipe) \<in> set (publishing b). pubs (srv b) ! j = 1)"

lemma broker_invD:
  assumes "broker_inv n b"
  shows "srv_inv (srv b)" and "queue_ok (srv b)" and "max_open_files_count (fs_params (fs (srv b))) = n"
    and "distinct (session_handles b)" and "int ` held (srv b) = set (session_handles b)"
    and "(j, h, pipe) \<in> set (sessions b) \<Longrightarrow> j < slots (srv b)" and "length (sessions b) \<le> n"
    and "distinct (map fst (publishing b))" and "(j, h, pipe) \<in> set (publishing b) \<Longrightarrow> pubs (srv b) ! j = 1"
  using assms unfolding broker_inv_def by (fastforce simp del: map_append)+

lemma broker_inv_sessions:
  assumes "broker_inv n b"
  shows "\<forall>(j, h, pipe) \<in> set (sessions b). j < slots (srv b)" and "\<forall>(j, h, pipe) \<in> set (publishing b). pubs (srv b) ! j = 1"
  using assms unfolding broker_inv_def by blast+

lemma kept_slots: "kept s s' \<Longrightarrow> slots s' = slots s"
  by (simp add: kept_def)

lemma kept_queue_ok: "kept s s' \<Longrightarrow> queue_ok s' = queue_ok s"
  by (simp add: kept_def queue_ok_def)

text \<open>
  A change of the server and of the sessions keeps the invariant when the handles stay those of the sessions. The
  last argument says how the counts of publishers change.
\<close>

lemma broker_inv_change:
  assumes "broker_inv n b"
    and "kept (srv b) (srv b') \<or> srv_inv (srv b') \<and> fs_params (fs (srv b')) = fs_params (fs (srv b)) \<and> queue_ok (srv b')"
    and "length (sessions b') \<le> n" and "distinct (session_handles b')" and "int ` held (srv b') = set (session_handles b')"
    and "\<forall>(j, h, pipe) \<in> set (sessions b'). j < slots (srv b)"
    and "distinct (map fst (publishing b'))" and "\<forall>(j, h, pipe) \<in> set (publishing b'). pubs (srv b') ! j = 1"
  shows "broker_inv n b'"
proof -
  have s': "srv_inv (srv b') \<and> fs_params (fs (srv b')) = fs_params (fs (srv b)) \<and> queue_ok (srv b')"
    using assms(2) broker_invD(2) [OF assms(1)] kept_queue_ok unfolding kept_def by blast
  then have "slots (srv b') = slots (srv b)"
    by simp
  with s' show ?thesis
    using assms(3-) broker_invD(3) [OF assms(1)] unfolding broker_inv_def by (auto simp del: map_append)
qed

lemma session_handle: "(j, h, pipe) \<in> set (sessions b) \<Longrightarrow> h \<in> set (session_handles b)"
  unfolding set_map by (rule rev_image_eqI) (assumption, simp)

text \<open>A free worker means a free handle.\<close>

lemma free_handle:
  assumes "broker_inv n b" and "length (sessions b) < n"
  shows "\<not> {..<max_open_files_count (fs_params (fs (srv b)))} \<subseteq> held (srv b)"
proof
  note B = broker_invD [OF assms(1)]
  assume "{..<max_open_files_count (fs_params (fs (srv b)))} \<subseteq> held (srv b)"
  then have "int ` {..<n} \<subseteq> set (session_handles b)"
    using B(3,5) by blast
  then have "card (int ` {..<n}) \<le> length (sessions b)"
    using card_mono [of "set (session_handles b)"] distinct_card [OF B(4)] by (metis length_map List.finite_set)
  with assms(2) show False
    by (simp add: card_image)
qed

lemma same_sessions: "broker_inv n b \<Longrightarrow> srv_inv s' \<Longrightarrow> fs_params (fs s') = fs_params (fs (srv b)) \<Longrightarrow> queue_ok s' \<Longrightarrow>
    held s' = held (srv b) \<Longrightarrow> pubs s' = pubs (srv b) \<Longrightarrow> broker_inv n (b\<lparr>srv := s'\<rparr>)"
  unfolding broker_inv_def by (simp del: map_append)

text \<open>What a worker does with the first request, whatever it is.\<close>

lemma worker_step:
  assumes "broker_inv n b" and "length (sessions b) < n"
  obtains (idle) "workers_reception clients (srv b) = ret None"
  | (returns) r pipe s' where "workers_reception clients (srv b) = ret (Some (Returned r, pipe, s'))" and "broker_inv n (b\<lparr>srv := s'\<rparr>)"
  | (sleeps) j h pipe s' where "workers_reception clients (srv b) = ret (Some (Sleeping j h, pipe, s'))"
      and "broker_inv n (b\<lparr>srv := s', waiting := waiting b @ [(j, h, pipe)]\<rparr>)"
proof -
  note B = broker_invD(1-5,7,8) [OF assms(1)] broker_inv_sessions [OF assms(1)]
  let ?s = "srv b"
  obtain q where q: "requests_queue ?s = Some q" "pcq_wf q" "list_all request_ok (ring q)"
    using B(2) by (auto simp: queue_ok_def)
  show thesis
  proof (cases "ring q")
    case Nil
    then show thesis
      using q ring.void_iff [of q] by (intro idle) (simp add: workers_reception_def)
  next
    case (Cons req reqs)
    then have req: "request_ok req" "list_all request_ok reqs"
      using q(3) by simp_all
    have ok: "queue_ok s'" if "kept (?s\<lparr>requests_queue := Some q'\<rparr>) s'" "pcq_wf q'" "ring q' = reqs" for q' s'
      using that req(2) by (simp add: kept_def queue_ok_def)
    from B(1) q(1,2) Cons req(1) free_handle [OF assms] show thesis
    proof (cases rule: reception_kept [where clients = clients])
      case (returns q' r pipe s')
      have "broker_inv n (b\<lparr>srv := s'\<rparr>)"
        by (rule same_sessions [OF assms(1)])
          (use returns ok [OF returns(4,2,3)] reception_pubs [OF B(1), of clients] in \<open>simp_all add: kept_def\<close>)
      with returns(1) show thesis
        by (rule that(2))
    next
      case (sleeps q' j h pipe s')
      have "int h \<notin> set (session_handles b)"
        using sleeps(6) B(5) by (metis (no_types, lifting) image_iff of_nat_eq_iff)
      moreover have "pubs s' = pubs ?s"
        using reception_pubs [OF B(1), of clients] sleeps(1) by simp
      ultimately have "broker_inv n (b\<lparr>srv := s', waiting := waiting b @ [(j, int h, pipe)]\<rparr>)"
        by (intro broker_inv_change [OF assms(1)])
          (use assms(2) B ok [OF sleeps(4,2,3)] sleeps(4,5,7) in \<open>auto simp: kept_def\<close>)
      with sleeps(1) show thesis
        by (rule that(3))
    qed
  qed
qed

text \<open>What a waiting session does when it is woken.\<close>

lemma wake_step:
  assumes "broker_inv n b" and "waiting b = ws @ (j, h, pipe) # ws'"
  obtains (sleeps) pipe' s' where "sub_loop None j h pipe (srv b) = ret (Sleeping j h, pipe', s')"
      and "broker_inv n (b\<lparr>srv := s', waiting := ws @ (j, h, pipe') # ws'\<rparr>)"
  | (returns) pipe' s' where "sub_loop None j h pipe (srv b) = ret (Returned 0, pipe', s')"
      and "broker_inv n (b\<lparr>srv := s', waiting := ws @ ws'\<rparr>)"
proof -
  note B = broker_invD(1-5,7,8) [OF assms(1)] broker_inv_sessions [OF assms(1)]
  let ?s = "srv b"
  have mem: "(j, h, pipe) \<in> set (sessions b)"
    using assms(2) by simp
  have "h \<in> int ` held ?s"
    unfolding B(5) by (rule session_handle [OF mem])
  then obtain k where k: "h = int k" "k \<in> held ?s"
    by blast
  have "sub_rests j k (sub_loop None j (int k) pipe ?s) ?s"
    by (rule sub_loop_rests [OF B(1) broker_invD(6) [OF assms(1) mem]]) simp
  then obtain out pipe' s' where R: "sub_loop None j h pipe ?s = ret (out, pipe', s')" "kept ?s s'"
      "out = Sleeping j h \<and> held s' = held ?s \<or> out = Returned 0 \<and> held s' = held ?s - {k}"
    by (auto simp: sub_rests_def k(1))
  have P: "pubs s' = pubs ?s"
    using sub_loop_pubs [OF refl, of None j h pipe ?s] R(1) by simp
  from R(3) show thesis
  proof (elim disjE conjE)
    assume out: "out = Sleeping j h" and hd: "held s' = held ?s"
    have "broker_inv n (b\<lparr>srv := s', waiting := ws @ (j, h, pipe') # ws'\<rparr>)"
      by (rule broker_inv_change [OF assms(1)]) (use R(2) B assms(2) hd P in auto)
    with R(1) show thesis
      unfolding out by (rule sleeps)
  next
    assume out: "out = Returned 0" and hd: "held s' = held ?s - {k}"
    have "int ` held s' = int ` held ?s - {h}"
      by (auto simp: hd k(1))
    then have "broker_inv n (b\<lparr>srv := s', waiting := ws @ ws'\<rparr>)"
      by (intro broker_inv_change [OF assms(1)]) (use R(2) B assms(2) P in auto)
    with R(1) show thesis
      unfolding out by (rule returns)
  qed
qed

text \<open>A publisher that comes, sends a message, or leaves.\<close>

lemma publisher_taken:
  assumes "publisher_request clients s = Some (req, pipe, s1)" and "queue_ok s"
  shows "\<exists>q'. s1 = s\<lparr>requests_queue := q'\<rparr>" and "queue_ok s1" and "terminated (req_box_name req)"
    and "workers_reception clients s = bindP (workers_handle_pub_register (clients (client_named_pipe_path req)) req s1)
      (\<lambda>(r, pipe, s). ret (Some (Returned r, pipe, s)))"
    and "session_opens (clients (client_named_pipe_path req))" and "session_pipe (clients (client_named_pipe_path req)) = pipe"
proof -
  obtain q where q: "requests_queue s = Some q" "pcq_wf q" "list_all request_ok (ring q)"
    using assms(2) by (auto simp: queue_ok_def)
  obtain req' reqs where r': "ring q = req' # reqs"
    using assms(1) q ring.void_iff [of q] by (cases "ring q") (simp_all add: publisher_request_def)
  obtain q' where t': "pcq_take q = (req', q')" "pcq_wf q'" "ring q' = reqs" "\<not> pcq_empty q" "pcq_buffer q \<noteq> None"
    using pcq_take_head [OF q(2) r'] .
  have "req' = req"
    using assms(1) t' by (simp add: publisher_request_def q(1) Let_def split: if_splits)
  note r = r' [unfolded this] and t = t' [unfolded this]
  have P: "req_code req = PROTOCOL_CODE_PUB_REGISTER" "s1 = s\<lparr>requests_queue := Some q'\<rparr>"
      "session_opens (clients (client_named_pipe_path req))" "session_pipe (clients (client_named_pipe_path req)) = pipe"
    using assms(1) t by (auto simp: publisher_request_def q(1) Let_def split: if_splits)
  then show "\<exists>q'. s1 = s\<lparr>requests_queue := q'\<rparr>" "queue_ok s1" "terminated (req_box_name req)"
      "session_opens (clients (client_named_pipe_path req))" "session_pipe (clients (client_named_pipe_path req)) = pipe"
    using q(3) t(2,3) by (auto simp: queue_ok_def r request_ok_def protocol_codes)
  show "workers_reception clients s = bindP (workers_handle_pub_register (clients (client_named_pipe_path req)) req s1)
      (\<lambda>(r, pipe, s). ret (Some (Returned r, pipe, s)))"
    using P t by (cases "pcq_buffer q") (simp_all add: workers_reception_def q(1) protocol_codes)
qed

lemma publish_step:
  assumes "broker_inv n b" and "length (sessions b) < n" and "publisher_request clients (srv b) = Some (req, pipe, s)"
  obtains (refused) s' where "pub_start req s = ret (None, s')"
  | (starts) j h s' where "pub_start req s = ret (Some (j, h), s')"
      and "broker_inv n (b\<lparr>srv := s', publishing := publishing b @ [(j, h, pipe)]\<rparr>)"
proof -
  note B = broker_invD(1-5,7,8) [OF assms(1)] broker_inv_sessions [OF assms(1)]
  obtain q where s: "s = (srv b)\<lparr>requests_queue := q\<rparr>" and T: "queue_ok s" "terminated (req_box_name req)"
    using publisher_taken [OF assms(3) B(2)] by blast
  have "srv_inv s" "\<not> {..<max_open_files_count (fs_params (fs s))} \<subseteq> held s"
    using B(1) free_handle [OF assms(1,2)] by (simp_all add: s held_def)
  from this(1) T(2) this(2) show thesis
  proof (cases rule: pub_start_kept)
    case (1 s')
    then show thesis
      by (intro refused)
  next
    case (2 j h s')
    have C: "j < length (pubs (srv b))" "pubs (srv b) ! j = 0" "pubs s' = (pubs (srv b))[j := 1]"
      using pub_start_pubs [of req s] 2(1) by (simp_all add: s)
    have H: "h \<notin> held (srv b)" "held s' = insert h (held (srv b))"
      using 2(4,5) by (simp_all add: s held_def)
    then have "int h \<notin> set (session_handles b)"
      using B(5) by (metis (no_types, lifting) image_iff of_nat_eq_iff)
    moreover have "j \<notin> fst ` set (publishing b)"
    proof
      assume "j \<in> fst ` set (publishing b)"
      then obtain g p where "(j, g, p) \<in> set (publishing b)"
        by force
      with broker_invD(9) [OF assms(1)] C(2) show False
        by fastforce
    qed
    moreover have "\<forall>(i, h, pipe) \<in> set (publishing b @ [(j, int h, pipe)]). pubs s' ! i = 1"
      using B(9) C(1) unfolding C(3) by (auto simp: nth_list_update)
    moreover have "srv_inv s' \<and> fs_params (fs s') = fs_params (fs (srv b)) \<and> queue_ok s'"
      using 2(2) T(1) kept_queue_ok [OF 2(2)] by (simp add: kept_def s)
    ultimately have "broker_inv n (b\<lparr>srv := s', publishing := publishing b @ [(j, int h, pipe)]\<rparr>)"
      by (intro broker_inv_change [OF assms(1)]) (use assms(2) B 2(3) H(2) in \<open>auto simp: s\<close>)
    with 2(1) show thesis
      by (rule starts)
  qed
qed

lemma message_step:
  assumes "broker_inv n b" and "publishing b = ws @ (j, h, pipe) # ws'"
  obtains (goes_on) pipe' s' where "pub_message j h pipe (srv b) = Inr (True, pipe', s')"
      and "broker_inv n (b\<lparr>srv := s', publishing := ws @ (j, h, pipe') # ws'\<rparr>)"
  | (leaves) pipe' s s' where "pub_message j h pipe (srv b) = Inr (False, pipe', s)" and "pub_end j h s = Inr s'"
      and "broker_inv n (b\<lparr>srv := s', publishing := ws @ ws'\<rparr>)"
proof -
  note B = broker_invD(1-5,7,8) [OF assms(1)] broker_inv_sessions [OF assms(1)]
  have mem: "(j, h, pipe) \<in> set (sessions b)" "(j, h, pipe) \<in> set (publishing b)"
    using assms(2) by simp_all
  have j: "j < slots (srv b)" "pubs (srv b) ! j = 1"
    using broker_invD(6) [OF assms(1) mem(1)] broker_invD(9) [OF assms(1) mem(2)] .
  have "h \<in> int ` held (srv b)"
    unfolding B(5) by (rule session_handle [OF mem(1)])
  then obtain k where k: "h = int k" "k \<in> held (srv b)"
    by blast
  obtain go_on pipe' s where M: "pub_message j h pipe (srv b) = Inr (go_on, pipe', s)" "kept (srv b) s" "held s = held (srv b)"
    using pub_message_kept [OF B(1) j(1)] .
  have P: "pubs s = pubs (srv b)"
    using pub_message_pubs [of j h pipe "srv b"] M(1) by simp
  show thesis
  proof (cases go_on)
    case True
    have "broker_inv n (b\<lparr>srv := s, publishing := ws @ (j, h, pipe') # ws'\<rparr>)"
      by (rule broker_inv_change [OF assms(1)]) (use M(2,3) B assms(2) P in auto)
    with M(1) True show thesis
      by (intro goes_on) simp_all
  next
    case False
    obtain s' where E: "pub_end j (int k) s = Inr s'" "kept s s'" "held s' = held s - {k}"
      using pub_end_kept [OF keptD(1) [OF M(2)], of j k] j(1) keptD(2) [OF M(2)] by auto
    have P': "j < length (pubs s)" "pubs s' = (pubs s)[j := u64_dec (pubs s ! j)]"
      using pub_end_pubs [of j "int k" s] E(1) by simp_all
    have "int ` held s' = int ` held (srv b) - {h}"
      by (auto simp: E(3) M(3) k(1))
    moreover have "\<forall>(i, h, pipe) \<in> set (ws @ ws'). pubs s' ! i = 1"
    proof (clarify)
      fix i g p
      assume i: "(i, g, p) \<in> set (ws @ ws')"
      have "j \<notin> fst ` set (ws @ ws')"
        using B(7) unfolding assms(2) by auto
      with i have "i \<noteq> j"
        by force
      moreover have "pubs (srv b) ! i = 1"
        using B(9) i unfolding assms(2) by auto
      ultimately show "pubs s' ! i = 1"
        by (simp add: P P'(2))
    qed
    moreover have "kept (srv b) s'"
      using kept_trans [OF M(2) E(2)] .
    ultimately have "broker_inv n (b\<lparr>srv := s', publishing := ws @ ws'\<rparr>)"
      by (intro broker_inv_change [OF assms(1)]) (use B assms(2) in auto)
    with M(1) E(1) False show thesis
      by (intro leaves) (simp_all add: k(1))
  qed
qed

lemma broker_step_inv:
  assumes "broker_step n b b'" and "broker_inv n b"
  shows "broker_inv n b'"
  using assms
proof (cases rule: broker_step.cases)
  case (step_listen malloc pipe e pipe' s')
  then obtain q where "s' = (srv b)\<lparr>requests_queue := q\<rparr>" "queue_ok s'"
    using listen_queued [OF step_listen(2) broker_invD(2) [OF assms(2)]] by (auto simp: queued_def)
  then show ?thesis
    using broker_invD(1) [OF assms(2)] unfolding step_listen(1) by (intro same_sessions [OF assms(2)]) (simp_all add: held_def)
next
  case (step_serve clients r pipe s')
  show ?thesis
    by (rule worker_step [OF assms(2) step_serve(2), of clients]) (use step_serve(1,3) in simp_all)
next
  case (step_subscribe clients j h pipe s')
  show ?thesis
    by (rule worker_step [OF assms(2) step_subscribe(2), of clients]) (use step_subscribe(1,3) in simp_all)
next
  case (step_wake ws j h pipe ws' j' h' pipe' s')
  show ?thesis
    by (rule wake_step [OF assms(2) step_wake(2)]) (use step_wake(1,3) in simp_all)
next
  case (step_end ws j h pipe ws' r pipe' s')
  show ?thesis
    by (rule wake_step [OF assms(2) step_end(2)]) (use step_end(1,3) in simp_all)
next
  case (step_publish clients req pipe s j h s')
  show ?thesis
    by (rule publish_step [OF assms(2) step_publish(2,3)]) (use step_publish(1,4) in simp_all)
next
  case (step_message ws j h pipe ws' pipe' s')
  show ?thesis
    by (rule message_step [OF assms(2) step_message(2)]) (use step_message(1,3) in simp_all)
next
  case (step_leave ws j h pipe ws' pipe' s s')
  show ?thesis
    by (rule message_step [OF assms(2) step_leave(2)]) (use step_leave(1,3,4) in simp_all)
qed

lemma broker_start_inv:
  assumes "boot_ok env n" and "just_started s" and "0 < n" and "n < 2 ^ 31" and "mbroker_init env n s = Inr (0, s0)"
  shows "broker_inv n (broker_start s0)"
proof -
  obtain f q where B: "fs_inv f" "fs_params f = mbroker_params n" "abs_fs f = empty_afs 1023"
      "pcq_create (buffer_malloc env) (queue_malloc env) n = (0, Some q)"
      "mbroker_init env n s = Inr (0, s\<lparr>fs := f, requests_queue := Some q,
        boxes_table := map (the (boxes_malloc env)) [0..<64], free_boxes := replicate 64 FREE\<rparr>)"
    using mbroker_init_eq [OF assms(1-4)] .
  have "pcq_wf q \<and> ring q = []"
    using B(4) pcq_create_wf [OF assms(3)] assms(1) unfolding boot_ok_def
    by (metis option.exhaust option.inject prod.inject)
  moreover have "s0 = s\<lparr>fs := f, requests_queue := Some q, boxes_table := map (the (boxes_malloc env)) [0..<64], free_boxes := replicate 64 FREE\<rparr>"
    using B(5) assms(5) by simp
  moreover note all_free_table [OF B(1,3) _ _ _ _ this]
  ultimately show ?thesis
    using B(2,3) assms(1,2)
    by (auto simp: broker_inv_def broker_start_def queue_ok_def held_def boot_ok_def just_started_def simp del: upt_rec_numeral)
qed

lemma broker_reachable_inv:
  assumes "(broker_step n)\<^sup>*\<^sup>* b b'" and "broker_inv n b"
  shows "broker_inv n b'"
  using assms by (induction rule: rtranclp_induct) (simp_all add: broker_step_inv)

text \<open>
  A publisher's session that a worker runs from its request to its end, as \<open>workers_reception\<close> has it, is one run of
  these steps: nothing else happens in between.
\<close>

lemma pub_loop_steps:
  assumes "pub_loop j h pipe s = Inr (pipe', s1)" and "pub_end j h s1 = Inr s'" and "srv b = s" and "publishing b = ps @ [(j, h, pipe)]"
  shows "(broker_step n)\<^sup>*\<^sup>* b (b\<lparr>srv := s', publishing := ps\<rparr>)"
  using assms
proof (induction j h pipe s arbitrary: b rule: pub_loop.induct)
  case (1 j h pipe s)
  obtain go_on pipe1 s2 where m: "pub_message j h pipe s = Inr (go_on, pipe1, s2)"
    using 1(2) by (cases "pub_message j h pipe s") (auto simp: pub_loop.simps [of j h pipe])
  show ?case
  proof (cases go_on)
    case True
    let ?b = "b\<lparr>srv := s2, publishing := ps @ [(j, h, pipe1)]\<rparr>"
    have "broker_step n b ?b"
      using step_message [of b ps j h pipe "[]" pipe1 s2 n] 1(4,5) m True by simp
    moreover have "(broker_step n)\<^sup>*\<^sup>* ?b (?b\<lparr>srv := s', publishing := ps\<rparr>)"
      by (rule 1(1) [OF m refl refl True]) (use 1(2,3) m True in \<open>simp_all add: pub_loop.simps [of j h pipe]\<close>)
    ultimately show ?thesis
      using converse_rtranclp_into_rtranclp [of "broker_step n"] by fastforce
  next
    case False
    then have "s1 = s2"
      using 1(2) m by (simp add: pub_loop.simps [of j h pipe])
    then show ?thesis
      using step_leave [of b ps j h pipe "[]" pipe1 s2 s' n] 1(3-5) m False by auto
  qed
qed

lemma publisher_session_steps:
  assumes "broker_inv n b" and "length (sessions b) < n" and "publisher_request clients (srv b) = Some (req, pipe, s)"
    and "workers_reception clients (srv b) = ret (Some (out, pipe', s'))" and "pub_start req s = ret (Some (j, h), s1)"
  shows "broker_step n b (b\<lparr>srv := s1, publishing := publishing b @ [(j, h, pipe)]\<rparr>)"
    and "(broker_step n)\<^sup>*\<^sup>* (b\<lparr>srv := s1, publishing := publishing b @ [(j, h, pipe)]\<rparr>) (b\<lparr>srv := s'\<rparr>)"
proof -
  note T = publisher_taken [OF assms(3) broker_invD(2) [OF assms(1)]]
  show "broker_step n b (b\<lparr>srv := s1, publishing := publishing b @ [(j, h, pipe)]\<rparr>)"
    by (rule step_publish [OF assms(2,3,5)])
  have "returns (workers_handle_pub_register (clients (client_named_pipe_path req)) req s)
      (\<lambda>(r, p, s'). \<exists>s2. pub_loop j h pipe s1 = Inr (p, s2) \<and> pub_end j h s2 = Inr s')"
    unfolding workers_handle_pub_register_def by (simp add: T(5,6) assms(5)) (auto simp: returns_def bindP_eq_ret)
  then obtain s2 where "pub_loop j h pipe s1 = Inr (pipe', s2)" "pub_end j h s2 = Inr s'"
    using assms(4) by (auto simp: T(4) returns_def bindP_eq_ret)
  from pub_loop_steps [OF this, of "b\<lparr>srv := s1, publishing := publishing b @ [(j, h, pipe)]\<rparr>" "publishing b" n]
  show "(broker_step n)\<^sup>*\<^sup>* (b\<lparr>srv := s1, publishing := publishing b @ [(j, h, pipe)]\<rparr>) (b\<lparr>srv := s'\<rparr>)"
    by simp
qed

section \<open>Properties\<close>



text \<open>
  C7. A box never has two publishers: in every state the server can reach, the sessions of publishers are sessions of
  different boxes, and the table counts exactly one publisher for each of these boxes; this holds although a
  box may be removed and its slot reused while its publisher is still there.
\<close>

theorem one_publisher_per_box:
  assumes "boot_ok env n" and "just_started s" and "0 < n" and "n < 2 ^ 31" and "mbroker_init env n s = Inr (0, s0)"
    and "(broker_step n)\<^sup>*\<^sup>* (broker_start s0) b"
  shows "distinct (map fst (publishing b)) \<and> (\<forall>(j, h, pipe) \<in> set (publishing b). n_publishers (boxes_table (srv b) ! j) = 1)"
proof -
  note inv = broker_reachable_inv [OF assms(6) broker_start_inv [OF assms(1-5)]]
  have "n_publishers (boxes_table (srv b) ! j) = 1" if m: "(j, h, pipe) \<in> set (publishing b)" for j h pipe
    using broker_invD(6,9) [OF inv, of j h pipe] table_okD(1) [OF srv_invD(1) [OF broker_invD(1) [OF inv]]] m by (simp add: pubs_def)
  with broker_invD(8) [OF inv] show ?thesis
    by blast
qed

text \<open>A run: requests come in; one that asks for a box to be created is served, one of a publisher starts a session.\<close>

lemma request_queued:
  assumes "well_formed r" and q: "requests_queue (srv b) = Some q" "pcq_wf q" "ring q = []" and room: "0 < pcq_capacity q"
  obtains q' req q'' where "broker_step n b (b\<lparr>srv := (srv b)\<lparr>requests_queue := Some q'\<rparr>\<rparr>)" and "received r req"
    and "pcq_take q' = (req, q'')" and "\<not> pcq_empty q'" and "pcq_buffer q' \<noteq> None"
    and "pcq_wf q''" and "ring q'' = []" and "pcq_capacity q'' = pcq_capacity q"
proof -
  have "on_pipe \<lparr>fifo_bytes = bytes_of r, fifo_outcomes = []\<rparr> (concat (map bytes_of [r]))" "list_all well_formed [r]"
    using assms(1) by (simp_all add: on_pipe_def quiet_def)
  from listen_eq [OF this q(1,2), of "\<lambda>_. NUL"] q(3) room obtain p' q' req where
      L: "listen (Some (\<lambda>_. NUL)) \<lparr>fifo_bytes = bytes_of r, fifo_outcomes = []\<rparr> (srv b) = ret (At_end_of_pipe, p', (srv b)\<lparr>requests_queue := Some q'\<rparr>)"
      "pcq_wf q'" "ring q' = [req]" "received r req" "pcq_capacity q' = pcq_capacity q"
    by (auto simp: list_all2_Cons1)
  obtain q'' where Q: "pcq_take q' = (req, q'')" "\<not> pcq_empty q'" "pcq_buffer q' \<noteq> None" "pcq_wf q''" "ring q'' = []"
    using pcq_take_head [OF L(2,3)] by metis
  have "pcq_capacity q'' = pcq_capacity q'"
    using Q(1) by (auto simp: pcq_take_def pcq_ops)
  then show thesis
    using L(5) by (intro that [OF step_listen [OF L(1)] L(4) Q]) simp
qed

lemma demo_boot_queue:
  obtains q where "mbroker_init demo_boot 2 off_server = Inr (0, demo_server)" and "requests_queue demo_server = Some q"
    and "pcq_wf q" and "ring q = []" and "0 < pcq_capacity q"
proof -
  obtain f q where "mbroker_init demo_boot 2 off_server = Inr (0, off_server\<lparr>fs := f, requests_queue := Some q,
        boxes_table := map (the (boxes_malloc demo_boot)) [0..<64], free_boxes := replicate 64 FREE\<rparr>)"
    by (rule mbroker_init_eq [OF demo_boot_ok, of 2]) simp_all
  then have "mbroker_init demo_boot 2 off_server = Inr (0, demo_server)"
    by (simp add: demo_server_def state_of_def)
  with demo_server_queue that show thesis
    by metis
qed

lemma demo_queued:
  assumes "well_formed r"
  obtains q' req q'' where "mbroker_init demo_boot 2 off_server = Inr (0, demo_server)" and "received r req"
    and "broker_step 2 (broker_start demo_server) \<lparr>srv = demo_server\<lparr>requests_queue := Some q'\<rparr>, waiting = [], publishing = []\<rparr>"
    and "pcq_take q' = (req, q'')" and "\<not> pcq_empty q'" and "pcq_buffer q' \<noteq> None"
    and "pcq_wf q''" and "ring q'' = []" and "0 < pcq_capacity q''"
proof -
  obtain q where I: "mbroker_init demo_boot 2 off_server = Inr (0, demo_server)" "requests_queue demo_server = Some q"
      "pcq_wf q" "ring q = []" "0 < pcq_capacity q"
    by (rule demo_boot_queue)
  from request_queued [OF assms, of "broker_start demo_server" q 2] I(2-5) I(1) that show thesis
    unfolding broker_start_def by (metis broker.select_convs(1) broker.update_convs(1))
qed

lemma demo_two: "(2::nat) < 2 ^ 31"
  by simp

lemma demo_news:
  "well_formed (PROTOCOL_CODE_CREATE_REQUEST, demo_path, Some ''news'')" "well_formed (PROTOCOL_CODE_PUB_REGISTER, demo_path, Some ''news'')"
  "well_formed (PROTOCOL_CODE_SUB_REGISTER, demo_path, Some ''news'')"
  using demo_path_ok by (simp_all add: is_request_def protocol_codes is_cstring_def BOX_NAME_MAX_LEN_def)

lemma demo_run:
  obtains s0 b q where "mbroker_init demo_boot 2 off_server = Inr (0, s0)" and "(broker_step 2)\<^sup>*\<^sup>* (broker_start s0) b"
    and "boxes (srv b) = [''/news'' \<mapsto> []]" and "sessions b = []" and "requests_queue (srv b) = Some q"
    and "pcq_wf q" and "ring q = []" and "0 < pcq_capacity q" and "slot_of (srv b) ''/news'' = Some 0" and "n_publishers (boxes_table (srv b) ! 0) = 0"
proof -
  let ?env = "demo_session" and ?nm = "''/news''"
  obtain q' req q where Q: "mbroker_init demo_boot 2 off_server = Inr (0, demo_server)"
      "received (PROTOCOL_CODE_CREATE_REQUEST, demo_path, Some ''news'') req"
      "broker_step 2 (broker_start demo_server) \<lparr>srv = demo_server\<lparr>requests_queue := Some q'\<rparr>, waiting = [], publishing = []\<rparr>"
      "pcq_take q' = (req, q)" "\<not> pcq_empty q'" "pcq_buffer q' \<noteq> None" "pcq_wf q" "ring q = []" "0 < pcq_capacity q"
    by (rule demo_queued [OF demo_news(1)])
  let ?s = "demo_server\<lparr>requests_queue := Some q\<rparr>"
  note D = demo_server_ok
  have s: "srv_inv ?s" and nm: "terminated (req_box_name req)" "cstr (req_box_name req) = ?nm" and C: "creatable ?nm ?s"
    and room: "\<not> handles_full (fs_params (fs ?s)) (store ?s)"
    using D(1) Q(2) demo_creatable by simp_all
  have len: "length (cstr (req_box_name req)) < BOX_NAME_MAX_LEN"
    unfolding nm(2) by (simp add: BOX_NAME_MAX_LEN_def)
  obtain f j i where N: "free_slot ?s = Some j" "fs_inv f" "fs_params f = fs_params (fs ?s)" "fresh_inode (fs_params (fs ?s)) (store ?s) i"
      "abs_fs f = (store ?s)\<lparr>names := (names (store ?s))(''news'' \<mapsto> i), nodes := (nodes (store ?s))(i \<mapsto> AFile [])\<rparr>"
      "workers_handle_manager_create ?env req ?s =
        ret (0, answered ?env (answer_bytes PROTOCOL_CODE_CREATE_ANSWER 0 []), new_box j ?nm (?s\<lparr>fs := f\<rparr>))"
    using create_new [OF s nm(1) len _ room refl, of ?env] C unfolding nm(2) list.sel by blast
  let ?s2 = "new_box j ?nm (?s\<lparr>fs := f\<rparr>)"
  have "free_boxes demo_server ! 0 = FREE"
    using D(3) slot_of_None [of demo_server] D(5) by (metis (mono_tags, lifting) allocation_state_t.exhaust mbroker_params_simps(1) zero_less_numeral)
  then have j: "j = 0"
    using N(1) D(5) by (auto simp: free_slot_def find_upt_Some_iff)
  have "is_cstring ?nm" "length ?nm < BOX_NAME_MAX_LEN"
    by (simp_all add: is_cstring_def BOX_NAME_MAX_LEN_def)
  note A = srv_inv_after_create [OF s C this N(1-3) _ N(4)]
  have "boxes ?s2 = [?nm \<mapsto> []]" "slot_of ?s2 ?nm = Some 0"
    using A N(5) D(2,3) boxes_after_create [OF s _ N(4), of ?nm f] by (simp_all add: j)
  moreover have "n_publishers (boxes_table ?s2 ! 0) = 0"
    using D(5) demo_server_table by (simp add: j new_box_def demo_boot_def)
  moreover let ?b1 = "\<lparr>srv = demo_server\<lparr>requests_queue := Some q'\<rparr>, waiting = [], publishing = []\<rparr>"
  have "workers_reception (\<lambda>_. ?env) (srv ?b1) = ret (Some (Returned 0, answered ?env (answer_bytes PROTOCOL_CODE_CREATE_ANSWER 0 []), ?s2))"
    using Q(2,4-6) N(6) by (simp add: workers_reception_def protocol_codes)
  then have "broker_step 2 ?b1 \<lparr>srv = ?s2, waiting = [], publishing = []\<rparr>"
    using step_serve [of ?b1 2] by simp
  then have "(broker_step 2)\<^sup>*\<^sup>* (broker_start demo_server) \<lparr>srv = ?s2, waiting = [], publishing = []\<rparr>"
    using Q(3) by (meson converse_rtranclp_into_rtranclp rtranclp.rtrancl_refl)
  ultimately show thesis
    using Q(1,7-9) by (intro that [of demo_server "\<lparr>srv = ?s2, waiting = [], publishing = []\<rparr>" q]) (simp_all add: new_box_def)
qed



theorem one_publisher_per_box_witness:
  "\<exists>s0 b j h pipe. mbroker_init demo_boot 2 off_server = Inr (0, s0) \<and> (broker_step 2)\<^sup>*\<^sup>* (broker_start s0) b \<and>
    publishing b = [(j, h, pipe)] \<and> slot_of (srv b) ''/news'' = Some j \<and> n_publishers (boxes_table (srv b) ! j) = 1"
proof -
  obtain s0 b q where R: "mbroker_init demo_boot 2 off_server = Inr (0, s0)" "(broker_step 2)\<^sup>*\<^sup>* (broker_start s0) b"
      "boxes (srv b) = [''/news'' \<mapsto> []]" "sessions b = []" "requests_queue (srv b) = Some q" "pcq_wf q" "ring q = []" "0 < pcq_capacity q"
      "slot_of (srv b) ''/news'' = Some 0" "n_publishers (boxes_table (srv b) ! 0) = 0"
    by (rule demo_run)
  obtain q' req q'' where Q: "broker_step 2 b (b\<lparr>srv := (srv b)\<lparr>requests_queue := Some q'\<rparr>\<rparr>)"
      "received (PROTOCOL_CODE_PUB_REGISTER, demo_path, Some ''news'') req"
      "pcq_take q' = (req, q'')" "\<not> pcq_empty q'" "pcq_buffer q' \<noteq> None"
    using request_queued [OF demo_news(2) R(5-8), of 2] by metis
  let ?s = "(srv b)\<lparr>requests_queue := Some q''\<rparr>" and ?b1 = "b\<lparr>srv := (srv b)\<lparr>requests_queue := Some q'\<rparr>\<rparr>"
  note inv = broker_reachable_inv [OF R(2) broker_start_inv [OF demo_boot_ok zero_less_numeral demo_two R(1)]]
  have s: "srv_inv ?s" "terminated (req_box_name req)" "''/news'' = cstr (req_box_name req)" "slot_of ?s ''/news'' = Some 0"
    and free: "\<not> handles_full (fs_params (fs ?s)) (store ?s)" "n_publishers (boxes_table ?s ! 0) = 0"
    using broker_invD(1) [OF inv] Q(2) R(9,10) free_handle [OF inv] R(4) by (simp_all add: handles_full_def held_def subset_iff dom_def)
  obtain i where i: "names (store ?s) (tl ''/news'') = Some i" "nodes (store ?s) i = Some (AFile [])" "valid_pathname (Some ''/news'')"
    using R(3) boxes_Some [of "srv b" "''/news''" "[]"] by auto
  obtain h f where P: "pub_start req ?s = ret (Some (0, int h), box_with 0 (\<lambda>b. b\<lparr>n_publishers := 1\<rparr>) (?s\<lparr>fs := f\<rparr>))" "fs_params f = fs_params (fs ?s)"
    using pub_start_ok [OF s i(3,1,2) free(2,1)] by metis
  have "publisher_request (\<lambda>_. demo_session) (srv ?b1) = Some (req, session_pipe demo_session, ?s)"
    using Q(2-5) by (simp add: publisher_request_def protocol_codes demo_session_def)
  from step_publish [OF _ this P(1), of 2] R(4)
  have "broker_step 2 ?b1 (?b1\<lparr>srv := box_with 0 (\<lambda>b. b\<lparr>n_publishers := 1\<rparr>) (?s\<lparr>fs := f\<rparr>), publishing := [(0, int h, session_pipe demo_session)]\<rparr>)"
    by simp
  with R(2) Q(1) have run: "(broker_step 2)\<^sup>*\<^sup>* (broker_start s0) (?b1\<lparr>srv := box_with 0 (\<lambda>b. b\<lparr>n_publishers := 1\<rparr>) (?s\<lparr>fs := f\<rparr>), publishing := [(0, int h, session_pipe demo_session)]\<rparr>)"
    by (meson rtranclp.rtrancl_into_rtrancl)
  have "slot_of (box_with 0 (\<lambda>b. b\<lparr>n_publishers := 1\<rparr>) (?s\<lparr>fs := f\<rparr>)) ''/news'' = Some 0"
    using box_with_inv(2) [where g = "\<lambda>b. b\<lparr>n_publishers := 1\<rparr>" and j = 0 and s = "?s\<lparr>fs := f\<rparr>"] R(9) P(2) by (simp add: slot_of_def)
  moreover from one_publisher_per_box [OF demo_boot_ok zero_less_numeral demo_two R(1) run]
  have "n_publishers (boxes_table (box_with 0 (\<lambda>b. b\<lparr>n_publishers := 1\<rparr>) (?s\<lparr>fs := f\<rparr>)) ! 0) = 1"
    by simp
  ultimately show ?thesis
    using R(1) run by (intro exI [of _ s0] exI [of _ "?b1\<lparr>srv := box_with 0 (\<lambda>b. b\<lparr>n_publishers := 1\<rparr>) (?s\<lparr>fs := f\<rparr>),
      publishing := [(0, int h, session_pipe demo_session)]\<rparr>"] exI [of _ 0] exI [of _ "int h"] exI [of _ "session_pipe demo_session"]) simp
qed

end
