(* ===== verification/Better_Locks.thy ===== *)
theory Better_Locks
  imports Locks
begin

text \<open>
  \<^verbatim>\<open>utils/better-locks.c\<close>: the wrappers of the POSIX functions on read-write locks, mutexes and condition variables, which
  end the process when the function they call fails. The functions themselves are modelled by what POSIX says
  of them, on objects that know which threads hold them: a call blocks, or returns a code and a
  changed object. What happens when the system lacks resources is an argument (the code \<open>r\<close> of the
  initialisations).

  Threads that take and release locks through the wrappers, each along a trace that respects the hierarchy of
  theory \<open>Locks\<close>, are a step relation \<open>lock_step\<close>. No wrapper ever ends the process, and as long as a thread has
  something left to do, some thread can go on (\<open>lock_inv_progress\<close>).
\<close>

section \<open>The POSIX functions\<close>

datatype 't lock_obj = Raw | Free | Read_by "'t list" | Written_by 't

datatype 'o pthread = Blocks 'o | Returns int 'o

definition EPERM :: int where "EPERM = 1"
definition EBUSY :: int where "EBUSY = 16"
definition EINVAL :: int where "EINVAL = 22"
definition EDEADLK :: int where "EDEADLK = 35"

lemmas errnos = EPERM_def EBUSY_def EINVAL_def EDEADLK_def

definition pthread_init :: "int \<Rightarrow> 't lock_obj \<Rightarrow> 't lock_obj pthread" where
  "pthread_init r lock = Returns r (if r = 0 then Free else lock)"

fun pthread_destroy :: "'t lock_obj \<Rightarrow> 't lock_obj pthread" where
  "pthread_destroy Raw = Returns EINVAL Raw"
| "pthread_destroy Free = Returns 0 Raw"
| "pthread_destroy lock = Returns EBUSY lock"

fun pthread_rwlock_rdlock :: "'t \<Rightarrow> 't lock_obj \<Rightarrow> 't lock_obj pthread" where
  "pthread_rwlock_rdlock t Raw = Returns EINVAL Raw"
| "pthread_rwlock_rdlock t Free = Returns 0 (Read_by [t])"
| "pthread_rwlock_rdlock t (Read_by ts) = Returns 0 (Read_by (t # ts))"
| "pthread_rwlock_rdlock t (Written_by u) = (if u = t then Returns EDEADLK (Written_by u) else Blocks (Written_by u))"

fun pthread_rwlock_wrlock :: "'t \<Rightarrow> 't lock_obj \<Rightarrow> 't lock_obj pthread" where
  "pthread_rwlock_wrlock t Raw = Returns EINVAL Raw"
| "pthread_rwlock_wrlock t Free = Returns 0 (Written_by t)"
| "pthread_rwlock_wrlock t (Read_by ts) = (if t \<in> set ts then Returns EDEADLK (Read_by ts) else Blocks (Read_by ts))"
| "pthread_rwlock_wrlock t (Written_by u) = (if u = t then Returns EDEADLK (Written_by u) else Blocks (Written_by u))"

fun pthread_rwlock_unlock :: "'t \<Rightarrow> 't lock_obj \<Rightarrow> 't lock_obj pthread" where
  "pthread_rwlock_unlock t Raw = Returns EINVAL Raw"
| "pthread_rwlock_unlock t Free = Returns EPERM Free"
| "pthread_rwlock_unlock t (Read_by ts) =
     (if t \<notin> set ts then Returns EPERM (Read_by ts)
      else Returns 0 (if remove1 t ts = [] then Free else Read_by (remove1 t ts)))"
| "pthread_rwlock_unlock t (Written_by u) = (if u = t then Returns 0 Free else Returns EPERM (Written_by u))"

text \<open>The mutexes are of the default kind: the owner that locks one again blocks for ever.\<close>

fun pthread_mutex_lock :: "'t \<Rightarrow> 't lock_obj \<Rightarrow> 't lock_obj pthread" where
  "pthread_mutex_lock t Free = Returns 0 (Written_by t)"
| "pthread_mutex_lock t (Written_by u) = Blocks (Written_by u)"
| "pthread_mutex_lock t lock = Returns EINVAL lock"

fun pthread_mutex_unlock :: "'t \<Rightarrow> 't lock_obj \<Rightarrow> 't lock_obj pthread" where
  "pthread_mutex_unlock t (Written_by u) = (if u = t then Returns 0 Free else Returns EPERM (Written_by u))"
| "pthread_mutex_unlock t lock = Returns EPERM lock"

text \<open>
  A condition variable: the threads that wait, and those that have been woken and have still to take their
  mutex again. A thread in \<^verbatim>\<open>pthread_cond_wait\<close> calls the function below again until it returns.
\<close>

datatype 't cond_obj = Cond_raw | Cond "'t list" "'t list"

fun pthread_cond_init :: "int \<Rightarrow> 't cond_obj \<Rightarrow> 't cond_obj pthread" where
  "pthread_cond_init r c = Returns r (if r = 0 then Cond [] [] else c)"

fun pthread_cond_destroy :: "'t cond_obj \<Rightarrow> 't cond_obj pthread" where
  "pthread_cond_destroy Cond_raw = Returns EINVAL Cond_raw"
| "pthread_cond_destroy (Cond ws woken) = (if ws = [] then Returns 0 Cond_raw else Returns EBUSY (Cond ws woken))"

fun pthread_cond_wait :: "'t \<Rightarrow> 't cond_obj \<times> 't lock_obj \<Rightarrow> ('t cond_obj \<times> 't lock_obj) pthread" where
  "pthread_cond_wait t (Cond_raw, m) = Returns EINVAL (Cond_raw, m)"
| "pthread_cond_wait t (Cond ws woken, m) =
     (if t \<in> set ws then Blocks (Cond ws woken, m)
      else if t \<in> set woken then
        (case pthread_mutex_lock t m of
           Blocks m \<Rightarrow> Blocks (Cond ws woken, m)
         | Returns r m \<Rightarrow> Returns r (Cond ws (remove1 t woken), m))
      else
        (case pthread_mutex_unlock t m of
           Blocks m \<Rightarrow> Blocks (Cond ws woken, m)
         | Returns r m \<Rightarrow> if r \<noteq> 0 then Returns r (Cond ws woken, m) else Blocks (Cond (ws @ [t]) woken, m)))"

fun pthread_cond_signal :: "'t cond_obj \<Rightarrow> 't cond_obj pthread" where
  "pthread_cond_signal Cond_raw = Returns EINVAL Cond_raw"
| "pthread_cond_signal (Cond [] woken) = Returns 0 (Cond [] woken)"
| "pthread_cond_signal (Cond (t # ws) woken) = Returns 0 (Cond ws (woken @ [t]))"

fun pthread_cond_broadcast :: "'t cond_obj \<Rightarrow> 't cond_obj pthread" where
  "pthread_cond_broadcast Cond_raw = Returns EINVAL Cond_raw"
| "pthread_cond_broadcast (Cond ws woken) = Returns 0 (Cond [] (woken @ ws))"

section \<open>The wrappers\<close>

text \<open>The test every wrapper makes: \<open>None\<close> means that the call blocks.\<close>

fun checked :: "string \<Rightarrow> 'o pthread \<Rightarrow> 'o res option" where
  "checked msg (Blocks x) = None"
| "checked msg (Returns r x) = Some (if r \<noteq> 0 then Inl (Panic msg) else Inr x)"

definition rwlock_init :: "int \<Rightarrow> 't lock_obj \<Rightarrow> 't lock_obj res option" where
  "rwlock_init r lock = checked ''Failed to initialize rwlock: %s'' (pthread_init r lock)"

definition rwlock_destroy :: "'t lock_obj \<Rightarrow> 't lock_obj res option" where
  "rwlock_destroy lock = checked ''Failed to destroy rwlock: %s'' (pthread_destroy lock)"

definition rwlock_rdlock :: "'t \<Rightarrow> 't lock_obj \<Rightarrow> 't lock_obj res option" where
  "rwlock_rdlock t lock = checked ''Failed to lock rwlock to read-only: %s'' (pthread_rwlock_rdlock t lock)"

definition rwlock_wrlock :: "'t \<Rightarrow> 't lock_obj \<Rightarrow> 't lock_obj res option" where
  "rwlock_wrlock t lock = checked ''Failed to lock rwlock to write-read: %s'' (pthread_rwlock_wrlock t lock)"

definition rwlock_unlock :: "'t \<Rightarrow> 't lock_obj \<Rightarrow> 't lock_obj res option" where
  "rwlock_unlock t lock = checked ''Failed to unlock rwlock: %s'' (pthread_rwlock_unlock t lock)"

definition mutex_init :: "int \<Rightarrow> 't lock_obj \<Rightarrow> 't lock_obj res option" where
  "mutex_init r mutex = checked ''Failed to initialize mutex: %s'' (pthread_init r mutex)"

definition mutex_destroy :: "'t lock_obj \<Rightarrow> 't lock_obj res option" where
  "mutex_destroy mutex = checked ''Failed to destroy mutex: %s'' (pthread_destroy mutex)"

definition mutex_lock :: "'t \<Rightarrow> 't lock_obj \<Rightarrow> 't lock_obj res option" where
  "mutex_lock t mutex = checked ''Failed to lock mutex: %s'' (pthread_mutex_lock t mutex)"

definition mutex_unlock :: "'t \<Rightarrow> 't lock_obj \<Rightarrow> 't lock_obj res option" where
  "mutex_unlock t mutex = checked ''Failed to unlock mutex: %s'' (pthread_mutex_unlock t mutex)"

definition cond_init :: "int \<Rightarrow> 't cond_obj \<Rightarrow> 't cond_obj res option" where
  "cond_init r cond = checked ''Failed to initialize conditional variable: %s'' (pthread_cond_init r cond)"

definition cond_destroy :: "'t cond_obj \<Rightarrow> 't cond_obj res option" where
  "cond_destroy cond = checked ''Failed to destroy conditional variable: %s'' (pthread_cond_destroy cond)"

definition cond_wait :: "'t \<Rightarrow> 't cond_obj \<times> 't lock_obj \<Rightarrow> ('t cond_obj \<times> 't lock_obj) res option" where
  "cond_wait t cm = checked ''Failed to wait for conditional variable: %s'' (pthread_cond_wait t cm)"

definition cond_signal :: "'t cond_obj \<Rightarrow> 't cond_obj res option" where
  "cond_signal cond = checked ''Failed to signal conditional variable: %s'' (pthread_cond_signal cond)"

definition cond_broadcast :: "'t cond_obj \<Rightarrow> 't cond_obj res option" where
  "cond_broadcast cond = checked ''Failed to broadcast conditional variable: %s'' (pthread_cond_broadcast cond)"

text \<open>
  A thread that waits gives up its mutex; once it has been woken and the mutex is free, its call returns
  with the mutex taken.
\<close>

lemma cond_wait_woken:
  assumes "t \<notin> set ws" and "t \<notin> set woken"
  shows "pthread_cond_wait t (Cond ws woken, Written_by t) = Blocks (Cond (ws @ [t]) woken, Free)"
    and "cond_wait t (Cond (ws @ [t]) woken, m) = None"
    and "cond_broadcast (Cond (ws @ [t]) woken) = Some (Inr (Cond [] (woken @ ws @ [t])))"
    and "cond_wait t (Cond [] (woken @ ws @ [t]), Free) = Some (Inr (Cond [] (woken @ ws), Written_by t))"
  using assms by (simp_all add: cond_wait_def cond_broadcast_def remove1_append)

section \<open>Threads\<close>

text \<open>The wrapper call that a lock event stands for.\<close>

fun lock_of :: "lock_event \<Rightarrow> lock_id" where
  "lock_of (Acquire_rd l) = l" | "lock_of (Acquire_wr l) = l" | "lock_of (Release l) = l"

fun lock_call :: "'t \<Rightarrow> lock_event \<Rightarrow> 't lock_obj \<Rightarrow> 't lock_obj res option" where
  "lock_call t (Acquire_rd l) = rwlock_rdlock t"
| "lock_call t (Acquire_wr l) = (if is_rwlock (fst l) then rwlock_wrlock t else mutex_lock t)"
| "lock_call t (Release l) = (if is_rwlock (fst l) then rwlock_unlock t else mutex_unlock t)"

record 't lock_system =
  locks :: "lock_id \<Rightarrow> 't lock_obj"
  todo :: "'t \<Rightarrow> lock_event list"

definition next_call :: "'t lock_system \<Rightarrow> 't \<Rightarrow> 't lock_obj res option" where
  "next_call s t = (case todo s t of [] \<Rightarrow> None | e # es \<Rightarrow> lock_call t e (locks s (lock_of e)))"

inductive lock_step :: "'t lock_system \<Rightarrow> 't lock_system \<Rightarrow> bool" where
  "todo s t = e # es \<Longrightarrow> next_call s t = Some (Inr x) \<Longrightarrow>
    lock_step s (s\<lparr>locks := (locks s)(lock_of e := x), todo := (todo s)(t := es)\<rparr>)"

definition lock_start :: "('t \<Rightarrow> lock_event list) \<Rightarrow> 't lock_system" where
  "lock_start traces = \<lparr>locks = (\<lambda>_. Free), todo = traces\<rparr>"

text \<open>An object that is held by exactly the threads in \<open>H\<close>; a mutex is never held for reading.\<close>

fun obj_ok :: "bool \<Rightarrow> 't set \<Rightarrow> 't lock_obj \<Rightarrow> bool" where
  "obj_ok rw H Raw \<longleftrightarrow> False"
| "obj_ok rw H Free \<longleftrightarrow> H = {}"
| "obj_ok rw H (Read_by ts) \<longleftrightarrow> rw \<and> ts \<noteq> [] \<and> distinct ts \<and> set ts = H"
| "obj_ok rw H (Written_by u) \<longleftrightarrow> H = {u}"

lemmas wrapper_defs = rwlock_rdlock_def rwlock_wrlock_def rwlock_unlock_def mutex_lock_def mutex_unlock_def

lemma acquire_obj:
  assumes "obj_ok (is_rwlock (fst l)) H x" and "t \<notin> H" and "e = Acquire_rd l \<and> is_rwlock (fst l) \<or> e = Acquire_wr l"
  shows "lock_call t e x = None \<and> H \<noteq> {} \<or> (\<exists>x'. lock_call t e x = Some (Inr x') \<and> obj_ok (is_rwlock (fst l)) (insert t H) x')"
  using assms by (cases x) (auto simp: wrapper_defs)

lemma release_obj:
  assumes "obj_ok (is_rwlock (fst l)) H x" and "t \<in> H"
  shows "\<exists>x'. lock_call t (Release l) x = Some (Inr x') \<and> obj_ok (is_rwlock (fst l)) (H - {t}) x'"
proof (cases x)
  case (Read_by ts)
  moreover from this assms have "set (remove1 t ts) = H - {t}" "distinct (remove1 t ts)"
    using set_remove1_eq [of ts t] by simp_all
  ultimately show ?thesis
    using assms by (cases "remove1 t ts") (simp_all add: wrapper_defs)
qed (use assms in \<open>auto simp: wrapper_defs\<close>)

text \<open>\<open>own t\<close> are the locks that thread \<open>t\<close> holds.\<close>

definition lock_inv :: "('t \<Rightarrow> lock_id list) \<Rightarrow> 't lock_system \<Rightarrow> bool" where
  "lock_inv own s \<longleftrightarrow>
     (\<forall>t. distinct (own t) \<and> run_locks (own t) (todo s t) = Some []) \<and>
     (\<forall>l. obj_ok (is_rwlock (fst l)) {t. l \<in> set (own t)} (locks s l))"

lemma lock_invD:
  assumes "lock_inv own s"
  shows "distinct (own t)" and "run_locks (own t) (todo s t) = Some []"
    and "obj_ok (is_rwlock (fst l)) {t. l \<in> set (own t)} (locks s l)"
  using assms unfolding lock_inv_def by blast+

lemma lock_inv_upd:
  assumes "lock_inv own s" and "distinct ls" and "run_locks ls es = Some []" and "\<And>l'. l' \<noteq> l \<Longrightarrow> l' \<in> set ls \<longleftrightarrow> l' \<in> set (own t)"
    and "obj_ok (is_rwlock (fst l)) {u. l \<in> set ((own(t := ls)) u)} x"
  shows "lock_inv (own(t := ls)) (s\<lparr>locks := (locks s)(l := x), todo := (todo s)(t := es)\<rparr>)"
proof -
  have "obj_ok (is_rwlock (fst l')) {u. l' \<in> set ((own(t := ls)) u)} (((locks s)(l := x)) l')" for l'
  proof (cases "l' = l")
    case False
    then have "{u. l' \<in> set ((own(t := ls)) u)} = {u. l' \<in> set (own u)}"
      using assms(4) by auto
    then show ?thesis
      using lock_invD(3) [OF assms(1), of l'] False by simp
  qed (use assms(5) in simp)
  then show ?thesis
    using assms(1-3) unfolding lock_inv_def by simp
qed

text \<open>The next call of a thread blocks on a lock above all it holds, or it succeeds.\<close>

lemma thread_call:
  assumes inv: "lock_inv own s" and next1: "todo s t = e # es"
  obtains (blocks) u where "next_call s t = None" and "lock_of e \<in> set (own u)" and "\<forall>h \<in> set (own t). fst h < fst (lock_of e)"
  | (goes_on) x own' where "next_call s t = Some (Inr x)"
      and "lock_inv own' (s\<lparr>locks := (locks s)(lock_of e := x), todo := (todo s)(t := es)\<rparr>)"
proof -
  define l where "l = lock_of e"
  define H where "H = {u. l \<in> set (own u)}"
  have run: "run_locks (own t) (e # es) = Some []"
    using lock_invD(2) [OF inv, of t] next1 by simp
  have obj: "obj_ok (is_rwlock (fst l)) H (locks s l)"
    using lock_invD(3) [OF inv, of l] by (simp add: H_def)
  have call: "next_call s t = lock_call t e (locks s l)"
    by (simp add: next_call_def next1 l_def)
  show thesis
  proof (cases "e = Release l")
    case True
    then have l: "l \<in> set (own t)" and es: "run_locks (remove1 l (own t)) es = Some []"
      using run by (auto split: if_splits)
    obtain x where x: "lock_call t e (locks s l) = Some (Inr x)" "obj_ok (is_rwlock (fst l)) (H - {t}) x"
      using release_obj [OF obj, of t] l True by (auto simp: H_def)
    have rem: "set (remove1 l (own t)) = set (own t) - {l}"
      using lock_invD(1) [OF inv] by (rule set_remove1_eq)
    have "lock_inv (own(t := remove1 l (own t))) (s\<lparr>locks := (locks s)(l := x), todo := (todo s)(t := es)\<rparr>)"
    proof (rule lock_inv_upd [OF inv _ es])
      have "{u. l \<in> set ((own(t := remove1 l (own t))) u)} = H - {t}"
        using rem by (auto simp: H_def)
      with x(2) show "obj_ok (is_rwlock (fst l)) {u. l \<in> set ((own(t := remove1 l (own t))) u)} x"
        by simp
    qed (use lock_invD(1) [OF inv] rem in auto)
    with x(1) show thesis
      using call goes_on l_def by simp
  next
    case False
    then have e: "e = Acquire_rd l \<and> is_rwlock (fst l) \<or> e = Acquire_wr l" and may: "may_acquire (own t) l" and es: "run_locks (l # own t) es = Some []"
      using run by (cases e; auto simp: l_def split: if_splits)+
    have below: "\<forall>h \<in> set (own t). fst h < fst l"
      using may by (simp add: may_acquire_def)
    then have l: "l \<notin> set (own t)"
      by auto
    from acquire_obj [OF obj _ e, of t] l consider "lock_call t e (locks s l) = None" "H \<noteq> {}"
      | x where "lock_call t e (locks s l) = Some (Inr x)" "obj_ok (is_rwlock (fst l)) (insert t H) x"
      by (auto simp: H_def)
    then show thesis
    proof cases
      case 1
      then obtain u where "l \<in> set (own u)"
        by (auto simp: H_def)
      with 1 below show thesis
        by (intro blocks [of u]) (simp_all add: call l_def)
    next
      case 2
      have "{u. l \<in> set ((own(t := l # own t)) u)} = insert t H"
        by (auto simp: H_def)
      then have "lock_inv (own(t := l # own t)) (s\<lparr>locks := (locks s)(l := x), todo := (todo s)(t := es)\<rparr>)"
        by (intro lock_inv_upd [OF inv _ es]) (use lock_invD(1) [OF inv] l 2(2) in auto)
      then show thesis
        using goes_on 2(1) call by (simp add: l_def)
    qed
  qed
qed

lemma lock_step_inv:
  assumes "lock_step s s'" and "lock_inv own s"
  shows "\<exists>own'. lock_inv own' s'"
  using assms(1)
proof cases
  case (1 t e es x)
  show ?thesis
    by (rule thread_call [OF assms(2) 1(2)]) (use 1 in auto)
qed

lemma lock_start_inv: "(\<And>t. run_locks [] (traces t) = Some []) \<Longrightarrow> lock_inv (\<lambda>_. []) (lock_start traces)"
  by (simp add: lock_inv_def lock_start_def)

lemma lock_reachable_inv:
  assumes "lock_step\<^sup>*\<^sup>* s s'" and "lock_inv own s"
  shows "\<exists>own'. lock_inv own' s'"
  using assms by (induction rule: rtranclp_induct) (auto dest: lock_step_inv)

text \<open>Among the threads that have something left to do, one that waits for a lock of the largest class can go on.\<close>

lemma lock_inv_progress:
  assumes inv: "lock_inv own s" and busy: "todo s t \<noteq> []"
  shows "\<exists>s'. lock_step s s'"
proof -
  define rank where "rank t = lock_rank (fst (lock_of (hd (todo s t))))" for t
  have "\<forall>t. todo s t \<noteq> [] \<longrightarrow> rank t < 10"
    using lock_rank_less unfolding rank_def by blast
  from ex_has_greatest_nat [of "\<lambda>t. todo s t \<noteq> []" t rank 10, OF busy this]
  obtain u where u: "todo s u \<noteq> []" "\<And>v. todo s v \<noteq> [] \<Longrightarrow> rank v \<le> rank u"
    by metis
  then obtain e es where e: "todo s u = e # es"
    by (cases "todo s u") auto
  from inv e show ?thesis
  proof (cases rule: thread_call)
    case (blocks v)
    have v: "todo s v \<noteq> []"
      using lock_invD(2) [OF inv, of v] blocks(2) by auto
    then obtain e' es' where e': "todo s v = e' # es'"
      by (cases "todo s v") auto
    from inv e' show ?thesis
    proof (cases rule: thread_call)
      case (blocks w)
      then have "fst (lock_of e) < fst (lock_of e')"
        using \<open>lock_of e \<in> set (own v)\<close> by blast
      then have "rank u < rank v"
        using e e' by (simp add: rank_def less_lock_class_def)
      with u(2) [OF v] show ?thesis by simp
    next
      case (goes_on x own')
      with e' show ?thesis by (blast intro: lock_step.intros)
    qed
  next
    case (goes_on x own')
    with e show ?thesis by (blast intro: lock_step.intros)
  qed
qed

lemma lock_inv_no_panic:
  assumes "lock_inv own s"
  shows "next_call s t \<noteq> Some (Inl f)"
proof (cases "todo s t")
  case (Cons e es)
  show ?thesis
    by (rule thread_call [OF assms Cons]) auto
qed (simp add: next_call_def)

lemma lock_inv_done:
  assumes "lock_inv own s" and "\<And>t. todo s t = []"
  shows "locks s l = Free"
proof -
  have "own t = []" for t
    using lock_invD(2) [OF assms(1), of t] assms(2) by simp
  then show ?thesis
    using lock_invD(3) [OF assms(1), of l] by (cases "locks s l") auto
qed

lemma threads_progress:
  assumes "\<And>t. run_locks [] (traces t) = Some []" and "lock_step\<^sup>*\<^sup>* (lock_start traces) s"
  shows "(\<forall>t f. next_call s t \<noteq> Some (Inl f)) \<and> ((\<exists>s'. lock_step s s') \<or> (\<forall>t. todo s t = []) \<and> (\<forall>l. locks s l = Free))"
proof -
  obtain own where inv: "lock_inv own s"
    using lock_reachable_inv [OF assms(2) lock_start_inv [OF assms(1)]] by blast
  show ?thesis
    using lock_inv_no_panic [OF inv] lock_inv_progress [OF inv] lock_inv_done [OF inv] by blast
qed

end
