(* ===== verification/Server_Locks.thy ===== *)
theory Server_Locks
  imports Server_Machine Better_Locks
begin

text \<open>
  The locks of the server: every handler takes its locks in the order of the hierarchy of theory \<open>Locks\<close>, above
  those of the file system, and gives all of them back. \<open>paced C s s'\<close> says so of the events between
  two states.
\<close>

declare abs_fs_select [simp del]










section \<open>Calls of the file system\<close>





section \<open>The table of boxes\<close>


lemma lock_below [simp]: "Free_boxes_lock \<le> C" "Box_mutex \<le> Link_lock" "Box_mutex < Link_lock" "Free_boxes_lock < Box_mutex"
  by (simp_all add: less_lock_class_def less_eq_lock_class_def)




section \<open>The handlers\<close>




























section \<open>The machine\<close>









section \<open>Properties\<close>






end
