(* ===== verification/MBroker_Args.thy ===== *)
theory MBroker_Args
  imports MBroker_Init Clients
begin

text \<open>
  The arguments of the server: its name, the register pipe and the number of sessions, a decimal number that
  \<^verbatim>\<open>strtol\<close> reads, as the C standard describes it in the C locale.
\<close>

section \<open>Reading a number\<close>

definition isspace :: "char \<Rightarrow> bool" where
  "isspace c \<longleftrightarrow> c = CHR '' '' \<or> c = CHR 0x09 \<or> c = newline \<or> c = CHR 0x0B \<or> c = CHR 0x0C \<or> c = CHR 0x0D"

definition isdigit :: "char \<Rightarrow> bool" where
  "isdigit c \<longleftrightarrow> (48::nat) \<le> of_char c \<and> of_char c \<le> (57::nat)"

definition digits_value :: "string \<Rightarrow> nat" where
  "digits_value ds = foldl (\<lambda>v c. 10 * v + (of_char c - 48)) 0 ds"

definition LONG_MIN :: int where "LONG_MIN = - (2 ^ 63)"
definition LONG_MAX :: int where "LONG_MAX = 2 ^ 63 - 1"

text \<open>\<^verbatim>\<open>strtol\<close> with base 10: the number, whether \<^verbatim>\<open>errno\<close> is set to \<^verbatim>\<open>ERANGE\<close>, and the text at \<^verbatim>\<open>*endptr\<close>.\<close>

definition strtol :: "string \<Rightarrow> int \<times> bool \<times> string" where
  "strtol s =
     (let t = dropWhile isspace s;
          negative = t \<noteq> [] \<and> hd t = CHR ''-'';
          u = if t \<noteq> [] \<and> (hd t = CHR ''-'' \<or> hd t = CHR ''+'') then tl t else t;
          digits = takeWhile isdigit u;
          v = (if negative then - int (digits_value digits) else int (digits_value digits))
      in if digits = [] then (0, False, s)
         else (max LONG_MIN (min LONG_MAX v), v < LONG_MIN \<or> LONG_MAX < v, dropWhile isdigit u))"

section \<open>The program\<close>

definition max_sessions_argument :: "string \<Rightarrow> nat option" where
  "max_sessions_argument t =
     (case strtol t of
        (max_sessions, range_error, p) \<Rightarrow>
          if range_error \<or> p \<noteq> [] \<or> max_sessions \<le> 0 then None else Some (nat max_sessions))"

definition print_usage :: string where
  "print_usage = ''Usage: mbroker <register_pipe_name> <max_sessions>'' @ [newline]"

text \<open>All of \<^verbatim>\<open>main\<close>: the exit status, what is printed, and the server.\<close>

definition mbroker_program ::
  "boot_env \<Rightarrow> string list \<Rightarrow> bool \<Rightarrow> (nat \<Rightarrow> char) option \<Rightarrow> listen_round list \<Rightarrow> server \<Rightarrow>
    (int option \<times> string \<times> server) res option" where
  "mbroker_program env argv opens malloc rounds s =
     (if length argv \<noteq> 3 then ret (Some 1, print_usage, s)
      else
        case max_sessions_argument (argv ! 2) of
          None \<Rightarrow> ret (Some 1, ''Number of max sessions is invalid.'' @ [newline], s)
        | Some max_sessions \<Rightarrow>
            bindP (mbroker_main env max_sessions opens malloc rounds s) (\<lambda>(r, s). ret (r, [], s)))"

section \<open>Decimal numbers\<close>

lemma digits_value_simps [simp]: "digits_value [] = 0" "digits_value (ds @ [c]) = 10 * digits_value ds + (of_char c - 48)"
  by (simp_all add: digits_value_def)

lemma isdigit_char: "d < 10 \<Longrightarrow> isdigit (char_of (48 + d :: nat))" "d < 10 \<Longrightarrow> of_char (char_of (48 + d :: nat)) = 48 + d"
  by (simp_all add: isdigit_def)

lemma decimal_digits: "list_all isdigit (decimal n) \<and> decimal n \<noteq> [] \<and> digits_value (decimal n) = n"
proof (induction n rule: decimal.induct)
  case (1 n)
  show ?case
  proof (cases "n < 10")
    case True
    then show ?thesis
      using isdigit_char [of n] digits_value_simps(2) [of "[]"] by (simp add: decimal.simps [of n])
  next
    case False
    then show ?thesis
      using 1 isdigit_char [of "n mod 10"] by (simp add: decimal.simps [of n])
  qed
qed

lemma digits_zeros: "digits_value (replicate z CHR ''0'' @ ds) = digits_value ds"
proof -
  have "foldl (\<lambda>v c. 10 * v + (of_char c - 48)) 0 (replicate z CHR ''0'') = (0::nat)"
    by (induction z) simp_all
  then show ?thesis
    by (simp add: digits_value_def)
qed

text \<open>Every sequence of digits is its number in decimal behind zeros.\<close>

lemma digits_decimal:
  assumes "list_all isdigit ds"
  shows "if digits_value ds = 0 then ds = replicate (length ds) CHR ''0''
    else \<exists>z. ds = replicate z CHR ''0'' @ decimal (digits_value ds)"
  using assms
proof (induction ds rule: rev_induct)
  case (snoc c ds)
  define d where "d = of_char c - (48::nat)"
  have d: "d < 10" "c = char_of (48 + d)"
    using snoc.prems by (auto simp: d_def isdigit_def)
  have v: "digits_value (ds @ [c]) = 10 * digits_value ds + d"
    by (simp add: d_def)
  have IH: "if digits_value ds = 0 then ds = replicate (length ds) CHR ''0''
      else \<exists>z. ds = replicate z CHR ''0'' @ decimal (digits_value ds)"
    using snoc by simp
  show ?case
  proof (cases "digits_value ds = 0")
    case True
    then have ds: "ds @ [c] = replicate (length ds) CHR ''0'' @ [char_of (48 + d)]"
      using IH d(2) by simp
    show ?thesis
    proof (cases "d = 0")
      case True
      have "char_of (48::nat) = CHR ''0''"
        by (simp add: char_of_eq_iff)
      with True ds v \<open>digits_value ds = 0\<close> show ?thesis
        by (simp add: replicate_append_same)
    next
      case False
      then show ?thesis
        using ds v d(1) \<open>digits_value ds = 0\<close> by (auto simp: decimal.simps [of d])
    qed
  next
    case False
    then obtain z where "ds = replicate z CHR ''0'' @ decimal (digits_value ds)"
      using IH by auto
    then show ?thesis
      using v d False by (auto simp: decimal.simps [of "10 * digits_value ds + d"])
  qed
qed simp

section \<open>The numbers that are accepted\<close>

text \<open>The spellings of a number: white space, at most a plus sign, zeros, and the number in decimal.\<close>

definition spells :: "string \<Rightarrow> nat \<Rightarrow> bool" where
  "spells t n \<longleftrightarrow>
     (\<exists>ws sign z. list_all isspace ws \<and> (sign = [] \<or> sign = ''+'') \<and> t = ws @ sign @ replicate z CHR ''0'' @ decimal n)"

lemma no_space: "isdigit c \<Longrightarrow> \<not> isspace c \<and> c \<noteq> CHR ''+'' \<and> c \<noteq> CHR ''-''"
  by (auto simp: isdigit_def isspace_def)

lemma dropWhile_digits: "list_all isdigit ds \<Longrightarrow> takeWhile isdigit ds = ds \<and> dropWhile isdigit ds = []"
  by (simp add: list_all_iff takeWhile_eq_all_conv dropWhile_eq_Nil_conv)

lemma strtol_digits:
  assumes "list_all isspace ws" and "sign = [] \<or> sign = ''+''" and "list_all isdigit ds" and "ds \<noteq> []"
  shows "strtol (ws @ sign @ ds) = (max LONG_MIN (min LONG_MAX (int (digits_value ds))), LONG_MAX < int (digits_value ds), [])"
proof -
  obtain c cs where ds: "ds = c # cs"
    using assms(4) by (cases ds) auto
  have c: "\<not> isspace c" "c \<noteq> CHR ''+''" "c \<noteq> CHR ''-''"
    using assms(3) no_space [of c] by (simp_all add: ds)
  have "\<not> isspace (hd (sign @ ds))" "sign @ ds \<noteq> []"
    using assms(2) c(1) by (auto simp: ds isspace_def)
  then have t: "dropWhile isspace (ws @ sign @ ds) = sign @ ds"
    using assms(1) by (cases "sign @ ds") (simp_all add: dropWhile_append2 list_all_iff)
  have u: "(if sign @ ds \<noteq> [] \<and> (hd (sign @ ds) = CHR ''-'' \<or> hd (sign @ ds) = CHR ''+'') then tl (sign @ ds) else sign @ ds) = ds"
      "\<not> (sign @ ds \<noteq> [] \<and> hd (sign @ ds) = CHR ''-'')"
    using assms(2) c by (auto simp: ds)
  have "\<not> int (digits_value ds) < LONG_MIN"
    by (simp add: LONG_MIN_def)
  then show ?thesis
    unfolding strtol_def Let_def t u(1) using dropWhile_digits [OF assms(3)] u(2) assms(4) by (simp only: if_False) simp
qed

lemma strtol_positive:
  assumes "strtol t = (v, False, [])" and "0 < v"
  shows "spells t (nat v) \<and> v < 2 ^ 63"
proof -
  define r where "r = dropWhile isspace t"
  define u where "u = (if r \<noteq> [] \<and> (hd r = CHR ''-'' \<or> hd r = CHR ''+'') then tl r else r)"
  define ds where "ds = takeWhile isdigit u"
  define x where "x = (if r \<noteq> [] \<and> hd r = CHR ''-'' then - int (digits_value ds) else int (digits_value ds))"
  have S: "(if ds = [] then (0, False, t) else (max LONG_MIN (min LONG_MAX x), x < LONG_MIN \<or> LONG_MAX < x, dropWhile isdigit u)) = (v, False, [])"
    using assms(1) unfolding strtol_def Let_def r_def u_def ds_def x_def .
  then have ne: "ds \<noteq> []"
    using assms(2) by (cases "ds = []") simp_all
  have P: "max LONG_MIN (min LONG_MAX x) = v \<and> (x < LONG_MIN \<or> LONG_MAX < x) = False \<and> dropWhile isdigit u = []"
    using S unfolding if_not_P [OF ne] prod.inject .
  then have rest: "dropWhile isdigit u = []" and range: "LONG_MIN \<le> x" "x \<le> LONG_MAX"
    by auto
  have vx: "v = x" "x \<le> LONG_MAX"
    using P range by (simp_all only: min_absorb2 max_absorb2)
  have plus: "\<not> (r \<noteq> [] \<and> hd r = CHR ''-'')"
    using assms(2) unfolding vx(1) x_def by (simp split: if_splits)
  then have v: "v = int (digits_value ds)" "v \<le> LONG_MAX"
    using vx unfolding x_def if_not_P [OF plus] by simp_all
  have u: "ds = u"
    using rest takeWhile_dropWhile_id [of isdigit u] by (simp add: ds_def)
  have digits: "list_all isdigit ds"
    by (auto simp: ds_def list_all_iff dest: set_takeWhileD)
  then obtain z where z: "ds = replicate z CHR ''0'' @ decimal (nat v)"
    using digits_decimal [OF digits] v(1) assms(2) by (auto split: if_splits)
  obtain sign where sign: "sign = [] \<or> sign = ''+''" "r = sign @ u"
  proof (cases "r \<noteq> [] \<and> hd r = CHR ''+''")
    case True
    then have "r = ''+'' @ u"
      by (cases r) (simp_all add: u_def)
    with that show thesis
      by blast
  next
    case False
    then have "r = [] @ u"
      using plus by (auto simp: u_def)
    with that show thesis
      by blast
  qed
  have "t = takeWhile isspace t @ sign @ replicate z CHR ''0'' @ decimal (nat v)"
    using takeWhile_dropWhile_id [of isspace t, symmetric] unfolding r_def [symmetric] sign(2) u [symmetric] z .
  moreover have "list_all isspace (takeWhile isspace t)"
    by (auto simp: list_all_iff dest: set_takeWhileD)
  ultimately have "spells t (nat v)"
    using sign(1) unfolding spells_def by blast
  moreover have "v < 2 ^ 63"
    using v(2) by (simp add: LONG_MAX_def)
  ultimately show ?thesis ..
qed

lemma max_sessions_argument_eq: "max_sessions_argument t = Some n \<longleftrightarrow> 0 < n \<and> n < 2 ^ 63 \<and> spells t n"
proof
  assume a: "max_sessions_argument t = Some n"
  obtain v e p where s: "strtol t = (v, e, p)"
    by (metis prod_cases3)
  then have "strtol t = (v, False, [])" "0 < v" "n = nat v"
    using a by (auto simp: max_sessions_argument_def split: if_splits)
  then show "0 < n \<and> n < 2 ^ 63 \<and> spells t n"
    using strtol_positive [of t v] by auto
next
  assume a: "0 < n \<and> n < 2 ^ 63 \<and> spells t n"
  then obtain ws sign z where t: "list_all isspace ws" "sign = [] \<or> sign = ''+''" "t = ws @ sign @ replicate z CHR ''0'' @ decimal n"
    unfolding spells_def by blast
  have ds: "list_all isdigit (replicate z CHR ''0'' @ decimal n)" "replicate z CHR ''0'' @ decimal n \<noteq> []"
    using decimal_digits [of n] by (auto simp: list_all_iff isdigit_def)
  have "digits_value (replicate z CHR ''0'' @ decimal n) = n"
    using decimal_digits [of n] by (simp add: digits_zeros)
  then have "strtol t = (int n, False, [])"
    using strtol_digits [OF t(1,2) ds] a by (auto simp: t(3) LONG_MIN_def LONG_MAX_def)
  then show "max_sessions_argument t = Some n"
    using a by (simp add: max_sessions_argument_def)
qed

section \<open>Properties\<close>

text \<open>
  C33. The server runs with \<open>n\<close> sessions exactly when its second argument is a spelling of \<open>n\<close> and \<open>n\<close> is positive and
  fits in a \<^verbatim>\<open>long\<close>: white space, a plus sign and zeros may come first, nothing may follow. Any other argument, an
  empty, negative or too large one included, ends it with the exit status 1 and a message, before anything is set up.
\<close>

theorem mbroker_reads_max_sessions:
  "(0 < n \<and> n < 2 ^ 63 \<and> spells t n \<longrightarrow>
      mbroker_program env [prog, register_pipename, t] opens malloc rounds s =
        bindP (mbroker_main env n opens malloc rounds s) (\<lambda>(r, s). ret (r, [], s))) \<and>
    ((\<nexists>m. 0 < m \<and> m < 2 ^ 63 \<and> spells t m) \<longrightarrow>
      mbroker_program env [prog, register_pipename, t] opens malloc rounds s =
        ret (Some 1, ''Number of max sessions is invalid.'' @ [newline], s))"
proof (cases "max_sessions_argument t")
  case None
  then show ?thesis
    using max_sessions_argument_eq [of t n] by (auto simp: mbroker_program_def)
next
  case (Some m)
  then have m: "0 < k \<and> k < 2 ^ 63 \<and> spells t k \<longleftrightarrow> k = m" for k
    using max_sessions_argument_eq [of t k] by auto
  show ?thesis
    unfolding m using Some by (simp add: mbroker_program_def)
qed

theorem mbroker_reads_max_sessions_witness:
  "mbroker_program demo_boot [''mbroker'', ''/tmp/r'', '' +007''] True None [] off_server =
      bindP (mbroker_main demo_boot 7 True None [] off_server) (\<lambda>(r, s). ret (r, [], s)) \<and>
    mbroker_program demo_boot [''mbroker'', ''/tmp/r'', ''''] True None [] off_server =
      ret (Some 1, ''Number of max sessions is invalid.'' @ [newline], off_server)"
proof -
  have "decimal 7 = ''7''"
    by code_simp
  then have "spells '' +007'' 7"
    unfolding spells_def
    by (intro exI [of _ "'' ''"] exI [of _ "''+''"] exI [of _ 2]) (simp add: isspace_def numeral_2_eq_2)
  moreover have "\<nexists>n. 0 < n \<and> n < 2 ^ 63 \<and> spells '''' n"
    using decimal_digits by (auto simp: spells_def)
  ultimately show ?thesis
    using mbroker_reads_max_sessions [of 7 "'' +007''" demo_boot "''mbroker''" "''/tmp/r''" True None "[]" off_server]
      mbroker_reads_max_sessions [of 7 "''''" demo_boot "''mbroker''" "''/tmp/r''" True None "[]" off_server]
    by simp
qed

end
