(* ===== verification/Logging.thy ===== *)
theory Logging
  imports Clients "HOL-Library.Sublist"
begin

text \<open>
  The logging macros of \<^verbatim>\<open>utils/logging.h\<close>: what a sequence of calls writes to the standard error stream at each
  level. A call is given its message after the conversions of \<^verbatim>\<open>printf\<close>; \<^verbatim>\<open>PANIC\<close> ends the process.
\<close>

datatype log_level_t = LOG_QUIET | LOG_NORMAL | LOG_VERBOSE

fun level_value :: "log_level_t \<Rightarrow> nat" where
  "level_value LOG_QUIET = 0"
| "level_value LOG_NORMAL = 1"
| "level_value LOG_VERBOSE = 2"

lemma level_value_inj: "level_value k = level_value l \<longleftrightarrow> k = l"
  by (cases k; cases l) simp_all

instantiation log_level_t :: linorder
begin

definition less_eq_log_level_t :: "log_level_t \<Rightarrow> log_level_t \<Rightarrow> bool" where
  "less_eq_log_level_t k l \<longleftrightarrow> level_value k \<le> level_value l"

definition less_log_level_t :: "log_level_t \<Rightarrow> log_level_t \<Rightarrow> bool" where
  "less_log_level_t k l \<longleftrightarrow> level_value k < level_value l"

instance
  by standard (auto simp: less_eq_log_level_t_def less_log_level_t_def level_value_inj)

end

text \<open>The global level, what has been written, one entry for each call of \<^verbatim>\<open>fprintf\<close>, and the status of a process that has ended.\<close>

record log_state =
  g_level :: log_level_t
  err_out :: "string list"
  exit_status :: "int option"

record log_place =
  place_file :: string
  place_line :: nat
  place_func :: string

definition log_initial :: log_state where
  "log_initial = \<lparr>g_level = LOG_QUIET, err_out = [], exit_status = None\<rparr>"

definition set_log_level :: "log_level_t \<Rightarrow> log_state \<Rightarrow> log_state" where
  "set_log_level level s = s\<lparr>g_level := level\<rparr>"

text \<open>\<^verbatim>\<open>snprintf\<close> into the buffer of 2048 bytes, and the line that \<^verbatim>\<open>fprintf\<close> writes.\<close>

definition log_buf :: "string \<Rightarrow> string" where
  "log_buf msg = take 2047 msg"

definition log_line :: "string \<Rightarrow> log_place \<Rightarrow> string \<Rightarrow> string" where
  "log_line tag p buf = tag @ place_file p @ '':'' @ decimal (place_line p) @ '' :: '' @ place_func p @ '' :: '' @ buf @ [newline]"

abbreviation write_log :: "string \<Rightarrow> log_place \<Rightarrow> string \<Rightarrow> log_state \<Rightarrow> log_state" where
  "write_log tag p msg s \<equiv> s\<lparr>err_out := err_out s @ [log_line tag p (log_buf msg)]\<rparr>"

definition INFO :: "log_place \<Rightarrow> string \<Rightarrow> log_state \<Rightarrow> log_state" where
  "INFO p msg s = write_log ''[INFO]:  '' p msg s"

definition PANIC :: "log_place \<Rightarrow> string \<Rightarrow> log_state \<Rightarrow> log_state" where
  "PANIC p msg s = (write_log ''[PANIC]: '' p msg s)\<lparr>exit_status := Some 1\<rparr>"

definition WARN :: "log_place \<Rightarrow> string \<Rightarrow> log_state \<Rightarrow> log_state" where
  "WARN p msg s = (if g_level s = LOG_NORMAL \<or> g_level s = LOG_VERBOSE then write_log ''[WARN]:  '' p msg s else s)"

definition LOG :: "log_place \<Rightarrow> string \<Rightarrow> log_state \<Rightarrow> log_state" where
  "LOG p msg s = (if g_level s = LOG_NORMAL \<or> g_level s = LOG_VERBOSE then write_log ''[LOG]:   '' p msg s else s)"

definition DEBUG :: "log_place \<Rightarrow> string \<Rightarrow> log_state \<Rightarrow> log_state" where
  "DEBUG p msg s = (if g_level s = LOG_VERBOSE then write_log ''[DEBUG]: '' p msg s else s)"

section \<open>Sequences of calls\<close>

datatype log_call = Call_info log_place string | Call_panic log_place string | Call_warn log_place string
  | Call_log log_place string | Call_debug log_place string

fun log_exec :: "log_call \<Rightarrow> log_state \<Rightarrow> log_state" where
  "log_exec (Call_info p msg) s = INFO p msg s"
| "log_exec (Call_panic p msg) s = PANIC p msg s"
| "log_exec (Call_warn p msg) s = WARN p msg s"
| "log_exec (Call_log p msg) s = LOG p msg s"
| "log_exec (Call_debug p msg) s = DEBUG p msg s"

text \<open>A process that has ended makes no more calls.\<close>

definition log_run :: "log_call list \<Rightarrow> log_state \<Rightarrow> log_state" where
  "log_run cs s = fold (\<lambda>c s. if exit_status s = None then log_exec c s else s) cs s"

lemmas log_macros = INFO_def PANIC_def WARN_def LOG_def DEBUG_def

text \<open>A state that has written less, at a lower level.\<close>

definition quieter :: "log_state \<Rightarrow> log_state \<Rightarrow> bool" where
  "quieter s t \<longleftrightarrow> g_level s \<le> g_level t \<and> subseq (err_out s) (err_out t) \<and> exit_status s = exit_status t"

lemma log_exec_quieter: "quieter s t \<Longrightarrow> quieter (log_exec c s) (log_exec c t)"
  by (cases c; cases "g_level s"; cases "g_level t")
    (auto simp: quieter_def log_macros less_eq_log_level_t_def intro: list_emb_append_mono subseq_rev_drop_many)

lemma log_run_quieter: "quieter s t \<Longrightarrow> quieter (log_run cs s) (log_run cs t)"
  unfolding log_run_def
proof (induction cs arbitrary: s t)
  case (Cons c cs)
  have "exit_status s = exit_status t"
    using Cons.prems by (simp add: quieter_def)
  with Cons log_exec_quieter [OF Cons.prems] show ?case
    by simp
qed simp

text \<open>At a lower level the same calls write some of the lines, in the same order, and end the process at the same call.\<close>

lemma lower_level_writes_less:
  assumes "k \<le> l"
  shows "subseq (err_out (log_run cs (set_log_level k s))) (err_out (log_run cs (set_log_level l s)))"
    and "exit_status (log_run cs (set_log_level k s)) = exit_status (log_run cs (set_log_level l s))"
proof -
  have "quieter (set_log_level k s) (set_log_level l s)"
    using assms by (simp add: quieter_def set_log_level_def)
  from log_run_quieter [OF this, of cs]
  show "subseq (err_out (log_run cs (set_log_level k s))) (err_out (log_run cs (set_log_level l s)))"
    "exit_status (log_run cs (set_log_level k s)) = exit_status (log_run cs (set_log_level l s))"
    by (simp_all add: quieter_def)
qed

text \<open>No program of the repository changes the level, so warnings are never seen.\<close>

lemma initial_level_hides_warnings:
  "err_out (log_run cs log_initial) = err_out (log_run (filter (\<lambda>c. case c of Call_info _ _ \<Rightarrow> True | Call_panic _ _ \<Rightarrow> True | _ \<Rightarrow> False) cs) log_initial)"
proof -
  have "log_run cs s = log_run (filter (\<lambda>c. case c of Call_info _ _ \<Rightarrow> True | Call_panic _ _ \<Rightarrow> True | _ \<Rightarrow> False) cs) s" if "g_level s = LOG_QUIET" for s
    using that
  proof (induction cs arbitrary: s)
    case (Cons c cs)
    have "g_level (log_exec c s) = LOG_QUIET"
      using Cons.prems by (cases c) (simp_all add: log_macros)
    with Cons show ?case
      by (cases c) (auto simp: log_run_def log_macros)
  qed simp
  then show ?thesis
    by (simp add: log_initial_def)
qed

end
