(* ===== verification/Spec2Isabelle.thy ===== *)
theory Spec2Isabelle
  imports FS_Props FS_Results PC_Props Message_Text Manager_Program Stale_Sessions Server_Locks MBroker_Args Logging
begin

text \<open>
  TecnicoFS: a small file system in memory (\<^verbatim>\<open>src/fs\<close>), and a publish/subscribe message broker built on it (\<^verbatim>\<open>src/mbroker\<close>)
  with three client programs (\<^verbatim>\<open>src/manager\<close>, \<^verbatim>\<open>src/publisher\<close>, \<^verbatim>\<open>src/subscriber\<close>).

  \<^bold>\<open>How the program works.\<close> The server creates a register pipe. A client that starts writes one request packet
  into it: a code, the name of a session pipe, the name of a box. The main thread of the server (the listener)
  decodes the packets and puts them into a bounded producer-consumer queue; worker threads take them out and
  handle them. A box is a slot of the server's table plus a file of the same name in TecnicoFS. A publisher
  session appends messages, padded to 1024 bytes, to the file of its box; a subscriber session reads the file from
  the start, sends what it reads, and waits on the condition variable of the box for more; a manager creates,
  removes or lists boxes. Every file of TecnicoFS is at most one block, its one directory is the block of inode 0,
  and its tables (inodes, blocks, open files) are arrays with parallel arrays of free marks.

  \<^bold>\<open>Conventions.\<close> (\<open>Prelude\<close>, \<open>CMemory\<close>, \<open>Locks\<close>) A C function is a HOL function that takes the state and returns
  \<open>fault + result\<close> with the new state (\<open>'a res\<close>): a failed assertion (\<open>ALWAYS_ASSERT\<close>, which panics), an access outside an
  array and a division by zero are faults; \<open>bindR\<close> and \<open>bindP\<close> sequence calls. A function that may not return is a
  \<^theory_text>\<open>partial_function\<close> into \<open>option\<close>, where \<open>None\<close> is not returning: \<open>tfs_open\<close> (which follows symbolic links by
  recursion), \<open>sub_loop\<close> and \<open>listen_loop\<close>; no fuel is used anywhere, and that the calls return is proved. Memory
  is a list of characters (bytes); \<^verbatim>\<open>memcpy\<close>, \<^verbatim>\<open>strcpy\<close>, \<^verbatim>\<open>strlen\<close> and the like are the checked functions of
  \<open>CMemory\<close>. \<^verbatim>\<open>int\<close> values are integers, \<^verbatim>\<open>size_t\<close> values natural numbers with the wrap-around modulo \<open>2 ^ 64\<close> and the
  casts to 32 bits written out where the code can reach them. Results of \<^verbatim>\<open>malloc\<close> and the contents of fresh memory
  are arguments (\<open>malloc_env\<close>, \<open>boot_env\<close>), as are the bytes and outcomes of pipes (\<open>fifo\<close>: interruptions, errors, short
  reads and writes) and of the standard input. Taking and releasing a lock appends an event to the \<open>lock_trace\<close> of the
  state.

  \<^bold>\<open>The file system.\<close>
  \<^item> \<open>FS_State\<close>: the record \<open>fs_state\<close> (the file-scope variables of \<^verbatim>\<open>fs/state.c\<close>) and every function of that file;
    \<open>FS_Ops\<close>: every function of \<^verbatim>\<open>fs/operations.c\<close>.
  \<^item> \<open>FS_View\<close>, \<open>FS_Inv\<close>, \<open>FS_Exec\<close>: how the bytes of the directory block are read as entries, the invariant \<open>fs_inv\<close> of the
    tables, and one equation per function of \<^verbatim>\<open>state.c\<close> in a consistent state.
  \<^item> \<open>FS_Abs\<close>, \<open>FS_Spec\<close>: the abstract file system \<open>afs\<close> (names to nodes, nodes to contents, handles to offsets, the number
    of free blocks) and the specification \<open>client_step\<close> of each call. \<open>FS_Sim\<close>, \<open>FS_Link\<close>, \<open>FS_Open\<close>: each call refines it,
    keeps \<open>fs_inv\<close>, never faults, and takes its locks in order. \<open>FS_Client\<close>, \<open>FS_Init\<close>, \<open>FS_Props\<close>, \<open>FS_Results\<close>: sequences of
    calls, \<^verbatim>\<open>tfs_init\<close>, and the properties of the file system; among them two defects of the code, that a
    cycle of symbolic links is followed for ever and that the block of a symbolic link is never freed.
  \<^item> \<open>File_Store\<close>: the locale \<open>file_store\<close>, the contract the server relies on, with the lemmas about single calls; TecnicoFS is its
    interpretation \<open>tfs\<close>. \<open>Name_Table\<close>: the locale \<open>name_table\<close> of a table that binds names to slots, interpreted by the table of
    boxes (\<open>box_table\<close>).

  \<^bold>\<open>The queue.\<close> \<open>PC_Queue\<close> has the data of \<^verbatim>\<open>producer-consumer.c\<close>, \<^verbatim>\<open>pcq_create\<close> and \<^verbatim>\<open>pcq_destroy\<close>, and the
  locale \<open>bounded_queue\<close> with its interpretation \<open>ring\<close>; \<open>PC_Threads\<close> has \<^verbatim>\<open>pcq_enqueue\<close> and \<^verbatim>\<open>pcq_dequeue\<close> statement by
  statement as programs of threads, with mutexes and condition variables (spurious wake-ups included) and the step
  relation \<open>pcq_step\<close>. \<open>PC_Fifo\<close>, \<open>PC_Progress\<close> and \<open>PC_Props\<close> show, for every interleaving of any threads, that the queue is
  first-in first-out, stays inside its buffer, and that there is neither a deadlock nor a lost wake-up.

  \<^bold>\<open>Protocol and clients.\<close> \<open>Boxes\<close> (\<^verbatim>\<open>box_t\<close>), \<open>Insertion_Sort\<close>, \<open>Protocol\<close> (\<^verbatim>\<open>protocol.c\<close>), \<open>Clients\<close> (the three programs with their
  \<^verbatim>\<open>main\<close>). The signal handler of the subscriber is the argument that says when its flag is set. \<open>Logging\<close> has the macros of
  \<^verbatim>\<open>logging.h\<close> and what they write at each level; no program changes the initial level, which hides warnings, so the
  other theories leave the calls of \<^verbatim>\<open>WARN\<close> out.

  \<^bold>\<open>The server.\<close> \<open>MBroker\<close> has every function of \<^verbatim>\<open>mbroker.c\<close>, each handler as one worker runs it; a subscriber that
  waits for messages is the outcome \<open>Sleeping\<close>, and waking it is calling \<open>sub_loop\<close> again. \<open>MBroker_Boxes\<close>,
  \<open>MBroker_Manager\<close>, \<open>MBroker_Init\<close>: the table of boxes (\<open>table_ok\<close>), the invariant \<open>srv_inv\<close> (table and directory in step), the
  start of the server. Then the flows from end to end: \<open>Connection\<close> (a request from the client into the queue),
  \<open>Manager_Requests\<close>, \<open>Manager_Listing\<close>, \<open>Listing_Client\<close>, \<open>Manager_Program\<close> (commands of the manager from their arguments to what is
  printed), \<open>Publisher_Session\<close>, \<open>Subscriber_Session\<close>, \<open>Message_Text\<close> (lines typed into a publisher come out of a
  subscriber), \<open>Stale_Sessions\<close> (a publisher that outlives its box). \<open>MBroker_Args\<close> has the \<^verbatim>\<open>main\<close> of the server with its
  arguments, and \<^verbatim>\<open>strtol\<close> as the C standard describes it.

  \<^bold>\<open>The running server.\<close> \<open>Server_Frame\<close> shows that every handler returns and keeps \<open>srv_inv\<close> whatever its client sends.
  \<open>Server_Returns\<close> has a calculus for what all results of a handler have in common and shows how the handlers count publishers.
  \<open>Server_Machine\<close> puts listener and workers together in the step relation \<open>broker_step\<close>, in which the sessions of
  subscribers interleave from wake-up to wake-up and those of publishers message by message; its reachable states are
  consistent, free of faults, and have one publisher to a box at most. A publisher session that \<open>workers_reception\<close> runs in one go is a run
  of the finer steps (\<open>publisher_session_steps\<close>). \<open>Better_Locks\<close> has the wrappers of \<^verbatim>\<open>better-locks.c\<close> over POSIX locks and the step
  relation \<open>lock_step\<close> of threads that use them; \<open>Server_Locks\<close> shows that workers keep to the lock hierarchy, so that no wrapper
  panics and no set of them deadlocks.

  \<^bold>\<open>Bounds.\<close> \<open>mbroker_params\<close> are the numbers the server passes to \<^verbatim>\<open>tfs_init\<close> (64 inodes, 1024 blocks of \<open>1024 * 1024\<close> bytes,
  that is 1024 messages to a box, and as many handles as workers); \<open>params_ok\<close> asks of \<^verbatim>\<open>tfs_init\<close> in general only that the
  counts fit into an \<^verbatim>\<open>int\<close>, the size of a
  block into a \<^verbatim>\<open>ssize_t\<close>, and that there are inodes, blocks and bytes in a block. The demos, two data
  blocks or two workers, are only used in witnesses.

  \<^bold>\<open>Not modelled.\<close> The usage messages of the clients, and the signal dispositions; the artificial storage delays; creating and
  unlinking the named pipes beyond whether that succeeds. The parts of the handlers between two points where a
  session waits (for a message of its publisher, for a wake-up) run one at a time: how they interleave inside
  is modelled for the queue, for the locks, and for one race (\<open>subscriber_leaves_box_locked\<close>: a box is
  removed between \<open>box_find\<close> and \<open>sub_open\<close>), not in general. The locks of the queue are those of \<open>PC_Threads\<close> and are not
  in the lock traces; no thread holds another lock when it calls the queue.
\<close>

end
